(* ===== verification/Prelude.thy ===== *)
theory Prelude
  imports Main "HOL-Library.AList" "HOL-Library.Product_Lexorder" "HOL-Library.List_Lexorder"
    "HOL-Library.Char_ord" "HOL-Library.Multiset"
begin

text \<open>
  What the components share: the values of the specification language (the JSON-like data
  every component of the tool passes around), Python exceptions, the two result types
  (\<open>res\<close> for code that always returns, \<open>out\<close> for code whose loops may run forever), dicts as
  association lists in insertion order, and the string operations of Python that the source
  calls, with the lemmas about them.
\<close>

named_theorems dict_simps "laws of the dict operations"
named_theorems res_simps "unfolding and inversion of the result types"
named_theorems str_simps "laws of the string operations"

section \<open>Values and exceptions\<close>

text \<open>
  A Python value as the specs hold it. A float is represented by its \<open>repr\<close>, which
  determines it; the keys of a dict are strings, as in JSON; a dict is the list of its items
  in insertion order.
\<close>

datatype pval =
    PNone
  | PBool bool
  | PInt int
  | PFloat string
  | PStr string
  | PList "pval list"
  | PTuple "pval list"
  | PDict "(string \<times> pval) list"

text \<open>The exceptions the modelled code raises; the payload is the message or the offending value.\<close>

datatype pyerr =
    TypeError string
  | KeyError pval
  | ValueError string
  | RuntimeError string
  | AttributeError string
  | IndexError
  | NameError string
  | LookupError string
  | AssertionError
  | TimeoutError string
  | OtherError string string

type_synonym 'a res = "pyerr + 'a"

text \<open>\<open>None\<close>: the computation does not return.\<close>

type_synonym 'a out = "(pyerr + 'a) option"

type_synonym 'v dict = "(string \<times> 'v) list"

section \<open>Sequencing\<close>

definition bindE :: "'a res \<Rightarrow> ('a \<Rightarrow> 'b res) \<Rightarrow> 'b res" where
  "bindE m f = (case m of Inl e \<Rightarrow> Inl e | Inr x \<Rightarrow> f x)"

definition bindO :: "'a out \<Rightarrow> ('a \<Rightarrow> 'b out) \<Rightarrow> 'b out" where
  "bindO m f = (case m of None \<Rightarrow> None | Some (Inl e) \<Rightarrow> Some (Inl e) | Some (Inr x) \<Rightarrow> f x)"

abbreviation ok :: "'a \<Rightarrow> 'a out" where
  "ok x \<equiv> Some (Inr x)"

abbreviation raise :: "pyerr \<Rightarrow> 'a out" where
  "raise e \<equiv> Some (Inl e)"

lemma bindE_simps [simp]:
  "bindE (Inl e) f = Inl e" "bindE (Inr x) f = f x"
  by (simp_all add: bindE_def)

lemma bindO_simps [simp]:
  "bindO None f = None" "bindO (Some (Inl e)) f = Some (Inl e)" "bindO (Some (Inr x)) f = f x"
  by (simp_all add: bindO_def)

lemma bindE_Inr [res_simps]: "bindE m f = Inr y \<longleftrightarrow> (\<exists>x. m = Inr x \<and> f x = Inr y)"
  by (cases m) auto

lemma bindE_Inl [res_simps]:
  "bindE m f = Inl e \<longleftrightarrow> m = Inl e \<or> (\<exists>x. m = Inr x \<and> f x = Inl e)"
  by (cases m) auto

lemma bindO_ok [res_simps]: "bindO m f = ok y \<longleftrightarrow> (\<exists>x. m = ok x \<and> f x = ok y)"
  by (auto simp: bindO_def split: option.splits sum.splits)

lemma bindO_raise [res_simps]:
  "bindO m f = raise e \<longleftrightarrow> m = raise e \<or> (\<exists>x. m = ok x \<and> f x = raise e)"
  by (auto simp: bindO_def split: option.splits sum.splits)

lemma bindO_None [res_simps]:
  "bindO m f = None \<longleftrightarrow> m = None \<or> (\<exists>x. m = ok x \<and> f x = None)"
  by (auto simp: bindO_def split: option.splits sum.splits)

lemma bindE_cong [fundef_cong]:
  "m = m' \<Longrightarrow> (\<And>x. m' = Inr x \<Longrightarrow> f x = f' x) \<Longrightarrow> bindE m f = bindE m' f'"
  by (cases m') auto

lemma bindO_cong [fundef_cong]:
  "m = m' \<Longrightarrow> (\<And>x. m' = ok x \<Longrightarrow> f x = f' x) \<Longrightarrow> bindO m f = bindO m' f'"
  by (auto simp: bindO_def split: option.splits sum.splits)

text \<open>A list comprehension stops at the first element that raises (or does not return).\<close>

fun mapE :: "('a \<Rightarrow> 'b res) \<Rightarrow> 'a list \<Rightarrow> 'b list res" where
  "mapE f [] = Inr []"
| "mapE f (x # xs) = bindE (f x) (\<lambda>y. bindE (mapE f xs) (\<lambda>ys. Inr (y # ys)))"

fun mapO :: "('a \<Rightarrow> 'b out) \<Rightarrow> 'a list \<Rightarrow> 'b list out" where
  "mapO f [] = ok []"
| "mapO f (x # xs) = bindO (f x) (\<lambda>y. bindO (mapO f xs) (\<lambda>ys. ok (y # ys)))"

lemma mapE_cong [fundef_cong]:
  "xs = ys \<Longrightarrow> (\<And>x. x \<in> set ys \<Longrightarrow> f x = g x) \<Longrightarrow> mapE f xs = mapE g ys"
  by (induction ys arbitrary: xs) auto

lemma mapO_cong [fundef_cong]:
  "xs = ys \<Longrightarrow> (\<And>x. x \<in> set ys \<Longrightarrow> f x = g x) \<Longrightarrow> mapO f xs = mapO g ys"
  by (induction ys arbitrary: xs) auto

lemma mapE_Inr_map: "(\<And>x. x \<in> set xs \<Longrightarrow> f x = Inr (g x)) \<Longrightarrow> mapE f xs = Inr (map g xs)"
  by (induction xs) auto

lemma mapE_map: "mapE f (map g xs) = mapE (\<lambda>x. f (g x)) xs"
  by (induction xs) simp_all

lemma mapO_ok_map: "(\<And>x. x \<in> set xs \<Longrightarrow> f x = ok (g x)) \<Longrightarrow> mapO f xs = ok (map g xs)"
  by (induction xs) auto

lemma mapE_Inr: "mapE f xs = Inr ys \<longleftrightarrow> list_all2 (\<lambda>x y. f x = Inr y) xs ys"
  by (induction xs arbitrary: ys) (auto simp: res_simps list_all2_Cons1)

lemma mapO_ok: "mapO f xs = ok ys \<longleftrightarrow> list_all2 (\<lambda>x y. f x = ok y) xs ys"
  by (induction xs arbitrary: ys) (auto simp: res_simps list_all2_Cons1)

lemma mapO_None: "mapO f xs = None \<Longrightarrow> \<exists>x \<in> set xs. f x = None"
  by (induction xs) (auto simp: res_simps)

lemma mapO_raise: "mapO f xs = raise e \<Longrightarrow> \<exists>x \<in> set xs. f x = raise e"
  by (induction xs) (auto simp: res_simps)

lemma mapE_Inl: "mapE f xs = Inl e \<Longrightarrow> \<exists>x \<in> set xs. f x = Inl e"
  by (induction xs) (auto simp: res_simps)

text \<open>A \<open>for\<close> loop over a list with a state, stopping at the first exception.\<close>

fun foldE :: "('s \<Rightarrow> 'a \<Rightarrow> 's res) \<Rightarrow> 's \<Rightarrow> 'a list \<Rightarrow> 's res" where
  "foldE f s [] = Inr s"
| "foldE f s (x # xs) = bindE (f s x) (\<lambda>s'. foldE f s' xs)"

lemma foldE_append: "foldE f s (xs @ ys) = bindE (foldE f s xs) (\<lambda>s'. foldE f s' ys)"
  by (induction xs arbitrary: s) (auto simp: bindE_def split: sum.splits)

lemma foldE_invariant:
  assumes "foldE f s xs = Inr s'" and "P s"
    and "\<And>s x s'. x \<in> set xs \<Longrightarrow> P s \<Longrightarrow> f s x = Inr s' \<Longrightarrow> P s'"
  shows "P s'"
  using assms by (induction xs arbitrary: s) (auto simp: res_simps)

section \<open>Dicts in insertion order\<close>

abbreviation dget :: "'v dict \<Rightarrow> string \<Rightarrow> 'v option" where
  "dget d k \<equiv> map_of d k"

abbreviation dset :: "string \<Rightarrow> 'v \<Rightarrow> 'v dict \<Rightarrow> 'v dict" where
  "dset k v d \<equiv> AList.update k v d"

text \<open>\<open>d.get(k, default)\<close>, \<open>d[k]\<close>, \<open>d.pop(k, None)\<close>, \<open>d.setdefault(k, v)\<close>, \<open>d.update(e)\<close>.\<close>

definition dget_or :: "'v dict \<Rightarrow> string \<Rightarrow> 'v \<Rightarrow> 'v" where
  "dget_or d k v = (case dget d k of None \<Rightarrow> v | Some x \<Rightarrow> x)"

definition dindex :: "'v dict \<Rightarrow> string \<Rightarrow> 'v res" where
  "dindex d k = (case dget d k of None \<Rightarrow> Inl (KeyError (PStr k)) | Some x \<Rightarrow> Inr x)"

definition dpop :: "string \<Rightarrow> 'v dict \<Rightarrow> 'v dict" where
  "dpop k d = filter (\<lambda>p. fst p \<noteq> k) d"

definition dsetdefault :: "string \<Rightarrow> 'v \<Rightarrow> 'v dict \<Rightarrow> 'v dict" where
  "dsetdefault k v d = (case dget d k of None \<Rightarrow> dset k v d | Some _ \<Rightarrow> d)"

definition dupdate :: "'v dict \<Rightarrow> 'v dict \<Rightarrow> 'v dict" where
  "dupdate d e = fold (\<lambda>(k, v). dset k v) e d"

abbreviation dkeys :: "'v dict \<Rightarrow> string list" where
  "dkeys d \<equiv> map fst d"

lemma dset_get [dict_simps]: "dget (dset k v d) j = (if j = k then Some v else dget d j)"
  by (simp add: update_conv')

lemma dset_keys [dict_simps]: "fst ` set (dset k v d) = insert k (fst ` set d)"
  using dom_update [of k v d] by simp

lemma dset_distinct [dict_simps]: "distinct (dkeys d) \<Longrightarrow> distinct (dkeys (dset k v d))"
  by (rule distinct_update)

lemma dset_new: "k \<notin> set (dkeys t) \<Longrightarrow> dset k v t = t @ [(k, v)]"
  by (induction t) auto

lemma dpop_get [dict_simps]: "dget (dpop k d) j = (if j = k then None else dget d j)"
  by (induction d) (auto simp: dpop_def)

lemma dpop_keys [dict_simps]: "fst ` set (dpop k d) = fst ` set d - {k}"
  by (auto simp: dpop_def)

lemma dpop_distinct [dict_simps]: "distinct (dkeys d) \<Longrightarrow> distinct (dkeys (dpop k d))"
  by (induction d) (auto simp: dpop_def)

lemma dpop_absent [dict_simps]: "k \<notin> set (dkeys d) \<Longrightarrow> dpop k d = d"
  by (induction d) (auto simp: dpop_def)

lemma dsetdefault_get [dict_simps]:
  "dget (dsetdefault k v d) j = (if j = k \<and> dget d k = None then Some v else dget d j)"
  by (auto simp: dsetdefault_def dset_get split: option.splits)

lemma dsetdefault_distinct [dict_simps]:
  "distinct (dkeys d) \<Longrightarrow> distinct (dkeys (dsetdefault k v d))"
  by (auto simp: dsetdefault_def dset_distinct split: option.splits)

lemma dsetdefault_keys [dict_simps]:
  "fst ` set (dsetdefault k v d) = insert k (fst ` set d)"
proof (cases "dget d k")
  case None
  then show ?thesis by (simp only: dsetdefault_def dset_keys option.case)
next
  case (Some x)
  then have "k \<in> fst ` set d" by (auto dest: map_of_SomeD intro: rev_image_eqI)
  with Some show ?thesis by (auto simp: dsetdefault_def)
qed

lemma dupdate_Nil [dict_simps]: "dupdate d [] = d"
  by (simp add: dupdate_def)

lemma dupdate_Cons [dict_simps]: "dupdate d ((k, v) # e) = dupdate (dset k v d) e"
  by (simp add: dupdate_def)

lemma dget_None_iff: "dget d k = None \<longleftrightarrow> k \<notin> set (dkeys d)"
  by (simp add: map_of_eq_None_iff)

lemma dupdate_get:
  "distinct (dkeys e) \<Longrightarrow>
    dget (dupdate d e) k = (case dget e k of None \<Rightarrow> dget d k | Some v \<Rightarrow> Some v)"
proof (induction e arbitrary: d)
  case Nil
  then show ?case by (simp add: dict_simps)
next
  case (Cons p e)
  obtain a b where p: "p = (a, b)" by force
  from Cons.prems p have "a \<notin> set (dkeys e)" by simp
  then have a: "dget e a = None" by (simp only: dget_None_iff not_False_eq_True)
  from Cons.prems p have "distinct (dkeys e)" by simp
  note IH = Cons.IH [OF this, of "dset a b d"]
  show ?case
    unfolding p dupdate_Cons IH dset_get using a by (cases "k = a") auto
qed

lemma dupdate_keys [dict_simps]: "fst ` set (dupdate d e) = fst ` set d \<union> fst ` set e"
proof (induction e arbitrary: d)
  case Nil
  show ?case by (simp add: dupdate_Nil)
next
  case (Cons p e)
  obtain a b where p: "p = (a, b)" by force
  show ?case unfolding p dupdate_Cons Cons.IH dset_keys by auto
qed

lemma dupdate_distinct [dict_simps]: "distinct (dkeys d) \<Longrightarrow> distinct (dkeys (dupdate d e))"
  by (induction e arbitrary: d) (auto simp: dupdate_Nil dupdate_Cons dset_distinct)

lemma dset_items: "(j, w) \<in> set (dset k v d) \<Longrightarrow> (j = k \<and> w = v) \<or> (j, w) \<in> set d"
  by (induction d) (auto split: if_splits)

lemma dupdate_items: "(j, w) \<in> set (dupdate d e) \<Longrightarrow> (j, w) \<in> set d \<or> (j, w) \<in> set e"
proof (induction e arbitrary: d)
  case (Cons p e)
  obtain a b where p: "p = (a, b)" by force
  from Cons.prems have "(j, w) \<in> set (dset a b d) \<or> (j, w) \<in> set e"
    unfolding p dupdate_Cons by (rule Cons.IH)
  then show ?case unfolding p by (auto dest: dset_items)
qed (simp add: dupdate_Nil)

lemma dupdate_Nil_id: "distinct (dkeys d) \<Longrightarrow> dupdate [] d = d"
proof -
  have "distinct (dkeys (e @ d)) \<Longrightarrow> dupdate e d = e @ d" for e :: "'a dict"
  proof (induction d arbitrary: e)
    case (Cons p d)
    obtain a b where p: "p = (a, b)" by force
    have "dset a b e = e @ [(a, b)]" using Cons.prems p by (induction e) auto
    with Cons p show ?case by (simp add: dupdate_Cons)
  qed (simp add: dupdate_Nil)
  from this [of "[]"] show "distinct (dkeys d) \<Longrightarrow> dupdate [] d = d" by simp
qed

lemma dget_item: "distinct (dkeys d) \<Longrightarrow> (k, v) \<in> set d \<longleftrightarrow> dget d k = Some v"
  by (metis map_of_eq_Some_iff)

section \<open>Strings\<close>

text \<open>
  Python strings of characters up to U+00FF as lists of characters. The separators of the
  source are single characters or literal words.
\<close>

abbreviation nl :: string where
  "nl \<equiv> [CHR 0x0A]"

definition join :: "string \<Rightarrow> string list \<Rightarrow> string" where
  "join sep ss = concat (case ss of [] \<Rightarrow> [] | x # xs \<Rightarrow> x # map (\<lambda>y. sep @ y) xs)"

lemma join_simps [str_simps]:
  "join sep [] = []" "join sep [x] = x" "join sep (x # y # ys) = x @ sep @ join sep (y # ys)"
  by (simp_all add: join_def)

text \<open>\<open>s.split(c)\<close> for a one-character separator: empty fields are kept.\<close>

fun split_on :: "char \<Rightarrow> string \<Rightarrow> string list" where
  "split_on c [] = [[]]"
| "split_on c (x # xs) =
     (if x = c then [] # split_on c xs
      else (case split_on c xs of [] \<Rightarrow> [[x]] | y # ys \<Rightarrow> (x # y) # ys))"

lemma split_on_ne [str_simps]: "split_on c s \<noteq> []"
  by (induction s) (auto split: list.splits)

lemma split_on_no_sep: "c \<notin> set s \<Longrightarrow> split_on c s = [s]"
  by (induction s) auto

lemma split_on_append: "c \<notin> set s \<Longrightarrow> split_on c (s @ c # t) = s # split_on c t"
  by (induction s) auto

lemma split_on_join:
  "ss \<noteq> [] \<Longrightarrow> (\<And>s. s \<in> set ss \<Longrightarrow> c \<notin> set s) \<Longrightarrow> split_on c (join [c] ss) = ss"
proof (induction ss rule: induct_list012)
  case (3 x y zs)
  then show ?case by (simp add: str_simps split_on_append)
qed (simp_all add: str_simps split_on_no_sep)

lemma join_split_on [str_simps]: "join [c] (split_on c s) = s"
proof (induction s)
  case (Cons x xs)
  obtain y ys where y: "split_on c xs = y # ys"
    using split_on_ne [of c xs] by (cases "split_on c xs") auto
  with Cons show ?case by (cases ys) (auto simp: join_def)
qed (simp add: join_def)

text \<open>\<open>s.split(c, 1)\<close>: one field when the separator is absent, two otherwise.\<close>

definition split1 :: "char \<Rightarrow> string \<Rightarrow> string list" where
  "split1 c s = (case dropWhile (\<lambda>x. x \<noteq> c) s of [] \<Rightarrow> [s] | _ # r \<Rightarrow> [takeWhile (\<lambda>x. x \<noteq> c) s, r])"

lemma split1_sep:
  assumes "c \<notin> set s"
  shows "split1 c (s @ c # t) = [s, t]"
proof -
  have *: "\<And>x. x \<in> set s \<Longrightarrow> x \<noteq> c" using assms by auto
  have "dropWhile (\<lambda>x. x \<noteq> c) (s @ c # t) = c # t" by (simp add: dropWhile_append2 *)
  moreover have "takeWhile (\<lambda>x. x \<noteq> c) (s @ c # t) = s" by (simp add: takeWhile_append2 *)
  ultimately show ?thesis by (simp add: split1_def)
qed

lemma split1_no_sep: "c \<notin> set s \<Longrightarrow> split1 c s = [s]"
proof -
  assume "c \<notin> set s"
  then have e: "dropWhile (\<lambda>x. x \<noteq> c) s = []" by (auto simp: dropWhile_eq_Nil_conv)
  show ?thesis unfolding split1_def e by simp
qed

text \<open>\<open>s.rsplit(c, 1)\<close>.\<close>

definition rsplit1 :: "char \<Rightarrow> string \<Rightarrow> string list" where
  "rsplit1 c s = rev (map rev (split1 c (rev s)))"

lemma rsplit1_sep: "c \<notin> set t \<Longrightarrow> rsplit1 c (s @ c # t) = [s, t]"
  by (simp add: rsplit1_def split1_sep)

lemma rsplit1_no_sep: "c \<notin> set s \<Longrightarrow> rsplit1 c s = [s]"
  by (simp add: rsplit1_def split1_no_sep)

text \<open>White space, \<open>strip()\<close> and \<open>split()\<close>.\<close>

definition is_space :: "char \<Rightarrow> bool" where
  "is_space c = (let n = (of_char c :: nat) in n = 32 \<or> (9 \<le> n \<and> n \<le> 13) \<or> (28 \<le> n \<and> n \<le> 31))"

definition strip_by :: "(char \<Rightarrow> bool) \<Rightarrow> string \<Rightarrow> string" where
  "strip_by p s = rev (dropWhile p (rev (dropWhile p s)))"

abbreviation strip :: "string \<Rightarrow> string" where
  "strip s \<equiv> strip_by is_space s"

fun words :: "string \<Rightarrow> string \<Rightarrow> string list" where
  "words acc [] = (if acc = [] then [] else [rev acc])"
| "words acc (c # cs) =
     (if is_space c then (if acc = [] then words [] cs else rev acc # words [] cs)
      else words (c # acc) cs)"

abbreviation split_ws :: "string \<Rightarrow> string list" where
  "split_ws s \<equiv> words [] s"

text \<open>\<open>splitlines\<close>: line boundaries end a line, \<open>CR LF\<close> is one, a last empty line is not a line.\<close>

definition is_eol :: "char \<Rightarrow> bool" where
  "is_eol c = (let n = (of_char c :: nat) in (10 \<le> n \<and> n \<le> 13) \<or> (28 \<le> n \<and> n \<le> 30))"

fun splitlines_acc :: "string \<Rightarrow> string \<Rightarrow> string list" where
  "splitlines_acc acc [] = (if acc = [] then [] else [rev acc])"
| "splitlines_acc acc [c] = (if is_eol c then [rev acc] else [rev (c # acc)])"
| "splitlines_acc acc (c # d # s) =
     (if c = CHR 0x0D \<and> d = CHR 0x0A then rev acc # splitlines_acc [] s
      else if is_eol c then rev acc # splitlines_acc [] (d # s)
      else splitlines_acc (c # acc) (d # s))"

definition startswith :: "string \<Rightarrow> string \<Rightarrow> bool" where
  "startswith p s \<longleftrightarrow> take (length p) s = p"

lemma startswith_append [str_simps]: "startswith p (p @ s)"
  by (simp add: startswith_def)

definition endswith :: "string \<Rightarrow> string \<Rightarrow> bool" where
  "endswith p s \<longleftrightarrow> startswith (rev p) (rev s)"

fun contains :: "string \<Rightarrow> string \<Rightarrow> bool" where
  "contains p [] = (p = [])"
| "contains p (c # cs) = (startswith p (c # cs) \<or> contains p cs)"

text \<open>Upper- and lower-case ASCII.\<close>

definition lower_char :: "char \<Rightarrow> char" where
  "lower_char c = (let n = (of_char c :: nat) in if 65 \<le> n \<and> n \<le> 90 then char_of (n + 32) else c)"

abbreviation lower :: "string \<Rightarrow> string" where
  "lower s \<equiv> map lower_char s"

section \<open>Numbers in decimal and hexadecimal\<close>

definition digit_char :: "nat \<Rightarrow> char" where
  "digit_char n = (if n < 10 then char_of (48 + n) else char_of (55 + n))"

definition digit_val :: "char \<Rightarrow> nat option" where
  "digit_val c = (let n = (of_char c :: nat) in
     if 48 \<le> n \<and> n \<le> 57 then Some (n - 48)
     else if 65 \<le> n \<and> n \<le> 70 then Some (n - 55)
     else if 97 \<le> n \<and> n \<le> 102 then Some (n - 87) else None)"

lemma digit_char_eval [simp]:
  "digit_char 0 = CHR ''0''"
  "digit_char (Suc 0) = CHR ''1''"
  "digit_char 2 = CHR ''2''"
  "digit_char 3 = CHR ''3''"
  "digit_char 4 = CHR ''4''"
  "digit_char 5 = CHR ''5''"
  "digit_char 6 = CHR ''6''"
  "digit_char 7 = CHR ''7''"
  "digit_char 8 = CHR ''8''"
  "digit_char 9 = CHR ''9''"
  "digit_char 10 = CHR ''A''"
  "digit_char 11 = CHR ''B''"
  "digit_char 12 = CHR ''C''"
  "digit_char 13 = CHR ''D''"
  "digit_char 14 = CHR ''E''"
  "digit_char 15 = CHR ''F''"
  by code_simp+

lemma digit_val_char: "n < 16 \<Longrightarrow> digit_val (digit_char n) = Some n"
  by (auto simp: digit_val_def digit_char_def Let_def)

text \<open>\<open>str\<close> for base 10, \<open>'{:X}'.format\<close> for base 16.\<close>

fun digits_of :: "nat \<Rightarrow> nat \<Rightarrow> string" where
  "digits_of b n = (if b < 2 \<or> n < b then [digit_char n]
     else digits_of b (n div b) @ [digit_char (n mod b)])"

declare digits_of.simps [simp del]

definition of_digits :: "nat \<Rightarrow> string \<Rightarrow> nat" where
  "of_digits b s = foldl (\<lambda>n c. n * b + (case digit_val c of None \<Rightarrow> 0 | Some d \<Rightarrow> d)) 0 s"

lemma of_digits_snoc: "of_digits b (s @ [c]) =
    of_digits b s * b + (case digit_val c of None \<Rightarrow> 0 | Some d \<Rightarrow> d)"
  by (simp add: of_digits_def)

lemma of_digits_digits_of [str_simps]:
  "2 \<le> b \<Longrightarrow> b \<le> 16 \<Longrightarrow> of_digits b (digits_of b n) = n"
proof (induction b n rule: digits_of.induct)
  case (1 b n)
  show ?case
  proof (cases "n < b")
    case True
    with 1 show ?thesis
      by (subst digits_of.simps) (simp add: of_digits_def digit_val_char)
  next
    case False
    from 1 False have "of_digits b (digits_of b (n div b)) = n div b" by simp
    moreover have "n mod b < 16"
      using 1 mod_less_divisor [of b n] by linarith
    ultimately show ?thesis using 1 False
      by (subst digits_of.simps) (simp add: of_digits_snoc digit_val_char)
  qed
qed

lemma digits_of_ne [str_simps]: "digits_of b n \<noteq> []"
  by (subst digits_of.simps) simp

lemma digits_of_digit:
  "2 \<le> b \<Longrightarrow> b \<le> 16 \<Longrightarrow> c \<in> set (digits_of b n) \<Longrightarrow> \<exists>d < b. c = digit_char d"
proof (induction b n rule: digits_of.induct)
  case (1 b n)
  show ?case
  proof (cases "n < b \<or> c \<in> set (digits_of b (n div b))")
    case True
    with 1 show ?thesis by (cases "n < b") (auto simp: digits_of.simps [of b n])
  next
    case False
    with 1 have "c = digit_char (n mod b)" by (simp add: digits_of.simps [of b n])
    moreover from 1 have "n mod b < b" by simp
    ultimately show ?thesis by blast
  qed
qed

definition str_nat :: "nat \<Rightarrow> string" where
  "str_nat n = digits_of 10 n"

definition str_int :: "int \<Rightarrow> string" where
  "str_int i = (if i < 0 then CHR ''-'' # str_nat (nat (- i)) else str_nat (nat i))"

definition hex_upper :: "int \<Rightarrow> string" where
  "hex_upper i = (if i < 0 then CHR ''-'' # digits_of 16 (nat (- i)) else digits_of 16 (nat i))"

definition is_digit :: "char \<Rightarrow> bool" where
  "is_digit c = (let n = (of_char c :: nat) in 48 \<le> n \<and> n \<le> 57)"

definition is_hex :: "char \<Rightarrow> bool" where
  "is_hex c = (digit_val c \<noteq> None)"

lemma digit_char_is_hex: "n < 16 \<Longrightarrow> is_hex (digit_char n)"
  by (simp add: is_hex_def digit_val_char)

lemma digits_of_hex: "2 \<le> b \<Longrightarrow> b \<le> 16 \<Longrightarrow> c \<in> set (digits_of b n) \<Longrightarrow> is_hex c"
  using digits_of_digit [of b c n] digit_char_is_hex by fastforce

lemma digits_of_digit10: "c \<in> set (digits_of 10 n) \<Longrightarrow> is_digit c"
  using digits_of_digit [of 10 c n] by (auto simp: is_digit_def digit_char_def Let_def)

text \<open>\<open>int(s)\<close> on the decimal forms the source feeds it: surrounding white space, a sign, digits.\<close>

definition parse_int :: "string \<Rightarrow> int res" where
  "parse_int s =
     (let t = strip s;
          neg = (startswith ''-'' t);
          u = (if neg \<or> startswith ''+'' t then tl t else t)
      in if u \<noteq> [] \<and> list_all is_digit u
         then Inr ((if neg then - 1 else 1) * int (of_digits 10 u))
         else Inl (ValueError (''invalid literal for int() with base 10: '' @ s)))"

lemma digits_of_length: "2 \<le> b \<Longrightarrow> n < b ^ k \<Longrightarrow> 0 < k \<Longrightarrow> length (digits_of b n) \<le> k"
proof (induction b n arbitrary: k rule: digits_of.induct)
  case (1 b n)
  show ?case
  proof (cases "n < b")
    case True
    then show ?thesis using 1 by (subst digits_of.simps) simp
  next
    case False
    with 1 obtain j where k: "k = Suc j" "0 < j" by (cases k; cases "k = 1") auto
    have "n div b < b ^ j" using 1 k by (simp add: less_mult_imp_div_less mult.commute)
    with 1 k False show ?thesis by (subst digits_of.simps) simp
  qed
qed

lemma digit_char_inj: "i < 16 \<Longrightarrow> j < 16 \<Longrightarrow> digit_char i = digit_char j \<longleftrightarrow> i = j"
  using digit_val_char by (metis option.inject)

lemma digits_of_hd: "2 \<le> b \<Longrightarrow> b \<le> 16 \<Longrightarrow> 0 < n \<Longrightarrow> hd (digits_of b n) \<noteq> CHR ''0''"
proof (induction b n rule: digits_of.induct)
  case (1 b n)
  show ?case
  proof (cases "n < b")
    case True
    then show ?thesis using 1 digit_char_inj [of n 0] by (subst digits_of.simps) simp
  next
    case False
    with 1 have "0 < n div b" by (simp add: div_greater_zero_iff)
    with 1 False show ?thesis by (subst digits_of.simps) (simp add: digits_of_ne)
  qed
qed

lemma digits_of_small: "n < b \<Longrightarrow> digits_of b n = [digit_char n]"
  by (subst digits_of.simps) simp

lemma all_digits10: "list_all is_digit (digits_of 10 n)"
  using digits_of_digit10 by (simp add: list_all_iff)

lemma digit_val_lower: "d < 16 \<Longrightarrow> digit_val (lower_char (digit_char d)) = Some d"
  by (auto simp: digit_val_def digit_char_def lower_char_def Let_def)

lemma bindE_assoc: "bindE (bindE m f) g = bindE m (\<lambda>x. bindE (f x) g)"
  by (cases m) simp_all

lemma startswith_one: "s \<noteq> [] \<Longrightarrow> startswith [c] s \<longleftrightarrow> hd s = c"
  by (cases s) (auto simp: startswith_def)

lemma parse_int_str_nat: "parse_int (str_nat n) = Inr (int n)"
proof -
  let ?d = "digits_of 10 n"
  have dg: "is_digit c" if "c \<in> set ?d" for c using that by (rule digits_of_digit10)
  then have sp: "\<not> is_space c" if "c \<in> set ?d" for c
    using dg [OF that] by (auto simp: is_digit_def is_space_def Let_def)
  have id: "dropWhile is_space t = t" if "set t \<subseteq> set ?d" for t
    using that sp by (cases t) auto
  have "strip ?d = ?d" unfolding strip_by_def using id [of ?d] id [of "rev ?d"] by simp
  moreover have "\<not> startswith ''-'' ?d" "\<not> startswith ''+'' ?d"
    using dg [of "hd ?d"] digits_of_ne [of 10 n] by (auto simp: startswith_one is_digit_def)
  ultimately show ?thesis
    using dg digits_of_ne [of 10 n] of_digits_digits_of [of 10 n]
    by (simp add: parse_int_def str_nat_def list_all_iff)
qed

lemma endswith_iff: "endswith p s \<longleftrightarrow> (\<exists>x. s = x @ p)"
proof
  assume "endswith p s"
  then have "rev s = rev p @ drop (length p) (rev s)"
    unfolding endswith_def startswith_def by (metis append_take_drop_id length_rev)
  then have "s = rev (drop (length p) (rev s)) @ p" by (metis rev_append rev_rev_ident)
  then show "\<exists>x. s = x @ p" by blast
qed (auto simp: endswith_def startswith_append)

lemma split_on_app: "split_on c (s @ c # t) = split_on c s @ split_on c t"
  by (induction s) (auto simp: split_on_ne split: list.splits)

lemma split_on_single: "split_on c s = [t] \<Longrightarrow> t = s"
  by (induction s arbitrary: t) (auto split: list.splits if_splits simp: split_on_ne)

lemma digit_no_space: "is_digit c \<Longrightarrow> \<not> is_space c"
  by (auto simp: is_digit_def is_space_def Let_def)

lemma strip_no_space: "list_all (\<lambda>c. \<not> is_space c) s \<Longrightarrow> strip s = s"
proof -
  assume a: "list_all (\<lambda>c. \<not> is_space c) s"
  then have "dropWhile is_space s = s" "dropWhile is_space (rev s) = rev s"
    by (cases "s = []"; simp add: dropWhile_eq_self_iff list_all_iff hd_rev)+
  then show ?thesis by (simp add: strip_by_def)
qed

lemma parse_int_str_int: "parse_int (str_int i) = Inr i"
proof (cases "i < 0")
  case True
  let ?d = "str_nat (nat (- i))"
  have d: "list_all is_digit ?d" "?d \<noteq> []" "of_digits 10 ?d = nat (- i)"
    by (simp_all add: str_nat_def all_digits10 digits_of_ne of_digits_digits_of)
  have "strip (CHR ''-'' # ?d) = CHR ''-'' # ?d"
    by (rule strip_no_space) (use d(1) digit_no_space in \<open>auto simp: list_all_iff is_space_def\<close>)
  with d True show ?thesis by (simp add: str_int_def parse_int_def startswith_one Let_def)
next
  case False
  with parse_int_str_nat [of "nat i"] show ?thesis by (simp add: str_int_def)
qed

lemma str_int_no_space: "CHR '' '' \<notin> set (str_int i)"
proof -
  have "CHR '' '' \<notin> set (str_nat n)" for n
    using all_digits10 [of n] by (auto simp: str_nat_def list_all_iff is_digit_def Let_def)
  then show ?thesis by (simp add: str_int_def)
qed

lemma split_on_clean: "x \<in> set (split_on c s) \<Longrightarrow> c \<notin> set x"
proof (induction s arbitrary: x)
  case (Cons a s)
  obtain y ys where "split_on c s = y # ys" using split_on_ne [of c s] by (cases "split_on c s") auto
  with Cons show ?case by (auto split: if_splits)
qed simp

end
