(* ===== verification/HexRanges.thy ===== *)
theory HexRanges
  imports Prelude
begin

text \<open>
  The class \<open>HexRanges\<close> of \<open>runtime/singularity.py\<close>: sets of addresses as sorted lists of
  closed ranges \<open>[a, b]\<close>, with their text form (upper-case hexadecimal). A range is the pair
  of its ends. \<open>ranges_set\<close> is the set the entries denote; \<open>ranges_wf\<close> is the shape the
  class maintains: increasing, disjoint, non-empty ranges.
\<close>

section \<open>Entries, bisect and the text form\<close>

type_synonym entry = "int \<times> int"
type_synonym ranges = "entry list"

text \<open>The library's \<open>bisect.bisect\<close> (bisect right), its loop over \<open>lo\<close> and \<open>hi\<close>.\<close>

function bisect_loop :: "'a::linorder list \<Rightarrow> 'a \<Rightarrow> nat \<Rightarrow> nat \<Rightarrow> nat" where
  "bisect_loop es x lo hi =
     (if lo < hi then
        (let mid = (lo + hi) div 2 in
         if x < es ! mid then bisect_loop es x lo mid else bisect_loop es x (Suc mid) hi)
      else lo)"
  by pat_completeness auto
termination
  by (relation "measure (\<lambda>(es, x, lo, hi). hi - lo)") auto

declare bisect_loop.simps [simp del]

definition bisect :: "'a::linorder list \<Rightarrow> 'a \<Rightarrow> nat" where
  "bisect es x = bisect_loop es x 0 (length es)"

definition insort_at :: "'a::linorder \<Rightarrow> 'a list \<Rightarrow> 'a list" where
  "insort_at x es = (let i = bisect es x in take i es @ x # drop i es)"

text \<open>
  \<open>RE.findall\<close>: an entry is a run of hexadecimal digits, an optional \<open>-\<close> and second run, and a
  comma or the end of the text (\<open>$\<close> also matches before a final newline). A shorter run never
  helps, since the next character is then a digit.
\<close>

fun ent_end :: "string \<Rightarrow> string option" where
  "ent_end [] = Some []"
| "ent_end (c # cs) =
     (if c = CHR '','' then Some cs else if c = CHR 0x0A \<and> cs = [] then Some (c # cs) else None)"

definition match_ent :: "string \<Rightarrow> ((string \<times> string option) \<times> string) option" where
  "match_ent s =
     (let h = takeWhile is_hex s; r = dropWhile is_hex s in
      if h = [] then None
      else if r \<noteq> [] \<and> hd r = CHR ''-'' then
        (let h2 = takeWhile is_hex (tl r) in
         if h2 = [] then None
         else map_option (\<lambda>rest. ((h, Some h2), rest)) (ent_end (dropWhile is_hex (tl r))))
      else map_option (\<lambda>rest. ((h, None), rest)) (ent_end r))"

lemma ent_end_length: "ent_end s = Some t \<Longrightarrow> length t \<le> length s"
  by (cases s) (auto split: if_splits)

lemma match_ent_shorter: "match_ent s = Some (m, rest) \<Longrightarrow> length rest < length s"
proof -
  have split: "length (takeWhile is_hex t) + length (dropWhile is_hex t) = length t" for t
    by (metis length_append takeWhile_dropWhile_id)
  assume "match_ent s = Some (m, rest)"
  then show ?thesis
    using split [of s] split [of "tl (dropWhile is_hex s)"]
    by (auto simp: match_ent_def Let_def neq_Nil_conv split: if_splits dest!: ent_end_length)
qed

function findall_ents :: "string \<Rightarrow> (string \<times> string option) list" where
  "findall_ents s =
     (case match_ent s of
        Some (m, rest) \<Rightarrow> m # findall_ents rest
      | None \<Rightarrow> (case s of [] \<Rightarrow> [] | _ # cs \<Rightarrow> findall_ents cs))"
  by pat_completeness auto
termination
  by (relation "measure length") (auto dest: match_ent_shorter)

declare findall_ents.simps [simp del]

definition hex_val :: "string \<Rightarrow> int" where
  "hex_val s = int (of_digits 16 s)"

definition ent_of :: "string \<times> string option \<Rightarrow> entry" where
  "ent_of m = (let a = hex_val (fst m) in
     case snd m of Some b \<Rightarrow> (a, hex_val b) | None \<Rightarrow> (a, a))"

section \<open>The operations of the class\<close>

definition prune_step :: "ranges \<Rightarrow> entry \<Rightarrow> ranges" where
  "prune_step tmp ent =
     (if tmp = [] \<or> snd (last tmp) < fst ent then tmp @ [ent]
      else butlast tmp @ [(fst (last tmp), snd ent)])"

definition prune :: "ranges \<Rightarrow> ranges" where
  "prune es = foldl prune_step [] (sort es)"

definition hr_init :: "string \<Rightarrow> ranges" where
  "hr_init s = (if s = [] then []
     else prune (foldl (\<lambda>es m. insort_at (ent_of m) es) [] (findall_ents s)))"

definition hr_union :: "ranges list \<Rightarrow> ranges" where
  "hr_union rs = prune (concat rs)"

definition ent_str :: "entry \<Rightarrow> string" where
  "ent_str e = (if fst e = snd e then hex_upper (fst e)
     else hex_upper (fst e) @ ''-'' @ hex_upper (snd e))"

definition hr_str :: "ranges \<Rightarrow> string" where
  "hr_str es = join '','' (map ent_str es)"

definition hr_ins :: "entry \<Rightarrow> ranges \<Rightarrow> ranges" where
  "hr_ins ent es =
     (if es = [] then [ent]
      else
        let idx = bisect es ent;
            l = (if 0 < idx then Some (es ! (idx - 1)) else None);
            r = (if idx < length es then Some (es ! idx) else None);
            meets_r = (case r of Some e \<Rightarrow> fst e \<le> snd ent | None \<Rightarrow> False)
        in (if (case l of Some e \<Rightarrow> snd e \<ge> fst ent | None \<Rightarrow> False)
            then (if meets_r
                  then take (idx - 1) es @ [(fst (the l), snd (the r))] @ drop (Suc idx) es
                  else es[idx - 1 := (fst (the l), snd ent)])
            else if meets_r then es[idx := (fst ent, snd (the r))]
            else take idx es @ ent # drop idx es))"

fun inv_loop :: "ranges \<Rightarrow> int \<Rightarrow> int \<Rightarrow> ranges \<Rightarrow> ranges" where
  "inv_loop new l mx [] = (if l \<le> mx then hr_ins (l, mx) new else new)"
| "inv_loop new l mx (e # es) =
     inv_loop (if l \<le> fst e - 1 then hr_ins (l, fst e - 1) new else new) (snd e + 1) mx es"

definition hr_inv :: "int \<Rightarrow> int \<Rightarrow> ranges \<Rightarrow> ranges" where
  "hr_inv mn mx es = inv_loop [] mn mx es"

definition hr_first :: "ranges \<Rightarrow> entry option" where
  "hr_first es = (case es of [] \<Rightarrow> None | e # _ \<Rightarrow> Some e)"

definition hr_pop :: "ranges \<Rightarrow> ranges res" where
  "hr_pop es = (case es of [] \<Rightarrow> Inl IndexError | _ # es' \<Rightarrow> Inr es')"

definition hr_iter :: "ranges \<Rightarrow> int list" where
  "hr_iter es = concat (map (\<lambda>e. [fst e..snd e]) es)"

section \<open>Meaning and well-formedness\<close>

definition ranges_set :: "ranges \<Rightarrow> int set" where
  "ranges_set es = (\<Union>e \<in> set es. {fst e..snd e})"

abbreviation before :: "entry \<Rightarrow> entry \<Rightarrow> bool" where
  "before p q \<equiv> snd p < fst q"

definition ranges_wf :: "ranges \<Rightarrow> bool" where
  "ranges_wf es \<longleftrightarrow> sorted_wrt before es \<and> (\<forall>e \<in> set es. fst e \<le> snd e)"

text \<open>The number of addresses of a list of ranges.\<close>

definition ranges_size :: "ranges \<Rightarrow> int" where
  "ranges_size es = (\<Sum>e \<leftarrow> es. snd e - fst e + 1)"

lemma ranges_set_simps [simp]:
  "ranges_set [] = {}" "ranges_set (e # es) = {fst e..snd e} \<union> ranges_set es"
  "ranges_set (es @ fs) = ranges_set es \<union> ranges_set fs"
  by (auto simp: ranges_set_def)

lemma ranges_set_mset: "mset es = mset fs \<Longrightarrow> ranges_set es = ranges_set fs"
  by (metis ranges_set_def mset_eq_setD)

lemma ranges_wf_Nil [simp]: "ranges_wf []"
  by (simp add: ranges_wf_def)

lemma ranges_wf_Cons [simp]:
  "ranges_wf (e # es) \<longleftrightarrow> fst e \<le> snd e \<and> (\<forall>f \<in> set es. before e f) \<and> ranges_wf es"
  by (auto simp: ranges_wf_def)

lemma ranges_wf_append:
  "ranges_wf (es @ fs) \<longleftrightarrow> ranges_wf es \<and> ranges_wf fs \<and> (\<forall>e \<in> set es. \<forall>f \<in> set fs. before e f)"
  by (auto simp: ranges_wf_def sorted_wrt_append)

lemma finite_ranges_set [simp]: "finite (ranges_set es)"
  by (simp add: ranges_set_def)

lemma in_ranges_set: "x \<in> ranges_set es \<longleftrightarrow> (\<exists>e \<in> set es. fst e \<le> x \<and> x \<le> snd e)"
  by (auto simp: ranges_set_def)

lemma ranges_wf_sorted: "ranges_wf es \<Longrightarrow> sorted es"
  by (induction es) (force simp: less_eq_prod_def)+

lemma set_hr_iter: "set (hr_iter es) = ranges_set es"
  by (auto simp: hr_iter_def ranges_set_def)

lemma ranges_set_after: "ranges_wf es \<Longrightarrow> \<forall>f \<in> set es. b < fst f \<Longrightarrow> x \<in> ranges_set es \<Longrightarrow> b < x"
  by (force simp: in_ranges_set)

lemma hr_iter_sorted: "ranges_wf es \<Longrightarrow> sorted_wrt (<) (hr_iter es)"
proof (induction es)
  case (Cons e es)
  then have "\<forall>x \<in> set (hr_iter es). snd e < x"
    using ranges_set_after [of es "snd e"] by (auto simp: set_hr_iter)
  moreover have "hr_iter (e # es) = [fst e..snd e] @ hr_iter es" by (simp add: hr_iter_def)
  ultimately show ?case using Cons by (auto simp: sorted_wrt_append)
qed (simp add: hr_iter_def)

lemma ranges_size_card: "ranges_wf es \<Longrightarrow> ranges_size es = int (card (ranges_set es))"
proof (induction es)
  case (Cons e es)
  have "\<forall>x \<in> ranges_set es. snd e < x"
    using Cons.prems ranges_set_after [of es "snd e"] by simp
  then have "{fst e..snd e} \<inter> ranges_set es = {}" by force
  then have "card ({fst e..snd e} \<union> ranges_set es) = card {fst e..snd e} + card (ranges_set es)"
    by (intro card_Un_disjoint) auto
  with Cons show ?case by (simp add: ranges_size_def)
qed (simp add: ranges_size_def)

section \<open>Bisect finds the insertion point\<close>

lemma bisect_loop_range: "lo \<le> hi \<Longrightarrow> lo \<le> bisect_loop es x lo hi \<and> bisect_loop es x lo hi \<le> hi"
proof (induction es x lo hi rule: bisect_loop.induct)
  case (1 es x lo hi)
  show ?case
  proof (cases "lo < hi")
    case True
    let ?m = "(lo + hi) div 2"
    have m: "lo \<le> ?m" "?m < hi" using True by auto
    have "bisect_loop es x lo hi =
        (if x < es ! ?m then bisect_loop es x lo ?m else bisect_loop es x (Suc ?m) hi)"
      using True by (simp add: bisect_loop.simps [of es x lo hi] Let_def)
    with 1(1,2) [OF True refl] m show ?thesis by (cases "x < es ! ?m") auto
  qed (use 1 in \<open>simp add: bisect_loop.simps\<close>)
qed

lemma bisect_loop_point:
  "sorted es \<Longrightarrow> hi \<le> length es \<Longrightarrow>
   (\<forall>i < lo. es ! i \<le> x) \<Longrightarrow> (\<forall>i. hi \<le> i \<longrightarrow> i < length es \<longrightarrow> x < es ! i) \<Longrightarrow> lo \<le> hi \<Longrightarrow>
   (\<forall>i < bisect_loop es x lo hi. es ! i \<le> x) \<and>
   (\<forall>i. bisect_loop es x lo hi \<le> i \<longrightarrow> i < length es \<longrightarrow> x < es ! i)"
proof (induction es x lo hi rule: bisect_loop.induct)
  case (1 es x lo hi)
  show ?case
  proof (cases "lo < hi")
    case True
    let ?m = "(lo + hi) div 2"
    have m: "lo \<le> ?m" "?m < hi" using True by auto
    have eq: "bisect_loop es x lo hi =
        (if x < es ! ?m then bisect_loop es x lo ?m else bisect_loop es x (Suc ?m) hi)"
      using True by (simp add: bisect_loop.simps [of es x lo hi] Let_def)
    show ?thesis
    proof (cases "x < es ! ?m")
      case less: True
      have "?m \<le> length es" using m 1(4) by linarith
      moreover have "\<forall>i. ?m \<le> i \<longrightarrow> i < length es \<longrightarrow> x < es ! i"
        using 1(3) less by (meson less_le_trans sorted_nth_mono)
      ultimately have "(\<forall>i < bisect_loop es x lo ?m. es ! i \<le> x) \<and>
          (\<forall>i. bisect_loop es x lo ?m \<le> i \<longrightarrow> i < length es \<longrightarrow> x < es ! i)"
        using 1(1) [OF True refl less 1(3) _ 1(5)] m(1) by blast
      with less show ?thesis unfolding eq by presburger
    next
      case ge: False
      have "\<forall>i < Suc ?m. es ! i \<le> x"
      proof (intro allI impI)
        fix i assume "i < Suc ?m"
        then have "es ! i \<le> es ! ?m" using 1(3,4) m by (intro sorted_nth_mono) auto
        with ge show "es ! i \<le> x" by simp
      qed
      moreover have "Suc ?m \<le> hi" using m by simp
      ultimately have "(\<forall>i < bisect_loop es x (Suc ?m) hi. es ! i \<le> x) \<and>
          (\<forall>i. bisect_loop es x (Suc ?m) hi \<le> i \<longrightarrow> i < length es \<longrightarrow> x < es ! i)"
        using 1(2) [OF True refl ge 1(3,4) _ 1(6)] by blast
      with ge show ?thesis unfolding eq by presburger
    qed
  next
    case False
    then have eq: "bisect_loop es x lo hi = lo" by (simp add: bisect_loop.simps)
    from False 1(7) have "lo = hi" by simp
    with 1(5,6) show ?thesis unfolding eq by blast
  qed
qed

lemma bisect_le: "bisect es x \<le> length es"
  using bisect_loop_range [of 0 "length es"] by (simp add: bisect_def)

lemma bisect_point:
  assumes "sorted es"
  shows "\<forall>e \<in> set (take (bisect es x) es). e \<le> x" "\<forall>e \<in> set (drop (bisect es x) es). x < e"
proof -
  note p = bisect_loop_point [OF assms order.refl, of 0 x]
  show "\<forall>e \<in> set (take (bisect es x) es). e \<le> x"
    using p by (auto simp: bisect_def in_set_conv_nth)
  show "\<forall>e \<in> set (drop (bisect es x) es). x < e"
    using p by (auto simp: bisect_def in_set_conv_nth)
qed

lemma sorted_insort_at: "sorted es \<Longrightarrow> sorted (insort_at x es)"
  using bisect_point [of es x]
  by (auto simp: insort_at_def Let_def sorted_append sorted_wrt_take sorted_wrt_drop
      intro: order.strict_implies_order) (meson order.strict_implies_order order_trans)

lemma mset_insort_at: "mset (insort_at x es) = add_mset x (mset es)"
proof -
  have "mset (take (bisect es x) es) + mset (drop (bisect es x) es) = mset es"
    by (metis append_take_drop_id mset_append)
  then show ?thesis by (simp add: insort_at_def Let_def)
qed


section \<open>Pruning\<close>

lemma prune_step_wf:
  assumes "ranges_wf tmp" "fst e \<le> snd e" "\<forall>f \<in> set tmp. fst f \<le> fst e"
  shows "ranges_wf (prune_step tmp e) \<and> (\<forall>f \<in> set (prune_step tmp e). fst f \<le> fst e)"
proof (cases tmp rule: rev_cases)
  case (snoc t l)
  with assms show ?thesis
    by (cases "snd l < fst e") (force simp: prune_step_def ranges_wf_append)+
qed (use assms in \<open>simp add: prune_step_def\<close>)

lemma prune_step_set:
  assumes "fst e \<le> snd e" "\<forall>f \<in> set tmp. fst f \<le> fst e \<and> snd f \<le> snd e"
  shows "ranges_set (prune_step tmp e) = ranges_set tmp \<union> {fst e..snd e}"
proof (cases tmp rule: rev_cases)
  case (snoc t l)
  have "{fst l..snd e} = {fst l..snd l} \<union> {fst e..snd e}" if "\<not> snd l < fst e"
    using assms snoc that by auto
  with snoc show ?thesis by (auto simp: prune_step_def)
qed (simp add: prune_step_def)

lemma prune_step_ends:
  "snd f \<le> m \<Longrightarrow> \<forall>e \<in> set tmp. snd e \<le> m \<Longrightarrow> e \<in> set (prune_step tmp f) \<Longrightarrow> snd e \<le> m"
  by (auto simp: prune_step_def split: if_splits dest: in_set_butlastD)

lemma foldl_prune_wf:
  "ranges_wf tmp \<Longrightarrow> sorted (map fst es) \<Longrightarrow> \<forall>e \<in> set es. fst e \<le> snd e \<Longrightarrow>
    \<forall>f \<in> set tmp. \<forall>e \<in> set es. fst f \<le> fst e \<Longrightarrow> ranges_wf (foldl prune_step tmp es)"
proof (induction es arbitrary: tmp)
  case (Cons e es)
  from Cons.prems have "ranges_wf (prune_step tmp e)" "\<forall>f \<in> set (prune_step tmp e). fst f \<le> fst e"
    using prune_step_wf [of tmp e] by simp_all
  moreover have "\<forall>x \<in> set es. fst e \<le> fst x" using Cons.prems(2) by simp
  ultimately have "\<forall>f \<in> set (prune_step tmp e). \<forall>x \<in> set es. fst f \<le> fst x"
    by (blast intro: order_trans)
  with \<open>ranges_wf (prune_step tmp e)\<close> Cons.prems(2,3) show ?case by (simp add: Cons.IH)
qed simp

lemma foldl_prune_set:
  "sorted (map fst es) \<Longrightarrow> sorted (map snd es) \<Longrightarrow> \<forall>e \<in> set es. fst e \<le> snd e \<Longrightarrow> ranges_wf tmp \<Longrightarrow>
    \<forall>f \<in> set tmp. \<forall>e \<in> set es. fst f \<le> fst e \<and> snd f \<le> snd e \<Longrightarrow>
    ranges_set (foldl prune_step tmp es) = ranges_set tmp \<union> ranges_set es"
proof (induction es arbitrary: tmp)
  case (Cons e es)
  let ?t = "prune_step tmp e"
  have t: "ranges_wf ?t" "\<forall>f \<in> set ?t. fst f \<le> fst e"
    using prune_step_wf [of tmp e] Cons.prems by simp_all
  have "\<forall>f \<in> set ?t. snd f \<le> snd e"
    using prune_step_ends [of e "snd e" tmp] Cons.prems by simp
  with t Cons.prems have "\<forall>f \<in> set ?t. \<forall>x \<in> set es. fst f \<le> fst x \<and> snd f \<le> snd x"
    by (auto intro: order_trans)
  then have "ranges_set (foldl prune_step ?t es) = ranges_set ?t \<union> ranges_set es"
    using t Cons by simp
  moreover have "ranges_set ?t = ranges_set tmp \<union> {fst e..snd e}"
    using prune_step_set [of e tmp] Cons.prems by simp
  ultimately show ?case by auto
qed simp

lemma sorted_map_fst: "sorted es \<Longrightarrow> sorted (map fst (es :: ranges))"
  by (induction es) (force simp: less_eq_prod_def)+

lemma prune_wf: "\<forall>e \<in> set es. fst e \<le> snd e \<Longrightarrow> ranges_wf (prune es)"
  unfolding prune_def by (rule foldl_prune_wf) (simp_all add: sorted_map_fst)

text \<open>Pruning keeps the denoted set when no entry lies strictly inside another.\<close>

lemma prune_set:
  assumes "\<forall>e \<in> set es. fst e \<le> snd e" and "sorted (map snd (sort es))"
  shows "ranges_set (prune es) = ranges_set es"
proof -
  have "ranges_set (prune es) = ranges_set [] \<union> ranges_set (sort es)"
    unfolding prune_def by (rule foldl_prune_set) (use assms in \<open>simp_all add: sorted_map_fst\<close>)
  then show ?thesis by (simp add: ranges_set_def)
qed

lemma foldl_prune_id: "ranges_wf (tmp @ es) \<Longrightarrow> foldl prune_step tmp es = tmp @ es"
proof (induction es arbitrary: tmp)
  case (Cons e es)
  then have "prune_step tmp e = tmp @ [e]"
    by (cases tmp rule: rev_cases) (auto simp: prune_step_def ranges_wf_append)
  with Cons.IH [of "tmp @ [e]"] Cons.prems show ?case by simp
qed simp

lemma prune_id: "ranges_wf (sort es) \<Longrightarrow> prune es = sort es"
  using foldl_prune_id [of "[]"] by (simp add: prune_def)

lemma sorted_disjoint_wf:
  "sorted es \<Longrightarrow> distinct es \<Longrightarrow> \<forall>e \<in> set es. fst e \<le> snd e \<Longrightarrow>
   \<forall>p \<in> set es. \<forall>q \<in> set es. p \<noteq> q \<longrightarrow> before p q \<or> before q p \<Longrightarrow> ranges_wf es"
proof (induction es)
  case (Cons e es)
  have "before e f" if "f \<in> set es" for f
  proof -
    have "fst e \<le> fst f" using Cons.prems(1) that by (force simp: less_eq_prod_def)
    moreover have "e \<noteq> f" "fst f \<le> snd f" using Cons.prems(2,3) that by auto
    ultimately show ?thesis using Cons.prems(4) that by force
  qed
  with Cons show ?case by simp
qed simp

text \<open>The union of well-formed range sets that do not meet.\<close>

definition ranges_apart :: "ranges \<Rightarrow> ranges \<Rightarrow> bool" where
  "ranges_apart r s \<longleftrightarrow> (\<forall>p \<in> set r. \<forall>q \<in> set s. before p q \<or> before q p)"

lemma ranges_apart_disjoint:
  assumes "ranges_wf r" "ranges_wf s"
  shows "ranges_apart r s \<longleftrightarrow> ranges_set r \<inter> ranges_set s = {}"
proof
  assume d: "ranges_set r \<inter> ranges_set s = {}"
  show "ranges_apart r s"
    unfolding ranges_apart_def
  proof (intro ballI, rule ccontr)
    fix p q assume pq: "p \<in> set r" "q \<in> set s" and "\<not> (before p q \<or> before q p)"
    then have m: "fst q \<le> snd p" "fst p \<le> snd q" by simp_all
    have "fst p \<le> snd p" "fst q \<le> snd q" using pq assms by (simp_all add: ranges_wf_def)
    with m have "max (fst p) (fst q) \<in> {fst p..snd p}" "max (fst p) (fst q) \<in> {fst q..snd q}"
      by auto
    with pq have "max (fst p) (fst q) \<in> ranges_set r \<inter> ranges_set s"
      unfolding ranges_set_def by blast
    with d show False by simp
  qed
qed (force simp: ranges_apart_def ranges_set_def)

lemma wf_distinct_apart:
  "ranges_wf es \<Longrightarrow> distinct es \<and> (\<forall>p \<in> set es. \<forall>q \<in> set es. p \<noteq> q \<longrightarrow> before p q \<or> before q p)"
  by (induction es) fastforce+

lemma concat_apart:
  "\<forall>r \<in> set rs. ranges_wf r \<Longrightarrow> sorted_wrt ranges_apart rs \<Longrightarrow>
   distinct (concat rs) \<and>
   (\<forall>p \<in> set (concat rs). \<forall>q \<in> set (concat rs). p \<noteq> q \<longrightarrow> before p q \<or> before q p)"
proof (induction rs)
  case (Cons r rs)
  have r: "distinct r" "\<forall>p \<in> set r. \<forall>q \<in> set r. p \<noteq> q \<longrightarrow> before p q \<or> before q p"
    "\<forall>p \<in> set r. fst p \<le> snd p"
    using Cons.prems wf_distinct_apart [of r] by (auto simp: ranges_wf_def)
  have a: "\<forall>p \<in> set r. \<forall>q \<in> set (concat rs). before p q \<or> before q p"
    using Cons.prems by (force simp: ranges_apart_def)
  have IH: "distinct (concat rs)"
    "\<forall>p \<in> set (concat rs). \<forall>q \<in> set (concat rs). p \<noteq> q \<longrightarrow> before p q \<or> before q p"
    using Cons by simp_all
  have "set r \<inter> set (concat rs) = {}" using a r(3) by force
  with r(1) IH(1) have "distinct (r @ concat rs)" by simp
  moreover have "\<forall>p \<in> set (r @ concat rs). \<forall>q \<in> set (r @ concat rs).
      p \<noteq> q \<longrightarrow> before p q \<or> before q p"
    using r(2) a IH(2) by (metis UnE set_append)
  ultimately show ?case by simp
qed simp

lemma hr_union_apart:
  assumes "\<forall>r \<in> set rs. ranges_wf r" "sorted_wrt ranges_apart rs"
  shows "hr_union rs = sort (concat rs)" "ranges_wf (hr_union rs)"
    "ranges_set (hr_union rs) = (\<Union>r \<in> set rs. ranges_set r)"
proof -
  have "ranges_wf (sort (concat rs))"
    by (rule sorted_disjoint_wf) (use concat_apart [OF assms] assms in \<open>auto simp: ranges_wf_def\<close>)
  then show "hr_union rs = sort (concat rs)" "ranges_wf (hr_union rs)"
    by (simp_all add: hr_union_def prune_id)
  then show "ranges_set (hr_union rs) = (\<Union>r \<in> set rs. ranges_set r)"
    by (auto simp: ranges_set_def)
qed

section \<open>Insertion\<close>

lemma bisect_neighbours:
  assumes "sorted es" and "i = bisect es x"
  shows "0 < i \<Longrightarrow> es ! (i - 1) \<in> set es \<and> es ! (i - 1) \<le> x"
    "i < length es \<Longrightarrow> es ! i \<in> set es \<and> x < es ! i"
proof -
  have i: "i \<le> length es" using bisect_le assms by simp
  show "es ! (i - 1) \<in> set es \<and> es ! (i - 1) \<le> x" if "0 < i"
  proof -
    have "es ! (i - 1) \<in> set (take i es)" using i that by (auto simp: in_set_conv_nth intro!: exI [of _ "i - 1"])
    then show ?thesis using bisect_point(1) [OF assms(1)] assms(2) by (auto dest: in_set_takeD)
  qed
  show "es ! i \<in> set es \<and> x < es ! i" if "i < length es"
  proof -
    have "es ! i \<in> set (drop i es)" using that by (auto simp: in_set_conv_nth intro!: exI [of _ 0])
    then show ?thesis using bisect_point(2) [OF assms(1)] assms(2) by (auto dest: in_set_dropD)
  qed
qed

lemma hr_ins_apart:
  assumes wf: "ranges_wf es" and e: "fst e \<le> snd e"
    and apart: "\<forall>f \<in> set es. before f e \<or> before e f"
  shows "hr_ins e es = insort_at e es"
proof (cases "es = []")
  case False
  let ?i = "bisect es e"
  note n = bisect_neighbours [OF ranges_wf_sorted [OF wf] refl, of e]
  have l: "snd (es ! (?i - 1)) < fst e" if "0 < ?i"
    using n(1) [OF that] apart e by (fastforce simp: less_eq_prod_def)
  have r: "snd e < fst (es ! ?i)" if "?i < length es"
  proof -
    have "es ! ?i \<in> set es" "fst e \<le> fst (es ! ?i)"
      using n(2) [OF that] by (auto simp: less_prod_def)
    moreover have "fst (es ! ?i) \<le> snd (es ! ?i)" using wf calculation(1) by (simp add: ranges_wf_def)
    ultimately show ?thesis using apart by force
  qed
  from False l r show ?thesis
    by (auto simp: hr_ins_def insort_at_def Let_def not_le)
qed (simp add: hr_ins_def insort_at_def bisect_def)

lemma set_insort_at: "set (insort_at e es) = insert e (set es)"
proof -
  have "set_mset (mset (insort_at e es)) = insert e (set es)"
    unfolding mset_insort_at by simp
  then show ?thesis by simp
qed

lemma hr_ins_apart_wf:
  assumes "ranges_wf es" "fst e \<le> snd e" "\<forall>f \<in> set es. before f e \<or> before e f"
  shows "ranges_wf (hr_ins e es)" "ranges_set (hr_ins e es) = ranges_set es \<union> {fst e..snd e}"
    "ranges_size (hr_ins e es) = ranges_size es + (snd e - fst e + 1)"
proof -
  note eq = hr_ins_apart [OF assms]
  have e: "e \<notin> set es" using assms(2,3) by force
  have m: "mset (insort_at e es) = mset (e # es)" by (simp add: mset_insort_at)
  have "distinct (e # es)" using e wf_distinct_apart [OF assms(1)] by simp
  then have d: "distinct (insort_at e es)" using mset_eq_imp_distinct_iff [OF m] by simp
  have a: "\<forall>p \<in> set (insort_at e es). \<forall>q \<in> set (insort_at e es). p \<noteq> q \<longrightarrow> before p q \<or> before q p"
    using wf_distinct_apart [OF assms(1)] assms(3) unfolding set_insort_at by blast
  show "ranges_wf (hr_ins e es)"
    unfolding eq
    by (rule sorted_disjoint_wf [OF sorted_insort_at [OF ranges_wf_sorted [OF assms(1)]] d _ a])
      (use assms in \<open>simp add: set_insort_at ranges_wf_def\<close>)
  show "ranges_set (hr_ins e es) = ranges_set es \<union> {fst e..snd e}"
    unfolding eq ranges_set_def set_insort_at by (simp only: UN_insert Un_commute)
  have "mset (map (\<lambda>e. snd e - fst e + 1) (hr_ins e es)) =
      mset (map (\<lambda>e. snd e - fst e + 1) (e # es))"
    unfolding eq mset_map m ..
  then have "sum_list (map (\<lambda>e. snd e - fst e + 1) (hr_ins e es)) =
      sum_list (map (\<lambda>e. snd e - fst e + 1) (e # es))"
    by (metis sum_mset_sum_list)
  then show "ranges_size (hr_ins e es) = ranges_size es + (snd e - fst e + 1)"
    by (simp add: ranges_size_def)
qed

text \<open>Inserting behind the last range appends.\<close>

lemma hr_ins_last:
  assumes "ranges_wf es" "fst e \<le> snd e" "\<forall>f \<in> set es. before f e"
  shows "hr_ins e es = es @ [e]"
proof -
  have "drop (bisect es e) es = []"
  proof (rule ccontr)
    assume "drop (bisect es e) es \<noteq> []"
    then obtain f where f: "f \<in> set (drop (bisect es e) es)" by (meson last_in_set)
    then have "e < f" using bisect_point(2) [OF ranges_wf_sorted [OF assms(1)]] by blast
    moreover have "before f e" "fst f \<le> snd f"
      using f assms by (auto simp: ranges_wf_def dest: in_set_dropD)
    ultimately show False by (auto simp: less_prod_def)
  qed
  then have "bisect es e = length es" using bisect_le [of es e] by simp
  then show ?thesis using hr_ins_apart [OF assms(1,2)] assms(3) by (simp add: insort_at_def Let_def)
qed

section \<open>Complement\<close>

lemma inv_loop_set:
  "ranges_wf new \<Longrightarrow> ranges_wf es \<Longrightarrow> \<forall>f \<in> set new. snd f < l \<Longrightarrow>
   \<forall>e \<in> set es. l \<le> fst e \<and> snd e \<le> mx \<Longrightarrow>
   ranges_wf (inv_loop new l mx es) \<and>
   ranges_set (inv_loop new l mx es) = ranges_set new \<union> ({l..mx} - ranges_set es)"
proof (induction es arbitrary: new l)
  case Nil
  then show ?case
    using hr_ins_apart_wf [of new "(l, mx)"] by auto
next
  case (Cons e es)
  let ?new = "if l \<le> fst e - 1 then hr_ins (l, fst e - 1) new else new"
  have new: "ranges_wf ?new" "ranges_set ?new = ranges_set new \<union> {l..fst e - 1}"
    using Cons.prems hr_ins_apart_wf [of new "(l, fst e - 1)"] by auto
  have "\<forall>f \<in> set ?new. snd f < snd e + 1"
  proof -
    have "snd f < l \<or> snd f = fst e - 1" if "f \<in> set ?new" for f
      using that Cons.prems hr_ins_last [of new "(l, fst e - 1)"] by (auto split: if_splits)
    then show ?thesis using Cons.prems(2,4) by fastforce
  qed
  moreover have "\<forall>f \<in> set es. snd e + 1 \<le> fst f \<and> snd f \<le> mx"
    using Cons.prems by fastforce
  ultimately have IH: "ranges_wf (inv_loop ?new (snd e + 1) mx es)"
    "ranges_set (inv_loop ?new (snd e + 1) mx es) =
      ranges_set ?new \<union> ({snd e + 1..mx} - ranges_set es)"
    using Cons.IH [OF new(1)] Cons.prems(2) by simp_all
  have le: "l \<le> fst e" "fst e \<le> snd e" "snd e \<le> mx" using Cons.prems by auto
  have after: "x \<in> ranges_set es \<Longrightarrow> snd e < x" for x
    using Cons.prems(2) ranges_set_after [of es "snd e" x] by simp
  have "{l..fst e - 1} \<union> ({snd e + 1..mx} - ranges_set es) =
      {l..mx} - ({fst e..snd e} \<union> ranges_set es)"
    using le after by fastforce
  with IH new(2) show ?case by auto
qed

lemma hr_inv_set:
  assumes "ranges_wf es" "ranges_set es \<subseteq> {mn..mx}"
  shows "ranges_wf (hr_inv mn mx es)" "ranges_set (hr_inv mn mx es) = {mn..mx} - ranges_set es"
proof -
  have "fst e \<in> ranges_set es" "snd e \<in> ranges_set es" if "e \<in> set es" for e
    using that assms(1) by (auto simp: ranges_wf_def in_ranges_set)
  then have "\<forall>e \<in> set es. mn \<le> fst e \<and> snd e \<le> mx" using assms(2) by fastforce
  then show "ranges_wf (hr_inv mn mx es)" "ranges_set (hr_inv mn mx es) = {mn..mx} - ranges_set es"
    using inv_loop_set [of "[]" es mn mx] assms(1) by (simp_all add: hr_inv_def)
qed

section \<open>The text form\<close>

lemma hex_upper_nonneg: "0 \<le> i \<Longrightarrow> hex_upper i = digits_of 16 (nat i)"
  by (simp add: hex_upper_def)

lemma hex_upper_hex: "0 \<le> i \<Longrightarrow> c \<in> set (hex_upper i) \<Longrightarrow> is_hex c"
  using digits_of_hex [of 16 c "nat i"] by (simp add: hex_upper_nonneg)

lemma hex_upper_ne: "0 \<le> i \<Longrightarrow> hex_upper i \<noteq> []"
  by (simp add: hex_upper_nonneg str_simps)

lemma hex_val_upper: "0 \<le> i \<Longrightarrow> hex_val (hex_upper i) = i"
  by (simp add: hex_val_def hex_upper_nonneg str_simps)

lemma span_hex:
  assumes "0 \<le> i" "t = [] \<or> \<not> is_hex (hd t)"
  shows "takeWhile is_hex (hex_upper i @ t) = hex_upper i" "dropWhile is_hex (hex_upper i @ t) = t"
proof -
  have "\<And>c. c \<in> set (hex_upper i) \<Longrightarrow> is_hex c" using assms(1) by (rule hex_upper_hex)
  then show "takeWhile is_hex (hex_upper i @ t) = hex_upper i"
    "dropWhile is_hex (hex_upper i @ t) = t"
    using assms(2) by (cases t; simp)+
qed

lemma not_hex_sep: "\<not> is_hex CHR ''-''" "\<not> is_hex CHR '',''"
  by (simp_all add: is_hex_def digit_val_def)

text \<open>An entry, at the end of the text or before a comma, is read back.\<close>

lemma match_ent_str:
  assumes nn: "0 \<le> fst e" "0 \<le> snd e" and t: "t = [] \<or> hd t = CHR '',''"
  shows "\<exists>m. match_ent (ent_str e @ t) = Some (m, tl t) \<and> ent_of m = e"
proof -
  have nt: "t = [] \<or> \<not> is_hex (hd t)" using t not_hex_sep by auto
  have end_t: "ent_end t = Some (tl t)" using t by (cases t) auto
  have nd: "t = [] \<or> hd t \<noteq> CHR ''-''" using t by auto
  show ?thesis
  proof (cases "fst e = snd e")
    case True
    then have "match_ent (ent_str e @ t) = Some ((hex_upper (fst e), None), tl t)"
      using nt nd end_t nn by (auto simp: match_ent_def ent_str_def span_hex hex_upper_ne)
    moreover have "ent_of (hex_upper (fst e), None) = e"
      using True nn by (simp add: ent_of_def hex_val_upper prod_eq_iff Let_def)
    ultimately show ?thesis by blast
  next
    case False
    then have "match_ent (ent_str e @ t) =
        Some ((hex_upper (fst e), Some (hex_upper (snd e))), tl t)"
      using nt end_t nn
      by (simp add: match_ent_def ent_str_def span_hex hex_upper_ne not_hex_sep)
    moreover have "ent_of (hex_upper (fst e), Some (hex_upper (snd e))) = e"
      using nn by (simp add: ent_of_def hex_val_upper)
    ultimately show ?thesis by blast
  qed
qed

lemma findall_hr_str:
  "es \<noteq> [] \<Longrightarrow> \<forall>e \<in> set es. 0 \<le> fst e \<and> 0 \<le> snd e \<Longrightarrow>
    map ent_of (findall_ents (hr_str es)) = es"
proof (induction es rule: induct_list012)
  case (2 e)
  then obtain m where m: "match_ent (ent_str e @ []) = Some (m, [])" "ent_of m = e"
    using match_ent_str [of e "[]"] by auto
  have "findall_ents [] = []" by (simp add: findall_ents.simps match_ent_def)
  with m show ?case
    by (simp add: hr_str_def join_def findall_ents.simps [of "ent_str e"])
next
  case (3 e f es)
  let ?t = "hr_str (f # es)"
  obtain m where m: "match_ent (ent_str e @ CHR '','' # ?t) = Some (m, ?t)" "ent_of m = e"
    using 3(4) match_ent_str [of e "CHR '','' # ?t"] by fastforce
  have "hr_str (e # f # es) = ent_str e @ CHR '','' # ?t"
    by (simp add: hr_str_def str_simps)
  with m 3 show ?case by (simp add: findall_ents.simps [of "ent_str e @ CHR '','' # ?t"])
qed simp

lemma foldl_insort_mset:
  "mset (foldl (\<lambda>es m. insort_at (g m) es) acc ms) = mset acc + mset (map g ms)"
  by (induction ms arbitrary: acc) (simp_all add: mset_insort_at)

lemma hr_str_ne: "es \<noteq> [] \<Longrightarrow> \<forall>e \<in> set es. 0 \<le> fst e \<and> 0 \<le> snd e \<Longrightarrow> hr_str es \<noteq> []"
  by (induction es rule: induct_list012)
    (auto simp: hr_str_def str_simps ent_str_def hex_upper_ne)

lemma hr_init_str:
  assumes wf: "ranges_wf es" and nn: "\<forall>e \<in> set es. 0 \<le> fst e"
  shows "hr_init (hr_str es) = es"
proof (cases "es = []")
  case False
  have nn2: "\<forall>e \<in> set es. 0 \<le> fst e \<and> 0 \<le> snd e" using assms by (force simp: ranges_wf_def)
  let ?l = "foldl (\<lambda>es m. insort_at (ent_of m) es) [] (findall_ents (hr_str es))"
  have "mset ?l = mset es"
    unfolding foldl_insort_mset using findall_hr_str [OF False nn2] by simp
  then have "sort ?l = es"
    using ranges_wf_sorted [OF wf] by (metis sorted_sort_id properties_for_sort)
  then have "prune ?l = es" using prune_id wf by metis
  then show ?thesis using hr_str_ne [OF False nn2] by (simp add: hr_init_def)
qed (simp add: hr_init_def hr_str_def join_def)


section \<open>Properties\<close>

text \<open>
  C31: The text form is faithful: printing a well-formed set of non-negative ranges and
  reading the text back gives the same ranges.
\<close>

theorem hex_ranges_roundtrip:
  assumes "ranges_wf es" and "\<forall>e \<in> set es. 0 \<le> fst e"
  shows "hr_init (hr_str es) = es"
  by (rule hr_init_str [OF assms])

theorem hex_ranges_roundtrip_witness: "hr_init (hr_str [(10, 10), (43, 255)]) = [(10, 10), (43, 255)]"
  by (rule hex_ranges_roundtrip) (simp_all)

text \<open>
  C34: The complement of a well-formed set within bounds that contain it is well formed and
  denotes exactly the remaining addresses; iterating it yields them in increasing order.
\<close>

theorem hex_ranges_complement:
  assumes "ranges_wf es" and "ranges_set es \<subseteq> {mn..mx}"
  shows "ranges_wf (hr_inv mn mx es) \<and> set (hr_iter (hr_inv mn mx es)) = {mn..mx} - ranges_set es \<and>
    sorted_wrt (<) (hr_iter (hr_inv mn mx es))"
  using hr_inv_set [OF assms] by (simp add: set_hr_iter hr_iter_sorted)

theorem hex_ranges_complement_witness:
  "ranges_wf (hr_inv 1 9 [(2, 3), (7, 7)]) \<and>
    set (hr_iter (hr_inv 1 9 [(2, 3), (7, 7)])) = {1..9} - ranges_set [(2, 3), (7, 7)] \<and>
    sorted_wrt (<) (hr_iter (hr_inv 1 9 [(2, 3), (7, 7)]))"
  by (rule hex_ranges_complement) auto

text \<open>
  Pruning and inserting lose addresses when a range lies inside another one: the end of
  the inner range replaces the outer end instead of their maximum.
\<close>

lemma nested_ranges_lost:
  assumes "a < c" and "c \<le> d" and "d < b"
  shows "prune [(a, b), (c, d)] = [(a, d)] \<and> hr_ins (c, d) [(a, b)] = [(a, d)]"
  using assms
  by (auto simp: prune_def prune_step_def hr_ins_def bisect_def bisect_loop.simps less_prod_def
      less_eq_prod_def)

lemma nested_ranges_lost_instance:
  "prune [(1, 10), (2, 3)] = [(1, 3)] \<and> hr_ins (2, 3) [(1, 10)] = [(1, 3)]"
  by (rule nested_ranges_lost) simp_all

end
