(* ===== verification/IPAddrDb.thy ===== *)
theory IPAddrDb
  imports HexRanges
begin

text \<open>
  The class \<open>IPAddrDb\<close> of \<open>runtime/singularity.py\<close>: the table of the addresses each cluster
  holds, kept in a JSON file under a lock. The file is modelled by the value its text denotes
  (\<open>None\<close> when it is not JSON); the network is its address and host mask. The entries of the
  table are shared with the union that \<open>alloc_addr\<close> prunes, so the union is modelled with
  tags that say which entry of the table each range is, and \<open>write_back\<close> returns the table
  that pruning leaves.
\<close>

unbundle bit_operations_syntax

section \<open>The database and its file\<close>

record addr_db =
  content :: "pval option"
  locked :: bool
  net_addr :: int
  host_mask :: int

record db_obj =
  top_obj :: "pval dict"
  alloc_tbl :: "ranges dict"

text \<open>\<open>HexRanges(v)\<close> for a value of the JSON table: a false value gives the empty set.\<close>

definition ranges_of_val :: "pval \<Rightarrow> ranges res" where
  "ranges_of_val v = (case v of
      PStr s \<Rightarrow> Inr (hr_init s)
    | PNone \<Rightarrow> Inr []
    | PBool b \<Rightarrow> (if b then Inl (TypeError ''findall'') else Inr [])
    | PInt i \<Rightarrow> (if i = 0 then Inr [] else Inl (TypeError ''findall''))
    | PFloat r \<Rightarrow> (if r = ''0.0'' \<or> r = ''-0.0'' then Inr [] else Inl (TypeError ''findall''))
    | PList vs \<Rightarrow> (if vs = [] then Inr [] else Inl (TypeError ''findall''))
    | PTuple vs \<Rightarrow> (if vs = [] then Inr [] else Inl (TypeError ''findall''))
    | PDict d \<Rightarrow> (if d = [] then Inr [] else Inl (TypeError ''findall'')))"

definition db_read :: "addr_db \<Rightarrow> db_obj option" where
  "db_read s = (case content s of
      Some (PDict d) \<Rightarrow>
        (case dget d ''alloc_tbl'' of
           Some (PDict t) \<Rightarrow>
             (case mapE (\<lambda>(k, v). bindE (ranges_of_val v) (\<lambda>r. Inr (k, r))) t of
                Inr t' \<Rightarrow> Some \<lparr>top_obj = d, alloc_tbl = t'\<rparr>
              | Inl _ \<Rightarrow> None)
         | _ \<Rightarrow> None)
    | _ \<Rightarrow> None)"

definition db_write :: "db_obj \<Rightarrow> addr_db \<Rightarrow> addr_db" where
  "db_write db s = s\<lparr>content := Some (PDict (dset ''alloc_tbl''
      (PDict (map (\<lambda>(k, r). (k, PStr (hr_str r))) (alloc_tbl db))) (top_obj db)))\<rparr>"

definition db_lock :: "addr_db \<Rightarrow> addr_db" where
  "db_lock s = s\<lparr>locked := True\<rparr>"

definition db_unlock :: "addr_db \<Rightarrow> addr_db" where
  "db_unlock s = s\<lparr>locked := False\<rparr>"

definition init_db :: "addr_db \<Rightarrow> addr_db" where
  "init_db s = (let s = db_lock s in
     db_unlock (case db_read s of
         None \<Rightarrow> db_write \<lparr>top_obj = [], alloc_tbl = []\<rparr> s
       | Some _ \<Rightarrow> s))"

section \<open>The shared union\<close>

type_synonym tag = "nat \<times> nat"

definition tagged :: "ranges dict \<Rightarrow> (tag \<times> entry) list" where
  "tagged t = concat (map (\<lambda>(i, (_, r)). map (\<lambda>(j, e). ((i, j), e)) (enumerate 0 r)) (enumerate 0 t))"

definition tprune_step :: "(tag \<times> entry) list \<Rightarrow> tag \<times> entry \<Rightarrow> (tag \<times> entry) list" where
  "tprune_step tmp x =
     (if tmp = [] \<or> snd (snd (last tmp)) < fst (snd x) then tmp @ [x]
      else butlast tmp @ [(fst (last tmp), (fst (snd (last tmp)), snd (snd x)))])"

definition tunion :: "ranges dict \<Rightarrow> (tag \<times> entry) list" where
  "tunion t = foldl tprune_step [] (sort_key snd (tagged t))"

definition write_back :: "ranges dict \<Rightarrow> (tag \<times> entry) list \<Rightarrow> ranges dict" where
  "write_back t u = map (\<lambda>(i, (k, r)).
      (k, map (\<lambda>(j, e). case map_of u (i, j) of Some e' \<Rightarrow> e' | None \<Rightarrow> e) (enumerate 0 r)))
     (enumerate 0 t)"

section \<open>Allocation and release\<close>

text \<open>The loop over the free ranges: what is still wanted and what was taken.\<close>

fun take_loop :: "int \<Rightarrow> ranges \<Rightarrow> ranges \<Rightarrow> int \<times> ranges" where
  "take_loop n addrs [] = (n, addrs)"
| "take_loop n addrs (ent # avail) =
     (if n = 0 then (n, addrs)
      else if n < snd ent - fst ent + 1 then (0, hr_ins (fst ent, fst ent + n - 1) addrs)
      else take_loop (n - (snd ent - fst ent + 1)) (hr_ins ent addrs) avail)"

definition addr_min :: "addr_db \<Rightarrow> int" where
  "addr_min s = net_addr s + 1"

definition addr_max :: "addr_db \<Rightarrow> int" where
  "addr_max s = (net_addr s OR host_mask s) - 1"

definition alloc_addr :: "string \<Rightarrow> int \<Rightarrow> addr_db \<Rightarrow> ranges option res \<times> addr_db" where
  "alloc_addr name n s0 =
     (let s = db_lock s0 in
      case db_read s of
        None \<Rightarrow> (Inl (TypeError ''db is None''), s)
      | Some db \<Rightarrow>
          (case dget (alloc_tbl db) name of
             Some addrs \<Rightarrow> (Inr (Some addrs), db_unlock s)
           | None \<Rightarrow>
               (let u = tunion (alloc_tbl db);
                    t = write_back (alloc_tbl db) u;
                    avail = hr_inv (addr_min s) (addr_max s) (map snd u);
                    (m, addrs) = take_loop n [] avail
                in if m \<noteq> 0 then (Inr None, db_unlock s)
                   else (Inr (Some addrs),
                         db_unlock (db_write (db\<lparr>alloc_tbl := dset name addrs t\<rparr>) s)))))"

definition free_addr :: "string \<Rightarrow> addr_db \<Rightarrow> unit res \<times> addr_db" where
  "free_addr name s0 =
     (let s = db_lock s0 in
      case db_read s of
        None \<Rightarrow> (Inl (TypeError ''db is None''), s)
      | Some db \<Rightarrow>
          (Inr (), db_unlock (db_write (db\<lparr>alloc_tbl := dpop name (alloc_tbl db)\<rparr>) s)))"

section \<open>The invariant of the table\<close>

definition tbl_wf :: "int \<Rightarrow> int \<Rightarrow> ranges dict \<Rightarrow> bool" where
  "tbl_wf mn mx t \<longleftrightarrow> distinct (dkeys t) \<and> (\<forall>r \<in> set (map snd t). ranges_wf r \<and> ranges_set r \<subseteq> {mn..mx})
     \<and> sorted_wrt ranges_apart (map snd t)"

definition db_ok :: "addr_db \<Rightarrow> bool" where
  "db_ok s \<longleftrightarrow> 0 \<le> net_addr s \<and>
     (case db_read s of None \<Rightarrow> False | Some db \<Rightarrow> tbl_wf (addr_min s) (addr_max s) (alloc_tbl db))"

text \<open>The addresses a cluster holds, as a set: the abstract state of the database.\<close>

definition owned :: "addr_db \<Rightarrow> string \<Rightarrow> int set" where
  "owned s k = (case db_read s of None \<Rightarrow> {} | Some db \<Rightarrow>
     (case dget (alloc_tbl db) k of None \<Rightarrow> {} | Some r \<Rightarrow> ranges_set r))"

definition pool :: "addr_db \<Rightarrow> int set" where
  "pool s = {addr_min s..addr_max s}"

definition holders :: "addr_db \<Rightarrow> string set" where
  "holders s = (case db_read s of None \<Rightarrow> {} | Some db \<Rightarrow> set (dkeys (alloc_tbl db)))"

lemmas db_defs = db_lock_def db_unlock_def db_write_def addr_min_def addr_max_def

lemma db_read_lock [simp]:
  "db_read (s\<lparr>locked := b\<rparr>) = db_read s" "content (s\<lparr>locked := b\<rparr>) = content s"
  by (simp_all add: db_read_def)

lemma db_read_write:
  assumes "\<forall>r \<in> set (map snd (alloc_tbl db)). ranges_wf r \<and> (\<forall>e \<in> set r. 0 \<le> fst e)"
  shows "\<exists>d. db_read (db_write db s) = Some \<lparr>top_obj = d, alloc_tbl = alloc_tbl db\<rparr>"
proof -
  let ?t = "map (\<lambda>(k, r). (k, PStr (hr_str r))) (alloc_tbl db)"
  have "mapE (\<lambda>(k, v). bindE (ranges_of_val v) (\<lambda>r. Inr (k, r))) ?t = Inr (alloc_tbl db)"
    unfolding mapE_Inr list_all2_map1
    by (rule list.rel_refl_strong) (use assms in \<open>force simp: ranges_of_val_def hr_init_str\<close>)
  then show ?thesis by (auto simp: db_read_def db_write_def dict_simps)
qed

section \<open>The tagged union agrees with the plain one\<close>

lemma map_snd_tprune:
  "map snd (foldl tprune_step tmp xs) = foldl prune_step (map snd tmp) (map snd xs)"
proof (induction xs arbitrary: tmp)
  case (Cons x xs)
  have "map snd (tprune_step tmp x) = prune_step (map snd tmp) (snd x)"
    by (cases tmp rule: rev_cases) (simp_all add: tprune_step_def prune_step_def)
  with Cons show ?case by simp
qed simp

lemma map_sort_key: "map f (sort_key f xs) = sort (map f xs)"
  by (rule properties_for_sort [symmetric]) simp_all

lemma map_snd_tagged: "map snd (tagged t) = concat (map snd t)"
proof -
  have "map snd (map (\<lambda>(j, e). ((i, j), e)) (enumerate 0 r)) = r" for i :: nat and r :: ranges
    by (simp add: comp_def split_def)
  then have "map snd (tagged t) = concat (map (\<lambda>(i, (_, r)). r) (enumerate 0 t))"
    by (simp add: tagged_def map_concat comp_def split_def)
  also have "map (\<lambda>(i, (_, r)). r) (enumerate 0 t) = map snd (map snd (enumerate 0 t))"
    unfolding map_map by (simp only: comp_def split_def)
  finally show ?thesis by (simp only: map_snd_enumerate)
qed

lemma tunion_union: "map snd (tunion t) = hr_union (map snd t)"
  by (simp add: tunion_def map_snd_tprune map_sort_key map_snd_tagged hr_union_def prune_def)

lemma foldl_tprune_id:
  "ranges_wf (map snd (tmp @ xs)) \<Longrightarrow> foldl tprune_step tmp xs = tmp @ xs"
proof (induction xs arbitrary: tmp)
  case (Cons x xs)
  then have "tprune_step tmp x = tmp @ [x]"
    by (cases tmp rule: rev_cases) (auto simp: tprune_step_def ranges_wf_append)
  with Cons.IH [of "tmp @ [x]"] Cons.prems show ?case by simp
qed simp

lemma tagged_nth: "((i, j), e) \<in> set (tagged t) \<Longrightarrow> i < length t \<and> snd (t ! i) ! j = e"
  by (auto simp: tagged_def in_set_enumerate_eq)

text \<open>When no two ranges of the table meet, pruning the union leaves the table as it is.\<close>

lemma write_back_tunion:
  assumes "\<forall>r \<in> set (map snd t). ranges_wf r" "sorted_wrt ranges_apart (map snd t)"
  shows "write_back t (tunion t) = t"
proof -
  have "map snd (sort_key snd (tagged t)) = sort (concat (map snd t))"
    by (simp add: map_sort_key map_snd_tagged)
  moreover have "ranges_wf (sort (concat (map snd t)))"
    using hr_union_apart(1,2) [OF assms] by simp
  ultimately have u: "tunion t = sort_key snd (tagged t)"
    using foldl_tprune_id [of "[]"] by (simp add: tunion_def)
  have same: "snd (t ! i) ! j = e" if "map_of (tunion t) (i, j) = Some e" for i j e
    using map_of_SomeD [OF that] tagged_nth [of i j e t] by (simp add: u)
  show ?thesis
  proof (rule nth_equalityI)
    fix i assume i: "i < length (write_back t (tunion t))"
    then have "i < length t" by (simp add: write_back_def)
    moreover have "map (\<lambda>(j, e). case map_of (tunion t) (i, j) of Some e' \<Rightarrow> e' | None \<Rightarrow> e)
        (enumerate 0 (snd (t ! i))) = snd (t ! i)"
      by (rule nth_equalityI) (auto simp: nth_enumerate_eq same split: option.splits)
    ultimately show "write_back t (tunion t) ! i = t ! i"
      by (simp add: write_back_def nth_enumerate_eq split_def prod_eq_iff)
  qed (simp add: write_back_def)
qed

section \<open>Taking addresses from the free ranges\<close>

lemma take_loop_spec:
  "take_loop n addrs avail = (m, taken) \<Longrightarrow> 0 \<le> n \<Longrightarrow> ranges_wf addrs \<Longrightarrow> ranges_wf avail \<Longrightarrow>
   \<forall>f \<in> set addrs. \<forall>e \<in> set avail. before f e \<Longrightarrow>
   ranges_wf taken \<and> ranges_set taken \<subseteq> ranges_set addrs \<union> ranges_set avail \<and>
   ranges_size taken = ranges_size addrs + (n - m) \<and>
   m = (if n \<le> ranges_size avail then 0 else n - ranges_size avail)"
proof (induction n addrs avail rule: take_loop.induct)
  case (1 n addrs)
  then show ?case by (simp add: ranges_size_def)
next
  case (2 n addrs ent avail)
  have ent: "fst ent \<le> snd ent" and apart: "\<forall>f \<in> set addrs. before f ent \<or> before ent f"
    using 2(4,5,6) by simp_all
  have size: "ranges_size (ent # avail) = (snd ent - fst ent + 1) + ranges_size avail"
    by (simp add: ranges_size_def)
  have nn: "0 \<le> ranges_size avail" using 2(5) by (simp add: ranges_size_card)
  consider "n = 0" | "n \<noteq> 0" "n < snd ent - fst ent + 1" | "n \<noteq> 0" "\<not> n < snd ent - fst ent + 1"
    by blast
  then show ?case
  proof cases
    case 1
    then show ?thesis using 2(2,4) nn size ent by auto
  next
    case part: 2
    let ?a = "(fst ent, fst ent + n - 1)"
    have "\<forall>f \<in> set addrs. before f ?a \<or> before ?a f" using 2(6) by simp
    from hr_ins_apart_wf [OF 2(4) _ this] part 2(2,3)
    have "ranges_wf taken" "ranges_set taken = ranges_set addrs \<union> {fst ent..fst ent + n - 1}"
      "ranges_size taken = ranges_size addrs + n" "m = 0"
      by auto
    moreover have "{fst ent..fst ent + n - 1} \<subseteq> {fst ent..snd ent}" using part by auto
    ultimately show ?thesis using part nn size by auto
  next
    case whole: 3
    let ?n = "n - (snd ent - fst ent + 1)"
    note ins = hr_ins_apart_wf [OF 2(4) ent apart]
    have eq: "take_loop ?n (hr_ins ent addrs) avail = (m, taken)" using 2(2) whole by simp
    have "\<forall>f \<in> set (hr_ins ent addrs). \<forall>e \<in> set avail. before f e"
      using hr_ins_last [OF 2(4) ent] 2(5,6) by auto
    then have "ranges_wf taken \<and> ranges_set taken \<subseteq> ranges_set (hr_ins ent addrs) \<union> ranges_set avail \<and>
       ranges_size taken = ranges_size (hr_ins ent addrs) + (?n - m) \<and>
       m = (if ?n \<le> ranges_size avail then 0 else ?n - ranges_size avail)"
      using 2(1) [OF whole eq _ ins(1)] whole 2(5) by simp
    then show ?thesis using ins size nn whole by auto
  qed
qed

section \<open>Allocation and release on a sound database\<close>

definition allocated :: "addr_db \<Rightarrow> int set" where
  "allocated s = (\<Union>k. owned s k)"

lemma db_okE:
  assumes "db_ok s"
  obtains d t where "db_read s = Some \<lparr>top_obj = d, alloc_tbl = t\<rparr>"
    "tbl_wf (addr_min s) (addr_max s) t" "0 \<le> net_addr s"
proof -
  obtain db where db: "db_read s = Some db" "tbl_wf (addr_min s) (addr_max s) (alloc_tbl db)"
    "0 \<le> net_addr s"
    using assms by (auto simp: db_ok_def split: option.splits)
  obtain d t where "db = \<lparr>top_obj = d, alloc_tbl = t\<rparr>" by (cases db) simp
  with db show ?thesis by (auto intro: that)
qed

lemma owned_tbl:
  "db_read s = Some \<lparr>top_obj = d, alloc_tbl = t\<rparr> \<Longrightarrow>
    owned s k = (case dget t k of None \<Rightarrow> {} | Some r \<Rightarrow> ranges_set r)"
  by (simp add: owned_def)

lemma allocated_tbl:
  assumes "db_read s = Some \<lparr>top_obj = d, alloc_tbl = t\<rparr>" "distinct (dkeys t)"
  shows "allocated s = (\<Union>r \<in> set (map snd t). ranges_set r)"
proof
  show "allocated s \<subseteq> (\<Union>r \<in> set (map snd t). ranges_set r)"
  proof
    fix x assume "x \<in> allocated s"
    then obtain k where "x \<in> owned s k" by (auto simp: allocated_def)
    then obtain r where "dget t k = Some r" "x \<in> ranges_set r"
      unfolding owned_tbl [OF assms(1)] by (cases "dget t k") simp_all
    then have "(k, r) \<in> set t" by (blast dest: map_of_SomeD)
    then have "r \<in> set (map snd t)" by force
    with \<open>x \<in> ranges_set r\<close> show "x \<in> (\<Union>r \<in> set (map snd t). ranges_set r)" by (rule UN_I [rotated])
  qed
  show "(\<Union>r \<in> set (map snd t). ranges_set r) \<subseteq> allocated s"
  proof
    fix x assume "x \<in> (\<Union>r \<in> set (map snd t). ranges_set r)"
    then obtain k r where "(k, r) \<in> set t" "x \<in> ranges_set r" by auto
    moreover from \<open>(k, r) \<in> set t\<close> have "dget t k = Some r"
      using dget_item [OF assms(2)] by blast
    ultimately have "x \<in> owned s k" unfolding owned_tbl [OF assms(1)] by simp
    then show "x \<in> allocated s" unfolding allocated_def by blast
  qed
qed

lemma tbl_wf_new:
  assumes "tbl_wf mn mx t" "k \<notin> set (dkeys t)" "ranges_wf r" "ranges_set r \<subseteq> {mn..mx}"
    "\<forall>q \<in> set (map snd t). ranges_set q \<inter> ranges_set r = {}"
  shows "tbl_wf mn mx (dset k r t)"
proof -
  have "\<forall>q \<in> set (map snd t). ranges_apart q r"
    using assms by (simp add: tbl_wf_def ranges_apart_disjoint)
  with assms show ?thesis
    unfolding dset_new [OF assms(2)] by (auto simp: tbl_wf_def sorted_wrt_append)
qed

lemma sorted_wrt_map_filter: "sorted_wrt P (map f xs) \<Longrightarrow> sorted_wrt P (map f (filter Q xs))"
  by (induction xs) auto

lemma tbl_wf_pop: "tbl_wf mn mx t \<Longrightarrow> tbl_wf mn mx (dpop k t)"
  unfolding tbl_wf_def
proof (intro conjI)
  assume a: "distinct (dkeys t) \<and> (\<forall>r \<in> set (map snd t). ranges_wf r \<and> ranges_set r \<subseteq> {mn..mx})
     \<and> sorted_wrt ranges_apart (map snd t)"
  then show "distinct (dkeys (dpop k t))" by (simp add: dpop_distinct)
  have "set (map snd (dpop k t)) \<subseteq> set (map snd t)" by (auto simp: dpop_def)
  with a show "\<forall>r \<in> set (map snd (dpop k t)). ranges_wf r \<and> ranges_set r \<subseteq> {mn..mx}" by blast
  from a show "sorted_wrt ranges_apart (map snd (dpop k t))"
    by (simp add: dpop_def sorted_wrt_map_filter)
qed

lemma tbl_wf_nonneg:
  "tbl_wf mn mx t \<Longrightarrow> 0 \<le> mn \<Longrightarrow> \<forall>r \<in> set (map snd t). ranges_wf r \<and> (\<forall>e \<in> set r. 0 \<le> fst e)"
  by (force simp: tbl_wf_def ranges_wf_def ranges_set_def)

lemma db_write_ok:
  assumes "tbl_wf (addr_min s) (addr_max s) t" "0 \<le> net_addr s"
  shows "\<exists>d'. db_read (db_unlock (db_write \<lparr>top_obj = d, alloc_tbl = t\<rparr> (db_lock s))) =
      Some \<lparr>top_obj = d', alloc_tbl = t\<rparr>"
    "db_ok (db_unlock (db_write \<lparr>top_obj = d, alloc_tbl = t\<rparr> (db_lock s)))"
proof -
  let ?w = "db_write \<lparr>top_obj = d, alloc_tbl = t\<rparr> (db_lock s)"
  have "\<forall>r \<in> set (map snd t). ranges_wf r \<and> (\<forall>e \<in> set r. 0 \<le> fst e)"
    by (rule tbl_wf_nonneg [OF assms(1)]) (simp add: addr_min_def assms(2))
  then obtain d' where d': "db_read (db_unlock ?w) = Some \<lparr>top_obj = d', alloc_tbl = t\<rparr>"
    using db_read_write [of "\<lparr>top_obj = d, alloc_tbl = t\<rparr>" "db_lock s"] by (auto simp: db_unlock_def)
  then show "\<exists>d'. db_read (db_unlock ?w) = Some \<lparr>top_obj = d', alloc_tbl = t\<rparr>" by blast
  have "addr_min (db_unlock ?w) = addr_min s" "addr_max (db_unlock ?w) = addr_max s"
    "net_addr (db_unlock ?w) = net_addr s"
    by (simp_all add: db_defs)
  with d' assms show "db_ok (db_unlock ?w)" by (simp add: db_ok_def)
qed

text \<open>The free ranges \<open>alloc_addr\<close> computes are the pool less what is allocated.\<close>

lemma avail_spec:
  assumes "tbl_wf mn mx t"
  shows "ranges_wf (hr_inv mn mx (map snd (tunion t)))"
    "ranges_set (hr_inv mn mx (map snd (tunion t))) = {mn..mx} - (\<Union>r \<in> set (map snd t). ranges_set r)"
    "write_back t (tunion t) = t"
proof -
  have t: "\<forall>r \<in> set (map snd t). ranges_wf r" "sorted_wrt ranges_apart (map snd t)"
    "(\<Union>r \<in> set (map snd t). ranges_set r) \<subseteq> {mn..mx}"
    using assms by (auto simp: tbl_wf_def)
  note u = hr_union_apart [OF t(1,2)]
  then show "ranges_wf (hr_inv mn mx (map snd (tunion t)))"
    "ranges_set (hr_inv mn mx (map snd (tunion t))) = {mn..mx} - (\<Union>r \<in> set (map snd t). ranges_set r)"
    using hr_inv_set [OF u(2)] t(3) by (simp_all add: tunion_union)
  show "write_back t (tunion t) = t" by (rule write_back_tunion [OF t(1,2)])
qed

lemma alloc_held:
  assumes "db_ok s" "name \<in> holders s" "alloc_addr name n s = (r, s')"
  shows "\<exists>a. r = Inr (Some a) \<and> ranges_wf a \<and> ranges_set a = owned s name"
    "s' = s\<lparr>locked := False\<rparr>"
proof -
  obtain d t where dt: "db_read s = Some \<lparr>top_obj = d, alloc_tbl = t\<rparr>" "tbl_wf (addr_min s) (addr_max s) t"
    using assms(1) by (rule db_okE)
  then obtain a where a: "dget t name = Some a"
    using assms(2) by (cases "dget t name") (auto simp: holders_def map_of_eq_None_iff)
  then have "ranges_wf a" using dt(2) by (force simp: tbl_wf_def dest: map_of_SomeD)
  moreover have "alloc_addr name n s = (Inr (Some a), s\<lparr>locked := False\<rparr>)"
    using a dt(1) by (simp add: alloc_addr_def db_lock_def db_unlock_def)
  moreover have "owned s name = ranges_set a" using a by (simp add: owned_tbl [OF dt(1)])
  ultimately show "\<exists>a. r = Inr (Some a) \<and> ranges_wf a \<and> ranges_set a = owned s name"
    "s' = s\<lparr>locked := False\<rparr>"
    using assms(3) by simp_all
qed

lemma take_avail:
  assumes "take_loop n [] av = (m, taken)" "0 \<le> n" "ranges_wf av"
  shows "ranges_wf taken" "ranges_set taken \<subseteq> ranges_set av"
    "int (card (ranges_set taken)) = n - m"
    "m = (if n \<le> int (card (ranges_set av)) then 0 else n - int (card (ranges_set av)))"
proof -
  have s: "ranges_size [] = 0" by (simp add: ranges_size_def)
  note sp = take_loop_spec [OF assms(1,2) ranges_wf_Nil assms(3)]
  show wf: "ranges_wf taken" and "ranges_set taken \<subseteq> ranges_set av" using sp by simp_all
  show "int (card (ranges_set taken)) = n - m"
    using sp s by (simp flip: ranges_size_card [OF wf])
  show "m = (if n \<le> int (card (ranges_set av)) then 0 else n - int (card (ranges_set av)))"
    using sp by (simp flip: ranges_size_card [OF assms(3)])
qed

lemma alloc_new:
  assumes ok: "db_ok s" and new: "name \<notin> holders s" and n: "0 \<le> n"
    and alloc: "alloc_addr name n s = (r, s')"
  defines "free \<equiv> pool s - allocated s"
  shows "n \<le> int (card free) \<Longrightarrow>
      (\<exists>a. r = Inr (Some a) \<and> ranges_wf a \<and> int (card (ranges_set a)) = n \<and> ranges_set a \<subseteq> free \<and>
         db_ok s' \<and> owned s' = (owned s)(name := ranges_set a) \<and> holders s' = insert name (holders s) \<and>
         pool s' = pool s \<and> \<not> locked s')"
    "int (card free) < n \<Longrightarrow> r = Inr None \<and> s' = s\<lparr>locked := False\<rparr>"
proof -
  obtain d t where dt: "db_read s = Some \<lparr>top_obj = d, alloc_tbl = t\<rparr>"
    "tbl_wf (addr_min s) (addr_max s) t" "0 \<le> net_addr s"
    using ok by (rule db_okE)
  let ?u = "tunion t" and ?av = "hr_inv (addr_min s) (addr_max s) (map snd (tunion t))"
  have k: "name \<notin> set (dkeys t)" "dget t name = None"
    using new dt(1) by (simp_all add: holders_def map_of_eq_None_iff)
  note av = avail_spec [OF dt(2)]
  have free: "free = ranges_set ?av"
    using av(2) allocated_tbl [OF dt(1)] dt(2) by (simp add: free_def pool_def tbl_wf_def)
  obtain m taken where take: "take_loop n [] ?av = (m, taken)" by force
  note tk = take_avail [OF take n av(1), folded free]
  have res: "alloc_addr name n s = (if m \<noteq> 0 then (Inr None, s\<lparr>locked := False\<rparr>)
      else (Inr (Some taken), db_unlock (db_write \<lparr>top_obj = d, alloc_tbl = dset name taken t\<rparr> (db_lock s))))"
    using dt(1) k(2) take av(3)
    by (simp add: alloc_addr_def Let_def db_lock_def db_unlock_def addr_min_def addr_max_def)
  show "int (card free) < n \<Longrightarrow> r = Inr None \<and> s' = s\<lparr>locked := False\<rparr>"
    using res tk(4) alloc by auto
  assume le: "n \<le> int (card free)"
  then have r: "r = Inr (Some taken)"
    "s' = db_unlock (db_write \<lparr>top_obj = d, alloc_tbl = dset name taken t\<rparr> (db_lock s))"
    using res tk(4) alloc by auto
  have "\<forall>q \<in> set (map snd t). ranges_set q \<inter> ranges_set taken = {}"
    using tk(2) av(2) unfolding free by blast
  moreover have "ranges_set taken \<subseteq> {addr_min s..addr_max s}" using tk(2) av(2) free by blast
  ultimately have wf: "tbl_wf (addr_min s) (addr_max s) (dset name taken t)"
    using tbl_wf_new [OF dt(2) k(1) tk(1)] by blast
  note w = db_write_ok [OF wf dt(3), of d]
  obtain d' where d': "db_read s' = Some \<lparr>top_obj = d', alloc_tbl = dset name taken t\<rparr>"
    using w(1) r(2) by blast
  have "owned s' = (owned s)(name := ranges_set taken)"
    by (rule ext) (simp add: owned_tbl [OF d'] owned_tbl [OF dt(1)] dict_simps)
  moreover have "holders s' = insert name (holders s)"
    using d' dt(1) by (simp add: holders_def dict_simps)
  moreover have "pool s' = pool s" "\<not> locked s'" by (simp_all add: r(2) pool_def db_defs)
  moreover have "int (card (ranges_set taken)) = n"
    using tk(3,4) le by simp
  ultimately show "\<exists>a. r = Inr (Some a) \<and> ranges_wf a \<and> int (card (ranges_set a)) = n \<and> ranges_set a \<subseteq> free \<and>
         db_ok s' \<and> owned s' = (owned s)(name := ranges_set a) \<and> holders s' = insert name (holders s) \<and>
         pool s' = pool s \<and> \<not> locked s'"
    using r tk(1,2) w(2) by blast
qed

lemma free_ok:
  assumes "db_ok s" "free_addr name s = (r, s')"
  shows "r = Inr ()" "db_ok s'" "owned s' = (owned s)(name := {})"
    "holders s' = holders s - {name}" "pool s' = pool s" "\<not> locked s'"
proof -
  obtain d t where dt: "db_read s = Some \<lparr>top_obj = d, alloc_tbl = t\<rparr>"
    "tbl_wf (addr_min s) (addr_max s) t" "0 \<le> net_addr s"
    using assms(1) by (rule db_okE)
  have s': "r = Inr ()" "s' = db_unlock (db_write \<lparr>top_obj = d, alloc_tbl = dpop name t\<rparr> (db_lock s))"
    using assms(2) dt(1) by (auto simp: free_addr_def db_lock_def Let_def)
  note w = db_write_ok [OF tbl_wf_pop [OF dt(2)] dt(3), where d = d]
  obtain d' where d': "db_read s' = Some \<lparr>top_obj = d', alloc_tbl = dpop name t\<rparr>"
    using w(1) s'(2) by blast
  show "r = Inr ()" "db_ok s'" using s' w(2) by simp_all
  show "owned s' = (owned s)(name := {})"
    by (rule ext) (simp add: owned_tbl [OF d'] owned_tbl [OF dt(1)] dict_simps)
  show "holders s' = holders s - {name}" using d' dt(1) by (auto simp: holders_def dpop_def)
  show "pool s' = pool s" "\<not> locked s'" by (simp_all add: s'(2) pool_def db_defs)
qed

lemma owned_sub_allocated: "owned s k \<subseteq> allocated s"
  by (auto simp: allocated_def)

lemma allocated_sub_pool: "db_ok s \<Longrightarrow> allocated s \<subseteq> pool s"
  by (erule db_okE) (auto simp: allocated_tbl tbl_wf_def pool_def)

lemma owned_pool: "db_ok s \<Longrightarrow> owned s k \<subseteq> pool s"
  using owned_sub_allocated allocated_sub_pool by blast

lemma sorted_wrt_apart_keys:
  "sorted_wrt ranges_apart (map snd t) \<Longrightarrow> distinct (dkeys t) \<Longrightarrow> (k, r) \<in> set t \<Longrightarrow>
    (l, q) \<in> set t \<Longrightarrow> k \<noteq> l \<Longrightarrow> ranges_apart r q \<or> ranges_apart q r"
  by (induction t) force+

lemma owned_disjoint:
  assumes "db_ok s" "k \<noteq> l"
  shows "owned s k \<inter> owned s l = {}"
proof -
  obtain d t where dt: "db_read s = Some \<lparr>top_obj = d, alloc_tbl = t\<rparr>"
    "tbl_wf (addr_min s) (addr_max s) t"
    using assms(1) by (rule db_okE)
  have "ranges_set r \<inter> ranges_set q = {}" if rq: "dget t k = Some r" "dget t l = Some q" for r q
  proof -
    have m: "(k, r) \<in> set t" "(l, q) \<in> set t" using rq by (auto dest: map_of_SomeD)
    then have "ranges_apart r q \<or> ranges_apart q r"
      using sorted_wrt_apart_keys [of t k r l q] dt(2) assms(2) by (simp add: tbl_wf_def)
    moreover have "ranges_wf r" "ranges_wf q" using dt(2) m by (force simp: tbl_wf_def)+
    ultimately show ?thesis using ranges_apart_disjoint by blast
  qed
  then show ?thesis by (auto simp: owned_tbl [OF dt(1)] split: option.splits)
qed

lemma init_db_ok:
  assumes "0 \<le> net_addr s" "db_read s = None"
  shows "db_ok (init_db s)" "holders (init_db s) = {}" "allocated (init_db s) = {}"
    "pool (init_db s) = pool s"
proof -
  have eq: "init_db s = db_unlock (db_write \<lparr>top_obj = [], alloc_tbl = []\<rparr> (db_lock s))"
    using assms(2) by (simp add: init_db_def db_lock_def)
  have "tbl_wf (addr_min s) (addr_max s) []" by (simp add: tbl_wf_def)
  note w = db_write_ok [OF this assms(1), where d = "[]"]
  then obtain d where d: "db_read (init_db s) = Some \<lparr>top_obj = d, alloc_tbl = []\<rparr>"
    unfolding eq by blast
  show "db_ok (init_db s)" unfolding eq by (rule w(2))
  show "holders (init_db s) = {}" "allocated (init_db s) = {}"
    by (simp_all add: holders_def d allocated_tbl [OF d])
  show "pool (init_db s) = pool s" by (simp add: eq pool_def db_defs)
qed

section \<open>The contract of an address allocator\<close>

text \<open>
  What the clusters rely on: every allocator keeps an invariant, its clients hold disjoint
  parts of one space, and a request of one client leaves the others alone. The run of any
  sequence of requests then keeps the clients apart.
\<close>

datatype request = Alloc string int | Release string

fun client :: "request \<Rightarrow> string" where
  "client (Alloc k n) = k"
| "client (Release k) = k"

fun sane :: "request \<Rightarrow> bool" where
  "sane (Alloc k n) = (0 \<le> n)"
| "sane (Release k) = True"

fun serve :: "(string \<Rightarrow> int \<Rightarrow> 's \<Rightarrow> 's) \<Rightarrow> (string \<Rightarrow> 's \<Rightarrow> 's) \<Rightarrow> request \<Rightarrow> 's \<Rightarrow> 's" where
  "serve al rl (Alloc k n) s = al k n s"
| "serve al rl (Release k) s = rl k s"

definition serve_all ::
    "(string \<Rightarrow> int \<Rightarrow> 's \<Rightarrow> 's) \<Rightarrow> (string \<Rightarrow> 's \<Rightarrow> 's) \<Rightarrow> request list \<Rightarrow> 's \<Rightarrow> 's" where
  "serve_all al rl rs s = fold (serve al rl) rs s"

locale address_allocator =
  fixes inv :: "'s \<Rightarrow> bool"
    and held :: "'s \<Rightarrow> string \<Rightarrow> int set"
    and space :: "'s \<Rightarrow> int set"
    and alloc :: "string \<Rightarrow> int \<Rightarrow> 's \<Rightarrow> 's"
    and release :: "string \<Rightarrow> 's \<Rightarrow> 's"
  assumes held_space: "inv s \<Longrightarrow> held s k \<subseteq> space s"
    and held_apart: "inv s \<Longrightarrow> k \<noteq> l \<Longrightarrow> held s k \<inter> held s l = {}"
    and alloc_inv: "inv s \<Longrightarrow> 0 \<le> n \<Longrightarrow> inv (alloc k n s) \<and> space (alloc k n s) = space s"
    and alloc_frame: "inv s \<Longrightarrow> 0 \<le> n \<Longrightarrow> l \<noteq> k \<Longrightarrow> held (alloc k n s) l = held s l"
    and release_inv: "inv s \<Longrightarrow> inv (release k s) \<and> space (release k s) = space s"
    and release_frame: "inv s \<Longrightarrow> l \<noteq> k \<Longrightarrow> held (release k s) l = held s l"
    and release_own: "inv s \<Longrightarrow> held (release k s) k = {}"
begin

lemma serve_step:
  assumes "inv s" "sane r"
  shows "inv (serve alloc release r s)" "space (serve alloc release r s) = space s"
    "l \<noteq> client r \<Longrightarrow> held (serve alloc release r s) l = held s l"
  using assms alloc_inv alloc_frame release_inv release_frame by (cases r; simp)+

lemma serve_all_inv:
  "inv s \<Longrightarrow> \<forall>r \<in> set rs. sane r \<Longrightarrow>
    inv (serve_all alloc release rs s) \<and> space (serve_all alloc release rs s) = space s"
  by (induction rs arbitrary: s) (auto simp: serve_all_def serve_step)

lemma serve_all_frame:
  "inv s \<Longrightarrow> \<forall>r \<in> set rs. sane r \<Longrightarrow> l \<notin> client ` set rs \<Longrightarrow>
    held (serve_all alloc release rs s) l = held s l"
  by (induction rs arbitrary: s) (auto simp: serve_all_def serve_step)

lemma serve_all_apart:
  assumes "inv s" "\<forall>r \<in> set rs. sane r" "k \<noteq> l"
  shows "held (serve_all alloc release rs s) k \<inter> held (serve_all alloc release rs s) l = {}"
  using serve_all_inv [OF assms(1,2)] held_apart assms(3) by blast

end

abbreviation alloc_state :: "string \<Rightarrow> int \<Rightarrow> addr_db \<Rightarrow> addr_db" where
  "alloc_state k n s \<equiv> snd (alloc_addr k n s)"

abbreviation free_state :: "string \<Rightarrow> addr_db \<Rightarrow> addr_db" where
  "free_state k s \<equiv> snd (free_addr k s)"

lemma ok_unlocked [simp]: "db_ok (s\<lparr>locked := b\<rparr>) = db_ok s" "owned (s\<lparr>locked := b\<rparr>) = owned s"
  "pool (s\<lparr>locked := b\<rparr>) = pool s"
  by (simp_all add: db_ok_def owned_def pool_def addr_min_def addr_max_def fun_eq_iff
      split: option.split)

lemma alloc_state_step:
  assumes "db_ok s" "0 \<le> n"
  shows "db_ok (alloc_state k n s)" "pool (alloc_state k n s) = pool s"
    "l \<noteq> k \<Longrightarrow> owned (alloc_state k n s) l = owned s l"
proof -
  obtain r s' where e: "alloc_addr k n s = (r, s')" by force
  consider "k \<in> holders s" | "k \<notin> holders s" "n \<le> int (card (pool s - allocated s))"
    | "k \<notin> holders s" "int (card (pool s - allocated s)) < n" by linarith
  then have "db_ok s' \<and> pool s' = pool s \<and> (l \<noteq> k \<longrightarrow> owned s' l = owned s l)"
  proof cases
    case 1
    then show ?thesis using alloc_held(2) [OF assms(1) 1 e] assms(1) by simp
  next
    case 2
    then show ?thesis using alloc_new(1) [OF assms(1) 2(1) assms(2) e 2(2)] by auto
  next
    case 3
    then show ?thesis using alloc_new(2) [OF assms(1) 3(1) assms(2) e 3(2)] assms(1) by simp
  qed
  then show "db_ok (alloc_state k n s)" "pool (alloc_state k n s) = pool s"
    "l \<noteq> k \<Longrightarrow> owned (alloc_state k n s) l = owned s l"
    by (simp_all add: e)
qed

lemma free_state_step:
  assumes "db_ok s"
  shows "db_ok (free_state k s)" "pool (free_state k s) = pool s"
    "owned (free_state k s) = (owned s)(k := {})"
  using free_ok [OF assms, of k] by (metis prod.collapse)+

interpretation ipdb: address_allocator db_ok owned pool alloc_state free_state
  by unfold_locales
    (simp_all add: owned_pool owned_disjoint alloc_state_step free_state_step)

section \<open>Properties\<close>

text \<open>
  C2: Allocating for a cluster that holds nothing, in a sound database: when enough addresses
  of the pool are free, exactly \<open>n\<close> free addresses are returned and recorded for the cluster,
  the other clusters keep theirs, the database stays sound and the lock is released; otherwise
  the result is \<open>None\<close> and the file is unchanged. In every case the code succeeds whenever it can.
\<close>

theorem alloc_addr_fresh:
  assumes "db_ok s" and "name \<notin> holders s" and "0 \<le> n"
  shows "case alloc_addr name n s of (r, s') \<Rightarrow>
    (if n \<le> int (card (pool s - allocated s))
     then (\<exists>a. r = Inr (Some a) \<and> ranges_wf a \<and> int (card (ranges_set a)) = n \<and>
            ranges_set a \<subseteq> pool s - allocated s \<and> db_ok s' \<and>
            owned s' = (owned s)(name := ranges_set a) \<and> \<not> locked s')
     else r = Inr None \<and> s' = s\<lparr>locked := False\<rparr>)"
proof -
  obtain r s' where e: "alloc_addr name n s = (r, s')" by force
  show ?thesis
    using alloc_new [OF assms e] by (auto simp: e)
qed

definition demo_db :: addr_db where
  "demo_db = init_db \<lparr>content = None, locked = False, net_addr = 0, host_mask = 7\<rparr>"

lemma demo_db_ok: "db_ok demo_db" "holders demo_db = {}"
  unfolding demo_db_def by (rule init_db_ok; simp add: db_read_def)+

theorem alloc_addr_fresh_witness:
  "case alloc_addr ''c1'' 3 demo_db of (r, s') \<Rightarrow>
    (if 3 \<le> int (card (pool demo_db - allocated demo_db))
     then (\<exists>a. r = Inr (Some a) \<and> ranges_wf a \<and> int (card (ranges_set a)) = 3 \<and>
            ranges_set a \<subseteq> pool demo_db - allocated demo_db \<and> db_ok s' \<and>
            owned s' = (owned demo_db)(''c1'' := ranges_set a) \<and> \<not> locked s')
     else r = Inr None \<and> s' = demo_db\<lparr>locked := False\<rparr>)"
  by (rule alloc_addr_fresh) (simp_all add: demo_db_ok)

text \<open>
  A cluster that already holds addresses gets exactly those again, whatever the number
  it asks for, and the file is not rewritten.
\<close>

lemma alloc_addr_again:
  assumes "db_ok s" and "name \<in> holders s"
  shows "\<exists>a. alloc_addr name n s = (Inr (Some a), s\<lparr>locked := False\<rparr>) \<and> ranges_set a = owned s name"
proof -
  obtain r s' where e: "alloc_addr name n s = (r, s')" by force
  show ?thesis using alloc_held [OF assms e] e by auto
qed

lemma demo_alloc: "db_ok (alloc_state ''c1'' 3 demo_db)" "''c1'' \<in> holders (alloc_state ''c1'' 3 demo_db)"
proof -
  obtain r s' where e: "alloc_addr ''c1'' 3 demo_db = (r, s')" by force
  have "pool demo_db = {1..6}" "allocated demo_db = {}"
    unfolding demo_db_def by (subst init_db_ok; simp add: db_read_def pool_def addr_min_def addr_max_def)+
  then have "3 \<le> int (card (pool demo_db - allocated demo_db))" by simp
  from alloc_new(1) [OF demo_db_ok(1) _ _ e this]
  show "db_ok (alloc_state ''c1'' 3 demo_db)" "''c1'' \<in> holders (alloc_state ''c1'' 3 demo_db)"
    by (auto simp: e demo_db_ok)
qed

lemma alloc_addr_again_instance:
  "\<exists>a. alloc_addr ''c1'' 5 (alloc_state ''c1'' 3 demo_db) =
      (Inr (Some a), (alloc_state ''c1'' 3 demo_db)\<lparr>locked := False\<rparr>) \<and>
    ranges_set a = owned (alloc_state ''c1'' 3 demo_db) ''c1''"
  by (rule alloc_addr_again [OF demo_alloc])

text \<open>
  C3: Along any sequence of allocations and releases from a sound database, two clusters never
  hold a common address, all addresses lie in the pool, and clusters that make no request
  keep what they hold.
\<close>

theorem requests_keep_apart:
  assumes "db_ok s" and "\<forall>r \<in> set rs. sane r"
  shows "let s' = serve_all alloc_state free_state rs s in
    db_ok s' \<and> (\<forall>k l. k \<noteq> l \<longrightarrow> owned s' k \<inter> owned s' l = {}) \<and> (\<forall>k. owned s' k \<subseteq> pool s) \<and>
    (\<forall>k. k \<notin> client ` set rs \<longrightarrow> owned s' k = owned s k)"
  using ipdb.serve_all_inv [OF assms] ipdb.serve_all_apart [OF assms]
    ipdb.serve_all_frame [OF assms] owned_pool
  unfolding Let_def by metis

theorem requests_keep_apart_witness:
  "let s' = serve_all alloc_state free_state [Alloc ''a'' 2, Alloc ''b'' 3, Release ''a''] demo_db in
    db_ok s' \<and> (\<forall>k l. k \<noteq> l \<longrightarrow> owned s' k \<inter> owned s' l = {}) \<and> (\<forall>k. owned s' k \<subseteq> pool demo_db) \<and>
    (\<forall>k. k \<notin> client ` set [Alloc ''a'' 2, Alloc ''b'' 3, Release ''a''] \<longrightarrow> owned s' k = owned demo_db k)"
  by (rule requests_keep_apart) (simp_all add: demo_db_ok)

text \<open>
  Releasing returns exactly the cluster's addresses to the pool: it holds nothing
  afterwards, the others keep theirs, the database stays sound and the lock is released.
\<close>

lemma free_addr_spec:
  assumes "db_ok s"
  shows "case free_addr name s of (r, s') \<Rightarrow>
    r = Inr () \<and> db_ok s' \<and> owned s' = (owned s)(name := {}) \<and> name \<notin> holders s' \<and> \<not> locked s'"
proof -
  obtain r s' where e: "free_addr name s = (r, s')" by force
  show ?thesis using free_ok [OF assms e] by (simp add: e)
qed

lemma free_addr_spec_instance:
  "case free_addr ''c1'' (alloc_state ''c1'' 3 demo_db) of (r, s') \<Rightarrow>
    r = Inr () \<and> db_ok s' \<and> owned s' = (owned (alloc_state ''c1'' 3 demo_db))(''c1'' := {}) \<and>
    ''c1'' \<notin> holders s' \<and> \<not> locked s'"
  by (rule free_addr_spec [OF demo_alloc(1)])

text \<open>
  On a file that is not a table (not JSON, or of another shape) both requests raise a
  \<open>TypeError\<close> and, since no handler releases it, leave the lock taken.
\<close>

lemma corrupt_file_keeps_lock:
  assumes "db_read s = None"
  shows "(\<exists>m. fst (alloc_addr name n s) = Inl (TypeError m)) \<and> locked (snd (alloc_addr name n s)) \<and>
    (\<exists>m. fst (free_addr name s) = Inl (TypeError m)) \<and> locked (snd (free_addr name s))"
  using assms by (simp add: alloc_addr_def free_addr_def db_lock_def)

lemma corrupt_file_keeps_lock_instance:
  "let s = \<lparr>content = Some (PList []), locked = False, net_addr = 0, host_mask = 7\<rparr> in
    (\<exists>m. fst (alloc_addr ''c1'' 3 s) = Inl (TypeError m)) \<and> locked (snd (alloc_addr ''c1'' 3 s)) \<and>
    (\<exists>m. fst (free_addr ''c1'' s) = Inl (TypeError m)) \<and> locked (snd (free_addr ''c1'' s))"
  unfolding Let_def by (rule corrupt_file_keeps_lock) (simp add: db_read_def)

end
