(* ===== verification/TemplateSpec.thy ===== *)
theory TemplateSpec
  imports Prelude
begin

text \<open>
  The class \<open>Spec\<close> of \<open>LDMS_Test.py\<close>, with \<open>deep_copy\<close>: the cluster specification, whose
  objects extend templates (\<open>!extends\<close>) and whose strings refer to attributes of the enclosing
  objects (\<open>%VAR%\<close>). Both the walk up the templates and the repeated substitution are loops
  that may run forever, so they return \<open>out\<close> values (\<open>None\<close>: no result).
\<close>

section \<open>deep_copy\<close>

lemma size_dict_value [termination_simp]: "(k, v) \<in> set d \<Longrightarrow> size v < Suc (size_list (size_prod (\<lambda>_. 0) size) d)"
  by (induction d) auto

fun deep_copy :: "pval \<Rightarrow> pval res" where
  "deep_copy PNone = Inl (TypeError ''Unsupported type: NoneType'')"
| "deep_copy (PDict d) =
     bindE (mapE (\<lambda>(k, v). bindE (deep_copy v) (\<lambda>v'. Inr (k, v'))) d) (\<lambda>d'. Inr (PDict d'))"
| "deep_copy (PList xs) = bindE (mapE deep_copy xs) (\<lambda>ys. Inr (PList ys))"
| "deep_copy (PTuple xs) = bindE (mapE deep_copy xs) (\<lambda>ys. Inr (PTuple ys))"
| "deep_copy v = Inr v"

text \<open>No \<open>None\<close> anywhere.\<close>

fun none_free :: "pval \<Rightarrow> bool" where
  "none_free PNone = False"
| "none_free (PDict d) = (\<forall>p \<in> set d. none_free (snd p))"
| "none_free (PList xs) = (\<forall>x \<in> set xs. none_free x)"
| "none_free (PTuple xs) = (\<forall>x \<in> set xs. none_free x)"
| "none_free v = True"

lemma mapE_id: "(\<And>x. x \<in> set xs \<Longrightarrow> f x = Inr x) \<Longrightarrow> mapE f xs = Inr xs"
  using mapE_Inr_map [of xs f "\<lambda>x. x"] by simp

lemma deep_copy_ok: "none_free v \<Longrightarrow> deep_copy v = Inr v"
proof (induction v rule: deep_copy.induct)
  case (2 d)
  then have "mapE (\<lambda>(k, v). bindE (deep_copy v) (\<lambda>v'. Inr (k, v'))) d = Inr d"
    by (intro mapE_id) fastforce
  then show ?case by simp
next
  case (3 xs)
  then have "mapE deep_copy xs = Inr xs" by (intro mapE_id) auto
  then show ?case by simp
next
  case (4 xs)
  then have "mapE deep_copy xs = Inr xs" by (intro mapE_id) auto
  then show ?case by simp
qed simp_all

lemma mapE_all: "mapE f xs = Inr ys \<Longrightarrow> x \<in> set xs \<Longrightarrow> \<exists>y. f x = Inr y"
  by (induction xs arbitrary: ys) (auto simp: res_simps)

lemma deep_copy_none_free: "deep_copy v = Inr w \<Longrightarrow> none_free v"
proof (induction v arbitrary: w rule: deep_copy.induct)
  case (2 d)
  then obtain d' where d': "mapE (\<lambda>(k, v). bindE (deep_copy v) (\<lambda>v'. Inr (k, v'))) d = Inr d'"
    by (auto simp: res_simps)
  have "none_free v" if "(k, v) \<in> set d" for k v
    using mapE_all [OF d' that] 2(1) [OF that refl] by (auto simp: res_simps)
  then show ?case by auto
next
  case (3 xs)
  then show ?case by (auto simp: res_simps dest: mapE_all)
next
  case (4 xs)
  then show ?case by (auto simp: res_simps dest: mapE_all)
qed simp_all

section \<open>Template expansion\<close>

definition MAX_DEPTH :: nat where
  "MAX_DEPTH = 64"

fun truthy :: "pval \<Rightarrow> bool" where
  "truthy PNone = False"
| "truthy (PBool b) = b"
| "truthy (PInt i) = (i \<noteq> 0)"
| "truthy (PFloat r) = (r \<noteq> ''0.0'' \<and> r \<noteq> ''-0.0'')"
| "truthy (PStr s) = (s \<noteq> [])"
| "truthy (PList xs) = (xs \<noteq> [])"
| "truthy (PTuple xs) = (xs \<noteq> [])"
| "truthy (PDict d) = (d \<noteq> [])"

fun hashable :: "pval \<Rightarrow> bool" where
  "hashable (PList xs) = False"
| "hashable (PDict d) = False"
| "hashable (PTuple xs) = (\<forall>x \<in> set xs. hashable x)"
| "hashable v = True"

text \<open>\<open>self.templates.get(ext)\<close>; the keys of the templates are strings.\<close>

definition template_get :: "pval \<Rightarrow> pval \<Rightarrow> pval option res" where
  "template_get T ext =
     (case T of
        PDict ts \<Rightarrow> if \<not> hashable ext then Inl (TypeError ''unhashable type'')
                   else Inr (case ext of PStr s \<Rightarrow> dget ts s | _ \<Rightarrow> None)
      | _ \<Rightarrow> Inl (AttributeError ''get''))"

text \<open>
  The \<open>while ext\<close> loop of \<open>_expand_dict\<close>: the list of dicts to merge, last appended first.
\<close>

partial_function (option) chain :: "pval \<Rightarrow> pval option \<Rightarrow> pval dict list \<Rightarrow> pval dict list out" where
  "chain T ext lst =
     (case ext of
        None \<Rightarrow> ok lst
      | Some e \<Rightarrow>
          if \<not> truthy e then ok lst
          else (case template_get T e of
                  Inl err \<Rightarrow> raise err
                | Inr None \<Rightarrow> raise (KeyError e)
                | Inr (Some t) \<Rightarrow>
                    (case t of
                       PNone \<Rightarrow> raise (KeyError e)
                     | PDict d \<Rightarrow> chain T (dget d ''!extends'') (d # lst)
                     | _ \<Rightarrow> raise (AttributeError ''get''))))"

text \<open>Base first, so that the object's own attributes come last and win; the keyword is dropped.\<close>

definition merge_chain :: "pval dict list \<Rightarrow> pval dict" where
  "merge_chain lst = dpop ''!extends'' (foldl dupdate [] lst)"

function expand :: "pval \<Rightarrow> pval \<Rightarrow> nat \<Rightarrow> pval out" where
  "expand T PNone lvl =
     (if lvl > MAX_DEPTH then raise (RuntimeError ''Expansion exceeding maximum depth (64)'')
      else raise (TypeError ''Unsupported type NoneType''))"
| "expand T (PList xs) lvl =
     (if lvl > MAX_DEPTH then raise (RuntimeError ''Expansion exceeding maximum depth (64)'')
      else bindO (mapO (\<lambda>x. expand T x (lvl + 1)) xs) (\<lambda>ys. ok (PList ys)))"
| "expand T (PTuple xs) lvl =
     (if lvl > MAX_DEPTH then raise (RuntimeError ''Expansion exceeding maximum depth (64)'')
      else bindO (mapO (\<lambda>x. expand T x (lvl + 1)) xs) (\<lambda>ys. ok (PTuple ys)))"
| "expand T (PDict d) lvl =
     (if lvl > MAX_DEPTH then raise (RuntimeError ''Expansion exceeding maximum depth (64)'')
      else bindO (chain T (dget d ''!extends'') [d]) (\<lambda>lst.
           bindO (mapO (\<lambda>(k, v). bindO (expand T v (lvl + 1)) (\<lambda>v'. ok (k, v'))) (merge_chain lst))
             (\<lambda>d'. ok (PDict d'))))"
| "expand T (PBool b) lvl =
     (if lvl > MAX_DEPTH then raise (RuntimeError ''Expansion exceeding maximum depth (64)'') else ok (PBool b))"
| "expand T (PInt i) lvl =
     (if lvl > MAX_DEPTH then raise (RuntimeError ''Expansion exceeding maximum depth (64)'') else ok (PInt i))"
| "expand T (PFloat r) lvl =
     (if lvl > MAX_DEPTH then raise (RuntimeError ''Expansion exceeding maximum depth (64)'') else ok (PFloat r))"
| "expand T (PStr s) lvl =
     (if lvl > MAX_DEPTH then raise (RuntimeError ''Expansion exceeding maximum depth (64)'') else ok (PStr s))"
  by pat_completeness auto
termination
  by (relation "measure (\<lambda>(T, v, lvl). 2 + MAX_DEPTH - lvl)") auto

section \<open>Substitution\<close>

definition var_char :: "char \<Rightarrow> bool" where
  "var_char c = (let n = (of_char c :: nat) in (48 \<le> n \<and> n \<le> 57) \<or> (97 \<le> n \<and> n \<le> 122) \<or>
     (65 \<le> n \<and> n \<le> 90) \<or> c = CHR ''-'' \<or> c = CHR ''.'' \<or> c = CHR ''_'')"

definition is_prim :: "pval \<Rightarrow> bool" where
  "is_prim v = (case v of PInt _ \<Rightarrow> True | PFloat _ \<Rightarrow> True | PBool _ \<Rightarrow> True | PStr _ \<Rightarrow> True | _ \<Rightarrow> False)"

definition prim_str :: "pval \<Rightarrow> string" where
  "prim_str v = (case v of PInt i \<Rightarrow> str_int i | PFloat r \<Rightarrow> r | PStr s \<Rightarrow> s
     | PBool b \<Rightarrow> (if b then ''True'' else ''False'') | _ \<Rightarrow> [])"

definition prims :: "pval dict \<Rightarrow> pval dict" where
  "prims d = filter (\<lambda>p. is_prim (snd p)) d"

text \<open>
  One \<open>VAR_RE.sub\<close>: at a \<open>%\<close> the longest run of variable characters, which must be followed
  by a second \<open>%\<close> (a shorter run is followed by a variable character, so it never matches).
\<close>

function var_sub :: "pval dict \<Rightarrow> string \<Rightarrow> string res" where
  "var_sub V [] = Inr []"
| "var_sub V (c # cs) =
     (if c = CHR ''%'' then
        (let w = takeWhile var_char cs; r = dropWhile var_char cs in
         if r \<noteq> [] \<and> hd r = CHR ''%'' then
           (case dget V w of
              None \<Rightarrow> Inl (KeyError (PStr w))
            | Some v \<Rightarrow> bindE (var_sub V (tl r)) (\<lambda>t. Inr (prim_str v @ t)))
         else bindE (var_sub V cs) (\<lambda>t. Inr (c # t)))
      else bindE (var_sub V cs) (\<lambda>t. Inr (c # t)))"
  by pat_completeness auto
termination
proof (relation "measure (\<lambda>(V, s). length s)", goal_cases)
  case (2 V c cs w r v)
  have "length (dropWhile var_char cs) \<le> length cs" by (rule length_dropWhile_le)
  with 2 show ?case by simp
qed auto

declare var_sub.simps [simp del]

text \<open>The loop of \<open>_subst_str\<close>; the counter is tested but never increased.\<close>

partial_function (option) subst_loop :: "pval dict \<Rightarrow> nat \<Rightarrow> string \<Rightarrow> string \<Rightarrow> string out" where
  "subst_loop V cnt s0 s1 =
     (if s0 \<noteq> s1 then
        (if cnt > 128 then raise (ValueError ''Too many level of substitutions'')
         else (case var_sub V s1 of Inl e \<Rightarrow> raise e | Inr s2 \<Rightarrow> subst_loop V cnt s1 s2))
      else ok s0)"

definition subst_str :: "pval dict \<Rightarrow> string \<Rightarrow> string out" where
  "subst_str V val =
     (case var_sub V val of Inl e \<Rightarrow> raise e
      | Inr s0 \<Rightarrow> (case var_sub V s0 of Inl e \<Rightarrow> raise e | Inr s1 \<Rightarrow> subst_loop V 0 s0 s1))"

fun subst :: "pval dict \<Rightarrow> pval \<Rightarrow> pval out" where
  "subst V PNone = raise (TypeError ''Unsupported type NoneType'')"
| "subst V (PList xs) = bindO (mapO (subst V) xs) (\<lambda>ys. ok (PList ys))"
| "subst V (PTuple xs) = bindO (mapO (subst V) xs) (\<lambda>ys. ok (PTuple ys))"
| "subst V (PDict d) =
     (let var = dupdate V (prims d) in
      bindO (mapO (\<lambda>(k, v). bindO (subst var v) (\<lambda>v'. ok (k, v'))) d) (\<lambda>d'. ok (PDict d')))"
| "subst V (PStr s) = bindO (subst_str V s) (\<lambda>t. ok (PStr t))"
| "subst V v = ok v"

section \<open>The constructor\<close>

record spec =
  templates :: pval
  items :: "pval dict"
  VAR :: "pval dict"

text \<open>The two passes over the top-level items leave the templates alone.\<close>

definition start_expand :: "pval \<Rightarrow> pval dict \<Rightarrow> pval dict out" where
  "start_expand T d = mapO (\<lambda>(k, v). if k = ''templates'' then ok (k, v)
     else bindO (expand T v 0) (\<lambda>v'. ok (k, v'))) d"

definition start_vars :: "pval dict \<Rightarrow> pval dict" where
  "start_vars d = dset [] (PStr ''%'') (prims d)"

definition start_subst :: "pval dict \<Rightarrow> pval dict \<Rightarrow> pval dict out" where
  "start_subst V d = mapO (\<lambda>(k, v). if k = ''templates'' then ok (k, v)
     else bindO (subst V v) (\<lambda>v'. ok (k, v'))) d"

definition spec_init :: "pval \<Rightarrow> spec out" where
  "spec_init sp =
     (case deep_copy sp of
        Inl e \<Rightarrow> raise e
      | Inr (PDict d) \<Rightarrow>
          (let T = dget_or d ''templates'' (PDict []) in
           bindO (start_expand T d) (\<lambda>d1.
           let V = start_vars d1 in
           bindO (start_subst V d1) (\<lambda>d2. ok \<lparr>templates = T, items = d2, VAR = V\<rparr>)))
      | Inr _ \<Rightarrow> raise (AttributeError ''get''))"

section \<open>The walk up the templates\<close>

text \<open>
  What the loop should collect, as a relation: the templates on the path of \<open>!extends\<close>
  references, nearest first. A path is finite; the relation has no path through a cycle.
\<close>

inductive extends_path :: "pval \<Rightarrow> pval option \<Rightarrow> pval dict list \<Rightarrow> bool" where
  path_none: "extends_path T None []"
| path_false: "\<not> truthy e \<Longrightarrow> extends_path T (Some e) []"
| path_step: "truthy e \<Longrightarrow> template_get T e = Inr (Some (PDict d)) \<Longrightarrow>
    extends_path T (dget d ''!extends'') ds \<Longrightarrow> extends_path T (Some e) (d # ds)"

inductive_cases extends_path_NoneE: "extends_path T None ds"
inductive_cases extends_path_SomeE: "extends_path T (Some e) ds"

lemma extends_path_chain: "extends_path T ext ds \<Longrightarrow> chain T ext lst = ok (rev ds @ lst)"
  by (induction arbitrary: lst rule: extends_path.induct) (subst chain.simps; simp)+

lemma chain_result:
  assumes "chain T ext lst = Some r"
  shows "case r of Inl _ \<Rightarrow> True | Inr l \<Rightarrow> \<exists>ds. extends_path T ext ds \<and> l = rev ds @ lst"
proof (rule chain.raw_induct [OF _ assms], goal_cases)
  case (1 ch T ext lst r)
  show ?case
  proof (cases "ext = None \<or> (\<exists>e. ext = Some e \<and> \<not> truthy e)")
    case True
    with 1(2) show ?thesis by (auto intro!: path_none path_false)
  next
    case False
    then obtain e where e: "ext = Some e" "truthy e" by auto
    show ?thesis
    proof (cases "\<exists>d. template_get T e = Inr (Some (PDict d))")
      case True
      then obtain d where d: "template_get T e = Inr (Some (PDict d))" by blast
      with 1(2) e have "ch T (dget d ''!extends'') (d # lst) = Some r" by simp
      from 1(1) [OF this] show ?thesis
        using e d by (cases r) (auto intro: extends_path.intros)
    next
      case no: False
      with 1(2) e show ?thesis
        by (auto split: sum.splits option.splits pval.splits)
    qed
  qed
qed

lemma chain_ok_iff: "chain T ext lst = ok l \<longleftrightarrow> (\<exists>ds. extends_path T ext ds \<and> l = rev ds @ lst)"
  using chain_result [of T ext lst "Inr l"] extends_path_chain [of T ext] by auto

text \<open>A set of template names closed under \<open>!extends\<close>: the loop never leaves it.\<close>

definition extends_closed :: "pval \<Rightarrow> string set \<Rightarrow> bool" where
  "extends_closed T S \<longleftrightarrow> (\<forall>n \<in> S. n \<noteq> [] \<and>
     (\<exists>d m. template_get T (PStr n) = Inr (Some (PDict d)) \<and> dget d ''!extends'' = Some (PStr m) \<and> m \<in> S))"

lemma chain_leaves_closed:
  assumes "chain T ext lst = Some r"
  shows "extends_closed T S \<longrightarrow> (\<forall>n \<in> S. ext \<noteq> Some (PStr n))"
proof (rule chain.raw_induct [where P = "\<lambda>T ext lst r. extends_closed T S \<longrightarrow> (\<forall>n \<in> S. ext \<noteq> Some (PStr n))",
      OF _ assms], goal_cases)
  case (1 ch T ext lst r)
  show ?case
  proof (intro impI ballI notI)
    fix n assume c: "extends_closed T S" and n: "n \<in> S" "ext = Some (PStr n)"
    then obtain d m where dm: "n \<noteq> []" "template_get T (PStr n) = Inr (Some (PDict d))"
      "dget d ''!extends'' = Some (PStr m)" "m \<in> S"
      unfolding extends_closed_def by blast
    with 1(2) n have "ch T (Some (PStr m)) (d # lst) = Some r" by simp
    from 1(1) [OF this] c dm(4) show False by blast
  qed
qed

lemma chain_closed_diverges:
  assumes "extends_closed T S" "n \<in> S"
  shows "chain T (Some (PStr n)) lst = None"
  using chain_leaves_closed [of T "Some (PStr n)" lst _ S] assms
  by (cases "chain T (Some (PStr n)) lst") auto

text \<open>Ranked templates: every chain ends, with a result or with one of the errors.\<close>

definition templates_ranked :: "pval \<Rightarrow> (string \<Rightarrow> nat) \<Rightarrow> bool" where
  "templates_ranked T rank \<longleftrightarrow> (\<forall>n d m. template_get T (PStr n) = Inr (Some (PDict d)) \<longrightarrow>
     dget d ''!extends'' = Some (PStr m) \<longrightarrow> rank m < rank n)"

lemma template_get_dict: "template_get T e = Inr (Some t) \<Longrightarrow> \<exists>n. e = PStr n"
  by (auto simp: template_get_def split: pval.splits if_splits)

lemma chain_not_str: "(\<And>n. ext \<noteq> Some (PStr n)) \<Longrightarrow> chain T ext lst \<noteq> None"
  by (subst chain.simps)
    (force split: option.splits sum.splits dest: template_get_dict)

lemma chain_returns:
  assumes "templates_ranked T rank"
  shows "chain T ext lst \<noteq> None"
proof -
  have str: "chain T (Some (PStr n)) lst \<noteq> None" for n
  proof (induction "rank n" arbitrary: n lst rule: less_induct)
    case less
    show ?case
    proof (cases "\<exists>d m. n \<noteq> [] \<and> template_get T (PStr n) = Inr (Some (PDict d)) \<and>
        dget d ''!extends'' = Some (PStr m)")
      case True
      then obtain d m where dm: "n \<noteq> []" "template_get T (PStr n) = Inr (Some (PDict d))"
        "dget d ''!extends'' = Some (PStr m)" by blast
      then have "rank m < rank n" using assms by (simp add: templates_ranked_def)
      from less [OF this] dm show ?thesis by (subst chain.simps) simp
    next
      case False
      have d: "chain T (dget d ''!extends'') (d # lst) \<noteq> None"
        if "n \<noteq> []" "template_get T (PStr n) = Inr (Some (PDict d))" for d
        by (rule chain_not_str) (use False that in blast)
      show ?thesis
      proof (cases "n = []")
        case True
        then show ?thesis by (simp add: chain.simps [of T "Some (PStr [])"])
      next
        case ne: False
        show ?thesis
        proof (cases "template_get T (PStr n)")
          case (Inr t)
          with ne d show ?thesis
            by (cases t; cases "the t") (simp_all add: chain.simps [of T "Some (PStr n)"])
        qed (simp add: ne chain.simps [of T "Some (PStr n)"])
      qed
    qed
  qed
  show ?thesis
  proof (cases "\<exists>n. ext = Some (PStr n)")
    case True
    then obtain n where "ext = Some (PStr n)" by blast
    with str [of n] show ?thesis by simp
  next
    case False
    show ?thesis by (rule chain_not_str) (use False in blast)
  qed
qed

lemma expand_returns:
  assumes "templates_ranked T rank"
  shows "expand T v lvl \<noteq> None"
  using assms
proof (induction T v lvl rule: expand.induct)
  case (4 T d lvl)
  show ?case
  proof (cases "lvl > MAX_DEPTH")
    case False
    have "mapO (\<lambda>(k, v). bindO (expand T v (lvl + 1)) (\<lambda>v'. ok (k, v'))) (merge_chain lst) \<noteq> None"
      if c: "chain T (dget d ''!extends'') [d] = ok lst" for lst
    proof
      assume "mapO (\<lambda>(k, v). bindO (expand T v (lvl + 1)) (\<lambda>v'. ok (k, v'))) (merge_chain lst) = None"
      then obtain k v where "(k, v) \<in> set (merge_chain lst)" "expand T v (lvl + 1) = None"
        by (auto simp: res_simps dest!: mapO_None)
      with 4(1) [OF False c _ _ 4(2)] show False by blast
    qed
    moreover have "chain T (dget d ''!extends'') [d] \<noteq> None" by (rule chain_returns [OF 4(2)])
    ultimately show ?thesis
      using False by (auto simp: bindO_def split: option.splits sum.splits)
  qed simp
next
  case (2 T xs lvl)
  have "mapO (\<lambda>x. expand T x (lvl + 1)) xs \<noteq> None" if "\<not> lvl > MAX_DEPTH"
  proof
    assume "mapO (\<lambda>x. expand T x (lvl + 1)) xs = None"
    then obtain x where "x \<in> set xs" "expand T x (lvl + 1) = None" by (auto dest!: mapO_None)
    with 2(1) [OF that _ 2(2)] show False by blast
  qed
  then show ?case by (cases "lvl > MAX_DEPTH") (auto simp: bindO_def split: option.splits sum.splits)
next
  case (3 T xs lvl)
  have "mapO (\<lambda>x. expand T x (lvl + 1)) xs \<noteq> None" if "\<not> lvl > MAX_DEPTH"
  proof
    assume "mapO (\<lambda>x. expand T x (lvl + 1)) xs = None"
    then obtain x where "x \<in> set xs" "expand T x (lvl + 1) = None" by (auto dest!: mapO_None)
    with 3(1) [OF that _ 3(2)] show False by blast
  qed
  then show ?case by (cases "lvl > MAX_DEPTH") (auto simp: bindO_def split: option.splits sum.splits)
qed simp_all

section \<open>What expansion yields\<close>

text \<open>The first dict of a list that has the attribute.\<close>

fun first_attr :: "pval dict list \<Rightarrow> string \<Rightarrow> pval option" where
  "first_attr [] k = None"
| "first_attr (d # ds) k = (case dget d k of Some v \<Rightarrow> Some v | None \<Rightarrow> first_attr ds k)"

text \<open>Keys are distinct in every dict, as in Python.\<close>

fun pv_wf :: "pval \<Rightarrow> bool" where
  "pv_wf (PDict d) = (distinct (dkeys d) \<and> (\<forall>p \<in> set d. pv_wf (snd p)))"
| "pv_wf (PList xs) = (\<forall>x \<in> set xs. pv_wf x)"
| "pv_wf (PTuple xs) = (\<forall>x \<in> set xs. pv_wf x)"
| "pv_wf v = True"

fun no_extends :: "pval \<Rightarrow> bool" where
  "no_extends (PDict d) = (''!extends'' \<notin> set (dkeys d) \<and> (\<forall>p \<in> set d. no_extends (snd p)))"
| "no_extends (PList xs) = (\<forall>x \<in> set xs. no_extends x)"
| "no_extends (PTuple xs) = (\<forall>x \<in> set xs. no_extends x)"
| "no_extends v = True"

text \<open>Nesting depth; scalars and empty containers have depth 0.\<close>

fun depth_le :: "pval \<Rightarrow> nat \<Rightarrow> bool" where
  "depth_le (PDict d) n = (\<forall>p \<in> set d. n > 0 \<and> depth_le (snd p) (n - 1))"
| "depth_le (PList xs) n = (\<forall>x \<in> set xs. n > 0 \<and> depth_le x (n - 1))"
| "depth_le (PTuple xs) n = (\<forall>x \<in> set xs. n > 0 \<and> depth_le x (n - 1))"
| "depth_le v n = True"

lemma path_templates_wf:
  "extends_path T ext ds \<Longrightarrow> pv_wf T \<Longrightarrow> d \<in> set ds \<Longrightarrow> distinct (dkeys d)"
proof (induction rule: extends_path.induct)
  case (path_step e T d' ds)
  have "distinct (dkeys d')"
    using path_step(2,5)
    by (auto simp: template_get_def split: pval.splits if_splits dest!: map_of_SomeD)
  with path_step show ?case by auto
qed simp_all

lemma foldl_dupdate_get:
  "\<forall>d \<in> set lst. distinct (dkeys d) \<Longrightarrow> dget (foldl dupdate [] lst) k = first_attr (rev lst) k"
  by (induction lst rule: rev_induct) (auto simp: dupdate_get split: option.splits)

lemma merge_chain_get:
  "\<forall>d \<in> set lst. distinct (dkeys d) \<Longrightarrow>
    dget (merge_chain lst) k = (if k = ''!extends'' then None else first_attr (rev lst) k)"
  by (simp add: merge_chain_def dpop_get foldl_dupdate_get)

lemma foldl_dupdate_distinct: "distinct (dkeys (foldl dupdate d lst))" if "distinct (dkeys d)"
  using that by (induction lst arbitrary: d) (auto simp: dupdate_distinct)

lemma merge_chain_distinct: "distinct (dkeys (merge_chain lst))"
  using foldl_dupdate_distinct [of "[]" lst] dpop_distinct by (simp add: merge_chain_def)

text \<open>Mapping the values of a dict keeps its keys, in order.\<close>

lemma mapO_dict:
  assumes "mapO (\<lambda>(k, v). bindO (f v) (\<lambda>v'. ok (k, v'))) d = ok d'"
  shows "dkeys d' = dkeys d"
    "dget d' k = (case dget d k of None \<Rightarrow> None | Some v \<Rightarrow> (case f v of Some (Inr w) \<Rightarrow> Some w | _ \<Rightarrow> None))"
    "(k, w) \<in> set d' \<Longrightarrow> \<exists>v. (k, v) \<in> set d \<and> f v = ok w"
    "(k, v) \<in> set d \<Longrightarrow> \<exists>w. f v = ok w \<and> (k, w) \<in> set d'"
proof -
  have "list_all2 (\<lambda>(k, v) (k', v'). k = k' \<and> f v = ok v') d d'"
    using assms unfolding mapO_ok by (rule list_all2_mono) (auto simp: res_simps)
  then have "dkeys d' = dkeys d \<and>
      dget d' k = (case dget d k of None \<Rightarrow> None | Some v \<Rightarrow> (case f v of Some (Inr w) \<Rightarrow> Some w | _ \<Rightarrow> None)) \<and>
      ((k, w) \<in> set d' \<longrightarrow> (\<exists>v. (k, v) \<in> set d \<and> f v = ok w)) \<and>
      ((k, v) \<in> set d \<longrightarrow> (\<exists>w. f v = ok w \<and> (k, w) \<in> set d'))"
    by (induction rule: list_all2_induct) auto
  then show "dkeys d' = dkeys d"
    "dget d' k = (case dget d k of None \<Rightarrow> None | Some v \<Rightarrow> (case f v of Some (Inr w) \<Rightarrow> Some w | _ \<Rightarrow> None))"
    "(k, w) \<in> set d' \<Longrightarrow> \<exists>v. (k, v) \<in> set d \<and> f v = ok w"
    "(k, v) \<in> set d \<Longrightarrow> \<exists>w. f v = ok w \<and> (k, w) \<in> set d'"
    by blast+
qed

lemma mapO_list: "mapO f xs = ok ys \<Longrightarrow> y \<in> set ys \<Longrightarrow> \<exists>x \<in> set xs. f x = ok y"
  by (induction xs arbitrary: ys) (force simp: res_simps)+

lemma expand_no_extends: "expand T v lvl = ok w \<Longrightarrow> no_extends w"
proof (induction T v lvl arbitrary: w rule: expand.induct)
  case (4 T d lvl)
  then have le: "\<not> lvl > MAX_DEPTH" by (auto split: if_splits)
  with 4(2) obtain lst d' where c: "chain T (dget d ''!extends'') [d] = ok lst"
    and m: "mapO (\<lambda>(k, v). bindO (expand T v (lvl + 1)) (\<lambda>v'. ok (k, v'))) (merge_chain lst) = ok d'"
    and w: "w = PDict d'"
    by (auto simp: res_simps)
  have "''!extends'' \<notin> set (dkeys (merge_chain lst))" by (simp add: merge_chain_def dict_simps)
  moreover have "no_extends v'" if kv: "(k, v') \<in> set d'" for k v'
  proof -
    obtain v where v: "(k, v) \<in> set (merge_chain lst)" "expand T v (lvl + 1) = ok v'"
      using mapO_dict(3) [OF m kv] by blast
    from 4(1) [OF le c v(1) refl v(2)] show ?thesis .
  qed
  ultimately show ?case using mapO_dict(1) [OF m] w by (force simp: image_iff)
qed (force simp: res_simps split: if_splits dest: mapO_list)+

lemma expand_depth: "expand T v lvl = ok w \<Longrightarrow> depth_le w (MAX_DEPTH - lvl) \<and> lvl \<le> MAX_DEPTH"
proof (induction T v lvl arbitrary: w rule: expand.induct)
  case (2 T xs lvl)
  then show ?case by (force simp: res_simps split: if_splits dest: mapO_list)
next
  case (3 T xs lvl)
  then show ?case by (force simp: res_simps split: if_splits dest: mapO_list)
next
  case (4 T d lvl)
  then have le: "\<not> lvl > MAX_DEPTH" by (auto split: if_splits)
  with 4(2) obtain lst d' where c: "chain T (dget d ''!extends'') [d] = ok lst"
    and m: "mapO (\<lambda>(k, v). bindO (expand T v (lvl + 1)) (\<lambda>v'. ok (k, v'))) (merge_chain lst) = ok d'"
    and w: "w = PDict d'"
    by (auto simp: res_simps)
  have "depth_le v' (MAX_DEPTH - (lvl + 1)) \<and> lvl + 1 \<le> MAX_DEPTH" if kv: "(k, v') \<in> set d'" for k v'
  proof -
    obtain v where v: "(k, v) \<in> set (merge_chain lst)" "expand T v (lvl + 1) = ok v'"
      using mapO_dict(3) [OF m kv] by blast
    from 4(1) [OF le c v(1) refl v(2)] show ?thesis .
  qed
  then have "\<forall>p \<in> set d'. MAX_DEPTH - lvl > 0 \<and> depth_le (snd p) (MAX_DEPTH - lvl - 1)"
    by (auto simp: Suc_le_eq)
  with w le show ?case by simp
qed (auto split: if_splits)

lemma expand_attr:
  assumes "expand T (PDict d) lvl = ok (PDict d')" "pv_wf T" "pv_wf (PDict d)"
    "extends_path T (dget d ''!extends'') ds" "k \<noteq> ''!extends''"
  shows "case first_attr (d # ds) k of None \<Rightarrow> dget d' k = None
    | Some v \<Rightarrow> \<exists>v'. expand T v (lvl + 1) = ok v' \<and> dget d' k = Some v'"
proof -
  from assms(1,4) have m: "mapO (\<lambda>(k, v). bindO (expand T v (lvl + 1)) (\<lambda>v'. ok (k, v')))
      (merge_chain (rev ds @ [d])) = ok d'"
    by (auto simp: res_simps extends_path_chain split: if_splits)
  have "\<forall>x \<in> set (rev ds @ [d]). distinct (dkeys x)"
    using assms(3) path_templates_wf [OF assms(4,2)] by auto
  then have g: "dget (merge_chain (rev ds @ [d])) k = first_attr (d # ds) k"
    using assms(5) by (simp only: merge_chain_get if_False rev_append rev_rev_ident append.simps rev.simps)
  show ?thesis
  proof (cases "first_attr (d # ds) k")
    case None
    then show ?thesis using mapO_dict(2) [OF m, of k] g by simp
  next
    case (Some v)
    then have "(k, v) \<in> set (merge_chain (rev ds @ [d]))" using g by (auto dest: map_of_SomeD)
    then obtain w where w: "expand T v (lvl + 1) = ok w" using mapO_dict(4) [OF m] by blast
    then show ?thesis using mapO_dict(2) [OF m, of k] g Some by simp
  qed
qed

text \<open>A value that extends nothing and is not too deep expands to itself.\<close>

lemma expand_id:
  "no_extends v \<Longrightarrow> none_free v \<Longrightarrow> pv_wf v \<Longrightarrow> lvl \<le> MAX_DEPTH \<Longrightarrow> depth_le v (MAX_DEPTH - lvl) \<Longrightarrow>
    expand T v lvl = ok v"
proof (induction T v lvl rule: expand.induct)
  case (2 T xs lvl)
  have "mapO (\<lambda>x. expand T x (lvl + 1)) xs = ok (map (\<lambda>x. x) xs)"
    by (rule mapO_ok_map) (use 2 in \<open>fastforce simp: Suc_le_eq\<close>)
  with 2 show ?case by simp
next
  case (3 T xs lvl)
  have "mapO (\<lambda>x. expand T x (lvl + 1)) xs = ok (map (\<lambda>x. x) xs)"
    by (rule mapO_ok_map) (use 3 in \<open>fastforce simp: Suc_le_eq\<close>)
  with 3 show ?case by simp
next
  case (4 T d lvl)
  have n: "dget d ''!extends'' = None" using 4(2) by (simp add: map_of_eq_None_iff)
  have c: "chain T (dget d ''!extends'') [d] = ok [d]" by (simp add: n chain.simps)
  have mc: "merge_chain [d] = d"
    using 4(2,4) by (simp add: merge_chain_def dupdate_Nil_id dpop_absent)
  have le: "\<not> lvl > MAX_DEPTH" using 4(5) by simp
  have "expand T v (lvl + 1) = ok v" if kv: "(k, v) \<in> set d" for k v
    using 4(1) [OF le c, unfolded mc, OF kv refl] 4(2,3,4,6) kv by (force simp: Suc_le_eq)
  then have "mapO (\<lambda>(k, v). bindO (expand T v (lvl + 1)) (\<lambda>v'. ok (k, v'))) d = ok (map (\<lambda>x. x) d)"
    by (intro mapO_ok_map) auto
  with le c mc show ?case by simp
qed simp_all

section \<open>What substitution yields\<close>

lemma var_sub_Nil: "var_sub V [] = Inr []"
  by (simp add: var_sub.simps)

lemma var_sub_lit:
  "CHR ''%'' \<notin> set p \<Longrightarrow> var_sub V (p @ s) = bindE (var_sub V s) (\<lambda>t. Inr (p @ t))"
proof (induction p)
  case Nil
  then show ?case by (simp add: bindE_def split: sum.splits)
next
  case (Cons c p)
  then show ?case by (simp add: var_sub.simps(2) bindE_def split: sum.splits)
qed

lemma pct_not_var: "\<not> var_char CHR ''%''"
  by (simp add: var_char_def)

lemma var_sub_ref:
  assumes "list_all var_char x" "dget V x = Some v"
  shows "var_sub V (CHR ''%'' # x @ CHR ''%'' # s) = bindE (var_sub V s) (\<lambda>t. Inr (prim_str v @ t))"
proof -
  have "takeWhile var_char (x @ CHR ''%'' # s) = x" "dropWhile var_char (x @ CHR ''%'' # s) = CHR ''%'' # s"
    using assms(1) pct_not_var by (induction x) auto
  then show ?thesis using assms(2) by (simp add: var_sub.simps(2) Let_def)
qed

text \<open>Strings as literals and references; the value of every variable is given by its pieces.\<close>

datatype piece = Lit string | Ref string

fun piece_str :: "piece \<Rightarrow> string" where
  "piece_str (Lit s) = s"
| "piece_str (Ref x) = CHR ''%'' # x @ ''%''"

definition pieces_str :: "piece list \<Rightarrow> string" where
  "pieces_str ps = concat (map piece_str ps)"

fun piece_wf :: "piece \<Rightarrow> bool" where
  "piece_wf (Lit s) = (CHR ''%'' \<notin> set s)"
| "piece_wf (Ref x) = list_all var_char x"

text \<open>\<open>D\<close> gives the pieces of the variables; each refers to variables of smaller rank only.\<close>

definition vars_ranked :: "pval dict \<Rightarrow> (string \<Rightarrow> piece list) \<Rightarrow> (string \<Rightarrow> nat) \<Rightarrow> string set \<Rightarrow> bool" where
  "vars_ranked V D rank X \<longleftrightarrow> (\<forall>x \<in> X. (\<exists>v. dget V x = Some v \<and> prim_str v = pieces_str (D x)) \<and>
     (\<forall>p \<in> set (D x). piece_wf p) \<and> (\<forall>y. Ref y \<in> set (D x) \<longrightarrow> y \<in> X \<and> rank y < rank x))"

fun inline1 :: "(string \<Rightarrow> piece list) \<Rightarrow> piece \<Rightarrow> piece list" where
  "inline1 D (Lit s) = [Lit s]"
| "inline1 D (Ref x) = D x"

definition inline :: "(string \<Rightarrow> piece list) \<Rightarrow> piece list \<Rightarrow> piece list" where
  "inline D ps = concat (map (inline1 D) ps)"

text \<open>Substitution by recursion: a reference stands for its value, substituted in turn.\<close>

fun resolve :: "nat \<Rightarrow> (string \<Rightarrow> piece list) \<Rightarrow> piece list \<Rightarrow> string" where
  "resolve n D [] = []"
| "resolve n D (Lit s # ps) = s @ resolve n D ps"
| "resolve 0 D (Ref x # ps) = resolve 0 D ps"
| "resolve (Suc n) D (Ref x # ps) = resolve n D (D x) @ resolve (Suc n) D ps"

definition pieces_ok :: "(string \<Rightarrow> nat) \<Rightarrow> string set \<Rightarrow> nat \<Rightarrow> piece list \<Rightarrow> bool" where
  "pieces_ok rank X n ps \<longleftrightarrow> (\<forall>p \<in> set ps. piece_wf p) \<and> (\<forall>x. Ref x \<in> set ps \<longrightarrow> x \<in> X \<and> rank x < n)"

lemma var_sub_pieces:
  assumes "vars_ranked V D rank X"
  shows "pieces_ok rank X n ps \<Longrightarrow> var_sub V (pieces_str ps) = Inr (pieces_str (inline D ps))"
proof (induction ps)
  case Nil
  show ?case by (simp add: pieces_str_def inline_def var_sub_Nil)
next
  case (Cons p ps)
  then have IH: "var_sub V (pieces_str ps) = Inr (pieces_str (inline D ps))"
    by (simp add: pieces_ok_def)
  show ?case
  proof (cases p)
    case (Lit s)
    with Cons.prems IH show ?thesis
      by (simp add: pieces_str_def pieces_ok_def inline_def var_sub_lit)
  next
    case (Ref x)
    with Cons.prems have "list_all var_char x" "x \<in> X" by (auto simp: pieces_ok_def)
    moreover obtain v where v: "dget V x = Some v" "prim_str v = pieces_str (D x)"
      using assms \<open>x \<in> X\<close> by (auto simp: vars_ranked_def)
    ultimately show ?thesis
      using IH Ref var_sub_ref [of x V v "pieces_str ps"]
      by (simp add: pieces_str_def inline_def)
  qed
qed

lemma inline_ok:
  assumes "vars_ranked V D rank X" "pieces_ok rank X (Suc n) ps"
  shows "pieces_ok rank X n (inline D ps)"
proof -
  have "piece_wf q \<and> (\<forall>y. q = Ref y \<longrightarrow> y \<in> X \<and> rank y < n)"
    if "p \<in> set ps" "q \<in> set (inline1 D p)" for p q
  proof (cases p)
    case (Lit s)
    with that assms(2) show ?thesis by (auto simp: pieces_ok_def)
  next
    case (Ref x)
    then have "x \<in> X" "rank x < Suc n" using that(1) assms(2) by (auto simp: pieces_ok_def)
    with assms(1) Ref that(2) show ?thesis unfolding vars_ranked_def by fastforce
  qed
  then show ?thesis by (fastforce simp: pieces_ok_def inline_def)
qed

lemma resolve_append: "resolve n D (ps @ qs) = resolve n D ps @ resolve n D qs"
  by (induction n D ps rule: resolve.induct) auto

lemma resolve_inline: "resolve (Suc n) D ps = resolve n D (inline D ps)"
proof (induction ps)
  case (Cons p ps)
  have "resolve (Suc n) D (p # ps) = resolve n D (inline1 D p) @ resolve (Suc n) D ps"
    by (cases p) (simp_all add: resolve_append)
  also have "\<dots> = resolve n D (inline D (p # ps))"
    unfolding Cons by (simp add: inline_def resolve_append)
  finally show ?case .
qed (simp add: inline_def)

lemma resolve_0: "pieces_ok rank X 0 ps \<Longrightarrow> resolve 0 D ps = pieces_str ps \<and> inline D ps = ps"
proof (induction ps)
  case (Cons p ps)
  then show ?case by (cases p) (auto simp: pieces_ok_def pieces_str_def inline_def)
qed (simp add: pieces_str_def inline_def)

text \<open>The loop stops at the first repetition; further passes would change nothing.\<close>

lemma subst_loop_ranked:
  assumes V: "vars_ranked V D rank X" and c: "c \<le> 128"
  shows "pieces_ok rank X n ps \<Longrightarrow>
    subst_loop V c (pieces_str ps) (pieces_str (inline D ps)) = ok (resolve n D ps)"
proof (induction n arbitrary: ps)
  case 0
  then show ?case by (subst subst_loop.simps) (simp add: resolve_0)
next
  case (Suc n)
  let ?qs = "inline D ps"
  have qs: "pieces_ok rank X n ?qs" by (rule inline_ok [OF V Suc.prems])
  have sub: "var_sub V (pieces_str ?qs) = Inr (pieces_str (inline D ?qs))"
    by (rule var_sub_pieces [OF V qs])
  have IH: "subst_loop V c (pieces_str ?qs) (pieces_str (inline D ?qs)) = ok (resolve n D ?qs)"
    by (rule Suc.IH [OF qs])
  show ?case
  proof (cases "pieces_str ps = pieces_str ?qs")
    case False
    then show ?thesis
      using IH sub c by (subst subst_loop.simps) (simp add: resolve_inline)
  next
    case True
    have "var_sub V (pieces_str ps) = Inr (pieces_str ?qs)"
      by (rule var_sub_pieces [OF V Suc.prems])
    with sub True have "pieces_str ?qs = pieces_str (inline D ?qs)" by simp
    with IH have "resolve n D ?qs = pieces_str ?qs" by (subst (asm) subst_loop.simps) simp
    with True show ?thesis by (subst subst_loop.simps) (simp add: resolve_inline)
  qed
qed

lemma subst_str_ranked:
  assumes V: "vars_ranked V D rank X" and ps: "pieces_ok rank X n ps"
  shows "subst_str V (pieces_str ps) = ok (resolve n D ps)"
proof (cases n)
  case 0
  with ps have r: "resolve n D ps = pieces_str ps" "inline D ps = ps" by (auto dest: resolve_0)
  have "var_sub V (pieces_str ps) = Inr (pieces_str ps)" using var_sub_pieces [OF V ps] r by simp
  then show ?thesis using r by (simp add: subst_str_def subst_loop.simps)
next
  case (Suc m)
  note qs = inline_ok [OF V ps [unfolded Suc]]
  have "subst_str V (pieces_str ps) = subst_loop V 0 (pieces_str (inline D ps)) (pieces_str (inline D (inline D ps)))"
    using var_sub_pieces [OF V ps] var_sub_pieces [OF V qs] by (simp add: subst_str_def)
  also have "\<dots> = ok (resolve m D (inline D ps))"
    by (rule subst_loop_ranked [OF V _ qs]) simp
  finally show ?thesis by (simp add: Suc resolve_inline)
qed

text \<open>A result is a fixed point of the substitution, and the level check never fires.\<close>

lemma var_sub_err: "var_sub V s = Inl e \<Longrightarrow> \<exists>x. e = KeyError (PStr x)"
proof (induction V s arbitrary: e rule: var_sub.induct)
  case (2 V d cs)
  then show ?case
    by (auto simp: var_sub.simps(2) [of V d cs] Let_def res_simps split: if_splits option.splits)
qed (simp add: var_sub_Nil)

lemma subst_loop_result:
  assumes "subst_loop V c s0 s1 = Some r"
  shows "c = 0 \<longrightarrow> var_sub V s0 = Inr s1 \<longrightarrow>
    (case r of Inr t \<Rightarrow> var_sub V t = Inr t | Inl e \<Rightarrow> \<exists>x. e = KeyError (PStr x))"
proof (rule subst_loop.raw_induct [where P = "\<lambda>V c s0 s1 r. c = 0 \<longrightarrow> var_sub V s0 = Inr s1 \<longrightarrow>
    (case r of Inr t \<Rightarrow> var_sub V t = Inr t | Inl e \<Rightarrow> \<exists>x. e = KeyError (PStr x))", OF _ assms], goal_cases)
  case (1 lp V c s0 s1 r)
  note err = var_sub_err
  show ?case
  proof (intro impI)
    assume c: "c = 0" and s1: "var_sub V s0 = Inr s1"
    show "case r of Inr t \<Rightarrow> var_sub V t = Inr t | Inl e \<Rightarrow> \<exists>x. e = KeyError (PStr x)"
    proof (cases "s0 = s1")
      case True
      with 1(2) s1 show ?thesis by auto
    next
      case False
      show ?thesis
      proof (cases "var_sub V s1")
        case (Inl e)
        with 1(2) False c err [OF Inl] show ?thesis by auto
      next
        case (Inr s2)
        with 1(2) False c have "lp V c s1 s2 = Some r" by simp
        from 1(1) [OF this] c Inr show ?thesis by blast
      qed
    qed
  qed
qed


text \<open>A variable whose value contains itself: every pass makes the string longer.\<close>

definition grown :: "string \<Rightarrow> string \<Rightarrow> string \<Rightarrow> nat \<Rightarrow> string" where
  "grown p x q n = concat (replicate n p) @ CHR ''%'' # x @ CHR ''%'' # concat (replicate n q)"

lemma concat_replicate_swap: "concat (replicate n p) @ p = p @ concat (replicate n p)"
  by (induction n) auto

lemma var_sub_grown:
  assumes "list_all var_char x" "dget V x = Some (PStr (p @ CHR ''%'' # x @ CHR ''%'' # q))"
    "CHR ''%'' \<notin> set p" "CHR ''%'' \<notin> set q"
  shows "var_sub V (grown p x q n) = Inr (grown p x q (Suc n))"
proof -
  have "CHR ''%'' \<notin> set (concat (replicate n p))" "CHR ''%'' \<notin> set (concat (replicate n q))"
    using assms(3,4) by auto
  moreover from this(2) have "var_sub V (concat (replicate n q)) = Inr (concat (replicate n q))"
    using var_sub_lit [of "concat (replicate n q)" V "[]"] by (simp add: var_sub_Nil)
  ultimately show ?thesis
    using assms(1,2) concat_replicate_swap [of n p]
    by (simp add: grown_def var_sub_lit var_sub_ref prim_str_def)
qed

lemma subst_loop_grown:
  assumes "subst_loop V c s0 s1 = Some r"
  shows "c = 0 \<longrightarrow> (\<forall>n. var_sub V (g n) = Inr (g (Suc n)) \<and> g n \<noteq> g (Suc n)) \<longrightarrow>
    (\<forall>n. \<not> (s0 = g n \<and> s1 = g (Suc n)))"
proof (rule subst_loop.raw_induct [where P = "\<lambda>V c s0 s1 r. c = 0 \<longrightarrow>
    (\<forall>n. var_sub V (g n) = Inr (g (Suc n)) \<and> g n \<noteq> g (Suc n)) \<longrightarrow>
    (\<forall>n. \<not> (s0 = g n \<and> s1 = g (Suc n)))", OF _ assms], goal_cases)
  case (1 lp V c s0 s1 r)
  show ?case
  proof (intro impI allI notI)
    fix n assume c: "c = 0" and g: "\<forall>n. var_sub V (g n) = Inr (g (Suc n)) \<and> g n \<noteq> g (Suc n)"
      and s: "s0 = g n \<and> s1 = g (Suc n)"
    with 1(2) have "lp V c s1 (g (Suc (Suc n))) = Some r" by simp
    from 1(1) [OF this] c g s show False by blast
  qed
qed

lemma expand_wf: "expand T v lvl = ok w \<Longrightarrow> pv_wf w \<and> none_free w"
proof (induction T v lvl arbitrary: w rule: expand.induct)
  case (4 T d lvl)
  then have le: "\<not> lvl > MAX_DEPTH" by (auto split: if_splits)
  with 4(2) obtain lst d' where c: "chain T (dget d ''!extends'') [d] = ok lst"
    and m: "mapO (\<lambda>(k, v). bindO (expand T v (lvl + 1)) (\<lambda>v'. ok (k, v'))) (merge_chain lst) = ok d'"
    and w: "w = PDict d'"
    by (auto simp: res_simps)
  have "pv_wf v' \<and> none_free v'" if kv: "(k, v') \<in> set d'" for k v'
  proof -
    obtain v where v: "(k, v) \<in> set (merge_chain lst)" "expand T v (lvl + 1) = ok v'"
      using mapO_dict(3) [OF m kv] by blast
    from 4(1) [OF le c v(1) refl v(2)] show ?thesis .
  qed
  then show ?case using merge_chain_distinct [of lst] w by (auto simp: mapO_dict(1) [OF m])
qed (force simp: res_simps split: if_splits dest: mapO_list)+

section \<open>Properties\<close>

text \<open>
  C6: the attributes of an expanded object. An attribute has the (expanded) value of the
  object itself if the object has it, else of the nearest template on its path of
  \<open>!extends\<close> references that has it; an attribute that neither has is absent.
\<close>

theorem nearest_definition_wins:
  assumes "expand T (PDict d) lvl = ok (PDict d')" "pv_wf T" "pv_wf (PDict d)"
    "extends_path T (dget d ''!extends'') ds" "k \<noteq> ''!extends''"
  shows "case first_attr (d # ds) k of None \<Rightarrow> dget d' k = None
    | Some v \<Rightarrow> \<exists>v'. expand T v (lvl + 1) = ok v' \<and> dget d' k = Some v'"
  by (rule expand_attr [OF assms])

definition demo_templates :: pval where
  "demo_templates = PDict
     [(''prog-base'', PDict [(''path'', PStr ''/bin/%prog%''), (''user'', PStr ''root'')]),
      (''prog-sbin'', PDict [(''!extends'', PStr ''prog-base''), (''path'', PStr ''/sbin/%prog%'')])]"

lemma demo_templates_eval:
  "template_get demo_templates (PStr ''prog-sbin'') =
     Inr (Some (PDict [(''!extends'', PStr ''prog-base''), (''path'', PStr ''/sbin/%prog%'')]))"
  "template_get demo_templates (PStr ''prog-base'') =
     Inr (Some (PDict [(''path'', PStr ''/bin/%prog%''), (''user'', PStr ''root'')]))"
  "template_get demo_templates (PStr n) \<noteq> Inr None \<Longrightarrow> n = ''prog-sbin'' \<or> n = ''prog-base''"
  by (auto simp: demo_templates_def template_get_def split: if_splits)

lemma demo_path: "extends_path demo_templates (Some (PStr ''prog-sbin''))
    [[(''!extends'', PStr ''prog-base''), (''path'', PStr ''/sbin/%prog%'')],
     [(''path'', PStr ''/bin/%prog%''), (''user'', PStr ''root'')]]"
  by (auto intro!: extends_path.intros simp: demo_templates_eval)

lemma demo_expand:
  "expand demo_templates (PDict [(''prog'', PStr ''sshd''), (''!extends'', PStr ''prog-sbin'')]) 0 =
    ok (PDict [(''path'', PStr ''/sbin/%prog%''), (''user'', PStr ''root''), (''prog'', PStr ''sshd'')])"
  using extends_path_chain [OF demo_path, of "[[(''prog'', PStr ''sshd''), (''!extends'', PStr ''prog-sbin'')]]"]
  by (simp add: MAX_DEPTH_def res_simps merge_chain_def dict_simps dpop_def dupdate_Cons dupdate_Nil)

theorem nearest_definition_wins_witness:
  "\<exists>v'. expand demo_templates (PStr ''/sbin/%prog%'') 1 = ok v' \<and>
    dget [(''path'', PStr ''/sbin/%prog%''), (''user'', PStr ''root''), (''prog'', PStr ''sshd'')] ''path'' = Some v'"
  using nearest_definition_wins [OF demo_expand _ _, of _ "''path''"] demo_path
  by (simp add: demo_templates_def MAX_DEPTH_def)

text \<open>
  What an expanded value is. It has no \<open>!extends\<close> left and is at most 64 levels deep
  (65 raise \<open>RuntimeError\<close>), and expanding it again, with any templates, changes nothing.
\<close>

lemma expansion_is_normal:
  assumes "expand T v 0 = ok w"
  shows "no_extends w \<and> depth_le w 64 \<and> expand T' w 0 = ok w"
  using expand_no_extends [OF assms] expand_depth [OF assms] expand_wf [OF assms] expand_id [of w 0 T']
  by (simp add: MAX_DEPTH_def)

lemma expansion_is_normal_instance:
  "expand (PDict []) (PDict [(''path'', PStr ''/sbin/%prog%''), (''user'', PStr ''root''), (''prog'', PStr ''sshd'')]) 0
    = ok (PDict [(''path'', PStr ''/sbin/%prog%''), (''user'', PStr ''root''), (''prog'', PStr ''sshd'')])"
  using expansion_is_normal [OF demo_expand] by blast

text \<open>
  C36: when expansion ends. With templates whose \<open>!extends\<close> references descend in some
  rank, expansion always ends, with a value or an exception; an object that extends into a
  set of templates closed under \<open>!extends\<close> (a cycle) makes the walk run forever: the depth
  limit does not count it.
\<close>

theorem expansion_ends_if_ranked:
  assumes "templates_ranked T rank" "extends_closed T' S" "n \<in> S" "dget d ''!extends'' = Some (PStr n)"
  shows "expand T v lvl \<noteq> None \<and> expand T' (PDict d) 0 = None"
  using expand_returns [OF assms(1)] chain_closed_diverges [OF assms(2,3)] assms(4)
  by (simp add: MAX_DEPTH_def res_simps)

definition cyclic_templates :: pval where
  "cyclic_templates = PDict [(''a'', PDict [(''!extends'', PStr ''b'')]), (''b'', PDict [(''!extends'', PStr ''a'')])]"

theorem expansion_ends_if_ranked_witness:
  "expand demo_templates (PDict [(''!extends'', PStr ''prog-sbin'')]) 0 \<noteq> None \<and>
   expand cyclic_templates (PDict [(''!extends'', PStr ''a'')]) 0 = None"
proof (rule expansion_ends_if_ranked [where n = "''a''"])
  show "templates_ranked demo_templates (\<lambda>n. if n = ''prog-sbin'' then 1 else 0)"
    by (auto simp: templates_ranked_def template_get_def demo_templates_def split: if_splits)
  show "extends_closed cyclic_templates {''a'', ''b''}"
    by (simp add: extends_closed_def cyclic_templates_def template_get_def)
qed simp_all

text \<open>
  C37: substitution of variables that refer to each other without a cycle. However many passes
  the loop makes, the result is the recursive one: every reference is replaced by the value
  of its variable with the references in it replaced in turn.
\<close>

theorem substitution_resolves:
  assumes "vars_ranked V D rank X" "pieces_ok rank X n ps"
  shows "subst V (PStr (pieces_str ps)) = ok (PStr (resolve n D ps))"
  by (simp add: subst_str_ranked [OF assms] res_simps)

definition demo_vars :: "pval dict" where
  "demo_vars = start_vars [(''prog'', PStr ''ssh''), (''bin'', PStr ''/bin/%prog%''), (''port'', PInt 22)]"

definition demo_pieces :: "string \<Rightarrow> piece list" where
  "demo_pieces x = (if x = ''bin'' then [Lit ''/bin/'', Ref ''prog''] else if x = ''prog'' then [Lit ''ssh'']
     else [Lit ''22''])"

theorem substitution_resolves_witness:
  "subst demo_vars (PStr ''%bin%:%port%'') = ok (PStr ''/bin/ssh:22'')"
proof -
  have "vars_ranked demo_vars demo_pieces (\<lambda>x. if x = ''bin'' then 1 else 0) {''bin'', ''prog'', ''port''}"
    by (auto simp: vars_ranked_def demo_vars_def start_vars_def prims_def is_prim_def demo_pieces_def
        pieces_str_def prim_str_def var_char_def str_int_def str_nat_def digits_of.simps)
  from substitution_resolves [OF this, of 2 "[Ref ''bin'', Lit '':'', Ref ''port'']"]
  show ?thesis
    by (simp add: pieces_ok_def pieces_str_def demo_pieces_def var_char_def numeral_2_eq_2)
qed

text \<open>
  The guard against endless substitution is dead. The counter of \<open>_subst_str\<close> is compared
  with 128 but never increased: \<open>ValueError\<close> is never raised. What substitution can do is
  return a string that a further pass leaves as it is, raise \<open>KeyError\<close> for an unknown
  variable, or not end.
\<close>

lemma level_check_never_fires:
  assumes "subst_str V s = Some r"
  shows "case r of Inr t \<Rightarrow> var_sub V t = Inr t | Inl e \<Rightarrow> \<exists>x. e = KeyError (PStr x)"
proof (cases "var_sub V s")
  case (Inr s0)
  show ?thesis
  proof (cases "var_sub V s0")
    case (Inl e)
    with assms Inr var_sub_err [OF Inl] show ?thesis by (auto simp: subst_str_def)
  next
    case s1: (Inr s1)
    with assms Inr have "subst_loop V 0 s0 s1 = Some r" by (simp add: subst_str_def)
    from subst_loop_result [OF this] s1 show ?thesis by simp
  qed
next
  case (Inl e)
  with assms var_sub_err [OF Inl] show ?thesis by (auto simp: subst_str_def)
qed

lemma level_check_never_fires_instance:
  "var_sub [(''a'', PInt 1)] ''x1'' = Inr ''x1''"
proof -
  have "subst_str [(''a'', PInt 1)] ''x%a%'' = ok ''x1''"
    by (simp add: subst_str_def var_sub.simps Let_def var_char_def prim_str_def str_int_def str_nat_def
        digits_of.simps subst_loop.simps res_simps)
  from level_check_never_fires [OF this] show ?thesis by simp
qed

text \<open>
  A variable whose value mentions itself, as \<open>"path": "%path%:/opt"\<close> does in the object
  that defines it, makes the substitution grow the string forever: no value and no exception.
\<close>

lemma self_reference_hangs:
  assumes "list_all var_char x" "dget V x = Some (PStr (p @ CHR ''%'' # x @ CHR ''%'' # q))"
    "CHR ''%'' \<notin> set p" "CHR ''%'' \<notin> set q" "p @ q \<noteq> []"
  shows "subst V (PStr (CHR ''%'' # x @ ''%'')) = None"
proof -
  note step = var_sub_grown [OF assms(1-4)]
  have len: "length (grown p x q (Suc n)) = length (grown p x q n) + length (p @ q)" for n
    by (simp add: grown_def)
  have ne: "grown p x q n \<noteq> grown p x q (Suc n)" for n
    using len [of n] assms(5) by (cases "grown p x q n = grown p x q (Suc n)") auto
  have "subst_loop V 0 (grown p x q 1) (grown p x q (Suc 1)) = None"
  proof (cases "subst_loop V 0 (grown p x q 1) (grown p x q (Suc 1))")
    case (Some r)
    from subst_loop_grown [OF this, of "grown p x q"] step ne show ?thesis by blast
  qed
  moreover have "CHR ''%'' # x @ ''%'' = grown p x q 0" by (simp add: grown_def)
  ultimately show ?thesis using step by (simp add: subst_str_def res_simps)
qed

lemma self_reference_hangs_instance:
  "subst [(''path'', PStr ''%path%:/opt'')] (PStr ''%path%'') = None"
  using self_reference_hangs [of "''path''" "[(''path'', PStr ''%path%:/opt'')]" "[]" "'':/opt''"]
  by (simp add: var_char_def)

end
