(* ===== verification/Qgroup.thy ===== *)
theory Qgroup
  imports Complex_Main Prelude
begin

text \<open>
  \<open>python/ldms_qgroup_common.py\<close>: the sliding-window throughput of the quota-group test
  applications (a chain of deques, one per window length, each entry moving down the chain as
  it ages) and the connection state machine of \<open>Prdcr\<close>. Times and window lengths are
  rationals; the rounding of the float sum \<open>t + self.sec\<close> is not modelled.
\<close>

section \<open>StreamTally\<close>

text \<open>What the code reads of an \<open>ldms.StreamData\<close>; \<open>sd_src\<close> is \<open>str(data.src)\<close>.\<close>

record stream_data =
  sd_name :: string
  sd_data :: string
  sd_src :: string

type_synonym entry = "rat \<times> int \<times> string \<times> stream_data"

abbreviation e_time :: "entry \<Rightarrow> rat" where "e_time e \<equiv> fst e"
abbreviation e_load :: "entry \<Rightarrow> int" where "e_load e \<equiv> fst (snd e)"
abbreviation e_src :: "entry \<Rightarrow> string" where "e_src e \<equiv> fst (snd (snd e))"

record tally =
  sec :: rat
  dq :: "entry list"
  tallies :: "int dict"
  total :: int

text \<open>A tally with its chain of \<open>next_tally\<close> is the list that starts with it.\<close>

definition new_tally :: "rat \<Rightarrow> tally" where
  "new_tally s = \<lparr>sec = s, dq = [], tallies = [], total = 0\<rparr>"

definition tally_inc :: "string \<Rightarrow> int \<Rightarrow> tally \<Rightarrow> tally" where
  "tally_inc src v T =
     (let tb = dsetdefault src 0 (tallies T) in
      T\<lparr>tallies := dset src (dget_or tb src 0 + v) tb, total := total T + v\<rparr>)"

text \<open>The loop of \<open>tally_prune\<close> on one tally, with what it hands to the next one.\<close>

function prune_while :: "rat \<Rightarrow> tally \<Rightarrow> entry list \<Rightarrow> tally \<times> entry list" where
  "prune_while ts T out =
     (case dq T of
        [] \<Rightarrow> (T, out)
      | (t, l, s, d) # q \<Rightarrow>
          if t + sec T \<ge> ts then (T, out)
          else prune_while ts (tally_inc s (- l) (T\<lparr>dq := q\<rparr>)) (out @ [(t, l, s, d)]))"
  by pat_completeness auto
termination
  by (relation "measure (\<lambda>(ts, T, out). length (dq T))") (auto simp: tally_inc_def Let_def)

declare prune_while.simps [simp del]

lemma tally_inc_fields [simp]:
  "sec (tally_inc s v T) = sec T" "dq (tally_inc s v T) = dq T" "sec \<circ> tally_inc s v = sec"
  by (simp_all add: tally_inc_def Let_def fun_eq_iff)

function tally_prune :: "rat \<Rightarrow> tally list \<Rightarrow> tally list" where
  "tally_prune ts [] = []"
| "tally_prune ts [T] = [fst (prune_while ts T [])]"
| "tally_prune ts (T # N # Ts) =
     (let (T', moved) = prune_while ts T [] in T' # tally_prune ts (N\<lparr>dq := dq N @ moved\<rparr> # Ts))"
  by pat_completeness auto
termination
  by (relation "measure (\<lambda>(ts, Ts). length Ts)") auto

definition load_of :: "stream_data \<Rightarrow> int" where
  "load_of d = int (length (sd_name d)) + int (length (sd_data d))"

text \<open>\<open>now\<close> is what \<open>time.time()\<close> returns. Without a tally there is no object to call.\<close>

definition tally_add_data :: "rat \<Rightarrow> stream_data \<Rightarrow> tally list \<Rightarrow> tally list" where
  "tally_add_data now d Ts =
     (case Ts of
        [] \<Rightarrow> []
      | T # Ns \<Rightarrow>
          (let src = sd_src d; ld = load_of d;
               T1 = tally_inc src ld (T\<lparr>dq := dq T @ [(now, ld, src, d)]\<rparr>)
           in tally_prune now (T1 # map (tally_inc src ld) Ns)))"

section \<open>StreamThroughput\<close>

definition throughput_init :: "rat list \<Rightarrow> tally list res" where
  "throughput_init secs =
     (let Ts = map new_tally (sort secs) in if Ts = [] then Inl IndexError else Inr Ts)"

definition throughput_add :: "rat \<Rightarrow> stream_data \<Rightarrow> tally list \<Rightarrow> tally list" where
  "throughput_add now d Ts = tally_add_data now d Ts"

definition throughput_prune :: "rat \<Rightarrow> tally list \<Rightarrow> tally list" where
  "throughput_prune ts Ts = tally_prune ts Ts"

definition throughput_summary :: "tally list \<Rightarrow> (rat \<times> int) list" where
  "throughput_summary Ts = map (\<lambda>T. (sec T, total T)) Ts"

definition throughput_details :: "tally list \<Rightarrow> (rat \<times> int \<times> int dict) list" where
  "throughput_details Ts = fold (\<lambda>T. AList.update (sec T) (total T, tallies T)) Ts []"

section \<open>The sums: every total counts the deques up to its own\<close>

text \<open>
  \<open>v T\<close> is a quantity of a tally and \<open>f\<close> the share of an entry in it: the total with the
  load, or the tally of one source with the load of its entries.
\<close>

definition sumf :: "(entry \<Rightarrow> int) \<Rightarrow> entry list \<Rightarrow> int" where
  "sumf f es = sum_list (map f es)"

lemma sumf_simps [simp]:
  "sumf f [] = 0" "sumf f (e # es) = f e + sumf f es" "sumf f (es @ es') = sumf f es + sumf f es'"
  by (simp_all add: sumf_def)

definition counts :: "(tally \<Rightarrow> int) \<Rightarrow> (entry \<Rightarrow> int) \<Rightarrow> bool" where
  "counts v f \<longleftrightarrow>
     (\<forall>T t l s d. v (tally_inc s l T) = v T + f (t, l, s, d)) \<and>
     (\<forall>T q. v (T\<lparr>dq := q\<rparr>) = v T) \<and> (\<forall>t l s d. f (t, - l, s, d) = - f (t, l, s, d))"

definition by_src :: "string \<Rightarrow> tally \<Rightarrow> int" where
  "by_src s T = dget_or (tallies T) s 0"

definition src_load :: "string \<Rightarrow> entry \<Rightarrow> int" where
  "src_load s e = (if e_src e = s then e_load e else 0)"

lemma counts_total: "counts total e_load"
  by (simp add: counts_def tally_inc_def Let_def)

lemma counts_by_src: "counts (by_src s) (src_load s)"
  by (auto simp: counts_def tally_inc_def Let_def by_src_def src_load_def dget_or_def dict_simps
      split: option.splits)

fun sums_ok :: "(tally \<Rightarrow> int) \<Rightarrow> (entry \<Rightarrow> int) \<Rightarrow> int \<Rightarrow> tally list \<Rightarrow> bool" where
  "sums_ok v f acc [] = True"
| "sums_ok v f acc (T # Ts) = (v T = acc + sumf f (dq T) \<and> sums_ok v f (acc + sumf f (dq T)) Ts)"

lemma prune_while_spec:
  "prune_while ts T out =
    (fold (\<lambda>(t, l, s, d) T. tally_inc s (- l) T) (takeWhile (\<lambda>e. e_time e + sec T < ts) (dq T))
       (T\<lparr>dq := dropWhile (\<lambda>e. e_time e + sec T < ts) (dq T)\<rparr>),
     out @ takeWhile (\<lambda>e. e_time e + sec T < ts) (dq T))"
proof (induction ts T out rule: prune_while.induct)
  case (1 ts T out)
  show ?case
  proof (cases "dq T")
    case Nil
    then show ?thesis by (simp add: prune_while.simps [of ts T])
  next
    case (Cons e q)
    obtain t l s d where e: "e = (t, l, s, d)" by (cases e) auto
    have sec: "sec (tally_inc s (- l) (T\<lparr>dq := q\<rparr>)) = sec T" "dq (tally_inc s (- l) (T\<lparr>dq := q\<rparr>)) = q"
      "tally_inc s (- l) (T\<lparr>dq := q\<rparr>)\<lparr>dq := q'\<rparr> = tally_inc s (- l) (T\<lparr>dq := q'\<rparr>)" for q'
      by (simp_all add: tally_inc_def Let_def)
    show ?thesis
    proof (cases "t + sec T \<ge> ts")
      case True
      then show ?thesis using Cons e by (simp add: prune_while.simps [of ts T])
    next
      case False
      with 1 [OF Cons [unfolded e] refl refl refl False] Cons e show ?thesis
        by (simp add: prune_while.simps [of ts T] sec)
    qed
  qed
qed

lemma fold_dec:
  "sec (fold (\<lambda>(t, l, s, d) T. tally_inc s (- l) T) es T) = sec T \<and>
   dq (fold (\<lambda>(t, l, s, d) T. tally_inc s (- l) T) es T) = dq T \<and>
   (counts v f \<longrightarrow> v (fold (\<lambda>(t, l, s, d) T. tally_inc s (- l) T) es T) = v T - sumf f es)"
proof (induction es arbitrary: T)
  case (Cons e es)
  obtain t l s d where e: "e = (t, l, s, d)" by (cases e) auto
  have "counts v f \<longrightarrow> v (tally_inc s (- l) T) = v T - f (t, l, s, d)"
    unfolding counts_def by (metis add_uminus_conv_diff)
  then show ?case using Cons [of "tally_inc s (- l) T"] e by (auto simp: tally_inc_def Let_def)
qed simp

lemma prune_while_facts:
  assumes "prune_while ts T [] = (T', moved)"
  shows "sec T' = sec T" "dq T' = dropWhile (\<lambda>e. e_time e + sec T < ts) (dq T)"
    "moved = takeWhile (\<lambda>e. e_time e + sec T < ts) (dq T)"
    "counts v f \<Longrightarrow> v T' = v T - sumf f moved"
  using assms fold_dec [of "takeWhile (\<lambda>e. e_time e + sec T < ts) (dq T)"
      "T\<lparr>dq := dropWhile (\<lambda>e. e_time e + sec T < ts) (dq T)\<rparr>" v f]
  by (auto simp: prune_while_spec counts_def)

lemma sumf_split: "sumf f (takeWhile P es) + sumf f (dropWhile P es) = sumf f es"
proof -
  have "sumf f (takeWhile P es @ dropWhile P es) = sumf f es" by simp
  then show ?thesis by (simp only: sumf_simps)
qed

lemma sums_ok_prune:
  "counts v f \<Longrightarrow> sums_ok v f acc Ts \<Longrightarrow> sums_ok v f acc (tally_prune ts Ts)"
proof (induction ts Ts arbitrary: acc rule: tally_prune.induct)
  case (2 ts T)
  obtain T' m where p: "prune_while ts T [] = (T', m)" by force
  note F = prune_while_facts [OF p]
  have "sumf f (dq T') + sumf f m = sumf f (dq T)"
    unfolding F(2,3) using sumf_split [of f _ "dq T"] by (simp add: add.commute)
  then show ?case using 2 F(4) [OF 2(1)] p by simp
next
  case (3 ts T N Ts)
  obtain T' m where p: "prune_while ts T [] = (T', m)" by force
  note F = prune_while_facts [OF p]
  have s: "sumf f (dq T') + sumf f m = sumf f (dq T)"
    unfolding F(2,3) using sumf_split [of f _ "dq T"] by (simp add: add.commute)
  have "v T' = acc + sumf f (dq T')" using F(4) [OF 3(2)] 3(3) s by simp
  moreover have "sums_ok v f (acc + sumf f (dq T')) (N\<lparr>dq := dq N @ m\<rparr> # Ts)"
    using 3(2,3) s by (simp add: counts_def algebra_simps flip: s)
  ultimately show ?case using 3(1) [OF p [symmetric] refl 3(2)] p by simp
qed simp

lemma sums_ok_inc:
  "counts v f \<Longrightarrow> sums_ok v f acc Ts \<Longrightarrow> sums_ok v f (acc + f (t, l, s, d)) (map (tally_inc s l) Ts)"
proof (induction Ts arbitrary: acc)
  case (Cons T Ts)
  have "dq (tally_inc s l T) = dq T" by (simp add: tally_inc_def Let_def)
  moreover have "v (tally_inc s l T) = v T + f (t, l, s, d)" using Cons.prems(1) unfolding counts_def by blast
  ultimately show ?case using Cons.IH [OF Cons.prems(1), of "acc + sumf f (dq T)"] Cons.prems(2)
    by (simp add: algebra_simps)
qed simp

lemma sums_ok_add:
  assumes "counts v f" "sums_ok v f 0 Ts"
  shows "sums_ok v f 0 (tally_add_data now d Ts)"
proof (cases Ts)
  case (Cons T Ns)
  let ?e = "(now, load_of d, sd_src d, d)"
  have "sums_ok v f 0 (tally_inc (sd_src d) (load_of d) (T\<lparr>dq := dq T @ [?e]\<rparr>) # map (tally_inc (sd_src d) (load_of d)) Ns)"
    (is "sums_ok v f 0 (?T # ?Ns)")
  proof -
    have "v ?T = v (T\<lparr>dq := dq T @ [?e]\<rparr>) + f ?e" "v (T\<lparr>dq := dq T @ [?e]\<rparr>) = v T"
      using assms(1) unfolding counts_def by blast+
    moreover have "dq ?T = dq T @ [?e]" by (simp add: tally_inc_def Let_def)
    ultimately show ?thesis
      using assms(2) Cons sums_ok_inc [OF assms(1), of "sumf f (dq T)" Ns now "load_of d" "sd_src d" d]
      by simp
  qed
  then show ?thesis using sums_ok_prune [OF assms(1)] Cons by (simp add: tally_add_data_def Let_def)
qed (simp add: tally_add_data_def)

section \<open>The windows: where an entry is\<close>

text \<open>
  Given all entries ever added, in the order of their times: the first deque holds those in
  the first window, the second those of the second window that left the first, and so on.
\<close>

fun placed :: "entry list \<Rightarrow> rat \<Rightarrow> tally list \<Rightarrow> bool" where
  "placed H now [] = True"
| "placed H now (T # Ts) =
     (dq T = filter (\<lambda>e. now \<le> e_time e + sec T) H \<and>
      placed (filter (\<lambda>e. \<not> now \<le> e_time e + sec T) H) now Ts)"

lemma sorted_filter_dropWhile:
  fixes a :: rat
  assumes "sorted (map e_time H)"
  shows "filter (\<lambda>e. a \<le> e_time e + b) H = dropWhile (\<lambda>e. e_time e + b < a) H"
    "filter (\<lambda>e. \<not> a \<le> e_time e + b) H = takeWhile (\<lambda>e. e_time e + b < a) H"
proof -
  have "filter (\<lambda>e. a \<le> e_time e + b) H = dropWhile (\<lambda>e. e_time e + b < a) H \<and>
      filter (\<lambda>e. \<not> a \<le> e_time e + b) H = takeWhile (\<lambda>e. e_time e + b < a) H"
    using assms
  proof (induction H)
    case (Cons x H)
    show ?case
    proof (cases "a \<le> e_time x + b")
      case True
      have "a \<le> e_time y + b" if "y \<in> set H" for y
      proof -
        have "e_time x \<le> e_time y" using Cons.prems that by simp
        with True show ?thesis by linarith
      qed
      then have "filter (\<lambda>e. a \<le> e_time e + b) H = H" "filter (\<lambda>e. \<not> a \<le> e_time e + b) H = []"
        by (auto simp: filter_id_conv filter_empty_conv)
      with True show ?thesis by simp
    next
      case False
      with Cons show ?thesis by (simp add: not_le)
    qed
  qed simp
  then show "filter (\<lambda>e. a \<le> e_time e + b) H = dropWhile (\<lambda>e. e_time e + b < a) H"
    "filter (\<lambda>e. \<not> a \<le> e_time e + b) H = takeWhile (\<lambda>e. e_time e + b < a) H" by blast+
qed

lemma prune_while_sec [simp]: "sec (fst (prune_while ts T out)) = sec T"
  using fold_dec by (simp add: prune_while_spec)

lemma secs_prune: "map sec (tally_prune ts Ts) = map sec Ts"
  by (induction ts Ts rule: tally_prune.induct) (auto split: prod.splits dest: prune_while_facts(1))

lemma placed_append:
  "\<forall>e \<in> set M. \<forall>T \<in> set Ts. now \<le> e_time e + sec T \<Longrightarrow> Ts = N # Ns \<Longrightarrow>
    placed H now Ts \<Longrightarrow> placed (H @ M) now (N\<lparr>dq := dq N @ M\<rparr> # Ns)"
  by (auto simp: filter_id_conv filter_empty_conv)

lemma placed_prune:
  assumes "sorted (map e_time H)" "placed H now Ts" "now \<le> ts" "sorted (map sec Ts)"
  shows "placed H ts (tally_prune ts Ts) \<and> map sec (tally_prune ts Ts) = map sec Ts"
  using assms
proof (induction ts Ts arbitrary: H rule: tally_prune.induct)
  case (2 ts T)
  obtain T' m where p: "prune_while ts T [] = (T', m)" by force
  note F = prune_while_facts [OF p]
  have "filter (\<lambda>e. ts \<le> e_time e + sec T) (filter (\<lambda>e. now \<le> e_time e + sec T) H) =
      filter (\<lambda>e. ts \<le> e_time e + sec T) H"
    using 2(3) by (auto intro!: filter_cong)
  moreover have "sorted (map e_time (dq T))" using 2 by (simp add: sorted_filter)
  ultimately have "dq T' = filter (\<lambda>e. ts \<le> e_time e + sec T) H"
    using 2(2) F(2) by (simp add: sorted_filter_dropWhile(1) [symmetric])
  then show ?case using p F(1) by simp
next
  case (3 ts T N Ts)
  obtain T' m where p: "prune_while ts T [] = (T', m)" by force
  note F = prune_while_facts [OF p]
  let ?old = "filter (\<lambda>e. \<not> now \<le> e_time e + sec T) H"
  have dqT: "dq T = filter (\<lambda>e. now \<le> e_time e + sec T) H" using 3(3) by simp
  have sd: "sorted (map e_time (dq T))" using 3(2) dqT by (simp add: sorted_filter)
  have "filter (\<lambda>e. ts \<le> e_time e + sec T) (dq T) = filter (\<lambda>e. ts \<le> e_time e + sec T) H"
    unfolding dqT using 3(4) by (auto intro!: filter_cong)
  then have dq': "dq T' = filter (\<lambda>e. ts \<le> e_time e + sec T) H"
    unfolding F(2) using sd by (simp add: sorted_filter_dropWhile(1) [symmetric])
  have m: "m = filter (\<lambda>e. \<not> ts \<le> e_time e + sec T) (dq T)"
    unfolding F(3) using sd by (simp add: sorted_filter_dropWhile(2) [symmetric])
  have H: "H = ?old @ dq T"
    unfolding dqT sorted_filter_dropWhile [OF 3(2)] by simp
  have "filter (\<lambda>e. \<not> ts \<le> e_time e + sec T) ?old = ?old"
    by (rule filter_True) (use 3(4) in auto)
  then have left: "filter (\<lambda>e. \<not> ts \<le> e_time e + sec T) H = ?old @ m"
    by (subst H, subst filter_append) (simp add: m)
  have mN: "\<forall>e \<in> set m. \<forall>X \<in> set (N # Ts). now \<le> e_time e + sec X"
    using 3(5) unfolding m dqT by fastforce
  have pl: "placed (?old @ m) now (N\<lparr>dq := dq N @ m\<rparr> # Ts)"
    by (rule placed_append [OF mN refl]) (use 3(3) in simp)
  have so: "sorted (map e_time (?old @ m))"
    using sorted_filter [OF 3(2)] left by metis
  have "sorted (map sec (N\<lparr>dq := dq N @ m\<rparr> # Ts))" using 3(5) by simp
  from 3(1) [OF p [symmetric] refl so pl 3(4) this]
  show ?case using p dq' F(1) left by simp
qed simp

lemma placed_add:
  assumes "sorted (map e_time (H @ [(ts, load_of d, sd_src d, d)]))" "placed H now Ts" "now \<le> ts"
    "sorted (map sec Ts)" "\<forall>T \<in> set Ts. 0 \<le> sec T"
  shows "placed (H @ [(ts, load_of d, sd_src d, d)]) ts (tally_add_data ts d Ts) \<and>
    map sec (tally_add_data ts d Ts) = map sec Ts"
proof (cases Ts)
  case (Cons T Ns)
  let ?e = "(ts, load_of d, sd_src d, d)"
  let ?T = "tally_inc (sd_src d) (load_of d) (T\<lparr>dq := dq T @ [?e]\<rparr>)"
  let ?Ns = "map (tally_inc (sd_src d) (load_of d)) Ns"
  have T: "dq ?T = dq T @ [?e]" "sec ?T = sec T" by (simp_all add: tally_inc_def Let_def)
  have Ns: "placed H' now ?Ns = placed H' now Ns" "map sec ?Ns = map sec Ns" for H'
    by (induction Ns arbitrary: H') (simp_all add: tally_inc_def Let_def)
  have "now \<le> ts + sec T" using assms(3,5) Cons by (simp add: add_increasing2)
  then have "placed (H @ [?e]) now (?T # ?Ns)"
    using assms(2) Cons T Ns by simp
  from placed_prune [OF assms(1) this assms(3)] show ?thesis
    using assms(4) Cons T Ns by (simp add: tally_add_data_def Let_def)
qed (simp add: tally_add_data_def)

lemma sumf_filter_split:
  "(\<And>e. P e \<Longrightarrow> Q e) \<Longrightarrow> sumf f (filter Q H) = sumf f (filter P H) + sumf f (filter Q (filter (\<lambda>e. \<not> P e) H))"
  by (induction H) auto

text \<open>Together: each quantity is the sum of the shares of the entries within its window.\<close>

lemma window_values:
  assumes "sums_ok v f acc Ts" "placed H now Ts" "sorted (map sec Ts)" "T \<in> set Ts"
  shows "v T = acc + sumf f (filter (\<lambda>e. now \<le> e_time e + sec T) H)"
  using assms
proof (induction Ts arbitrary: acc H)
  case (Cons N Ns)
  show ?case
  proof (cases "T = N")
    case True
    with Cons.prems show ?thesis by simp
  next
    case False
    with Cons.prems have T: "T \<in> set Ns" "sec N \<le> sec T" by auto
    have "v T = acc + sumf f (dq N) + sumf f (filter (\<lambda>e. now \<le> e_time e + sec T)
        (filter (\<lambda>e. \<not> now \<le> e_time e + sec N) H))"
      by (rule Cons.IH) (use Cons.prems T in auto)
    also have "\<dots> = acc + sumf f (filter (\<lambda>e. now \<le> e_time e + sec T) H)"
      using Cons.prems(2) T(2)
      by (subst sumf_filter_split [of "\<lambda>e. now \<le> e_time e + sec N"]) auto
    finally show ?thesis .
  qed
qed simp

definition history :: "(rat \<times> stream_data) list \<Rightarrow> entry list" where
  "history evs = map (\<lambda>(ts, d). (ts, load_of d, sd_src d, d)) evs"

definition run_adds :: "(rat \<times> stream_data) list \<Rightarrow> tally list \<Rightarrow> tally list" where
  "run_adds evs Ts = foldl (\<lambda>Ts (ts, d). throughput_add ts d Ts) Ts evs"

lemma secs_add: "map sec (tally_add_data now d Ts) = map sec Ts"
  by (cases Ts) (simp_all add: tally_add_data_def Let_def secs_prune)

lemma secs_run_adds: "map sec (run_adds evs Ts) = map sec Ts"
  unfolding run_adds_def
  by (induction evs arbitrary: Ts) (auto simp: throughput_add_def secs_add)

lemma run_adds_sums:
  "counts v f \<Longrightarrow> sums_ok v f 0 Ts \<Longrightarrow> sums_ok v f 0 (run_adds evs Ts)"
  unfolding run_adds_def
  by (induction evs arbitrary: Ts) (auto simp: throughput_add_def sums_ok_add)

lemma run_adds_placed:
  assumes "\<forall>now. placed [] now Ts" "sorted (map sec Ts)" "\<forall>T \<in> set Ts. 0 \<le> sec T" "sorted (map fst evs)"
  shows "(\<exists>now \<le> (if evs = [] then z else fst (last evs)). placed (history evs) now (run_adds evs Ts)) \<and>
    map sec (run_adds evs Ts) = map sec Ts"
  using assms(4)
proof (induction evs rule: rev_induct)
  case Nil
  then show ?case using assms(1) by (auto simp: run_adds_def history_def)
next
  case (snoc p evs)
  obtain ts d where p: "p = (ts, d)" by force
  have so: "sorted (map fst evs)" "\<forall>t \<in> set (map fst evs). t \<le> ts"
    using snoc.prems p by (auto simp: sorted_append)
  from snoc.IH [OF so(1)] obtain now where now: "now \<le> (if evs = [] then z else fst (last evs))"
    "placed (history evs) now (run_adds evs Ts)" and sec: "map sec (run_adds evs Ts) = map sec Ts" by blast
  have pl: "\<exists>now' \<le> ts. placed (history evs) now' (run_adds evs Ts)"
  proof (cases "evs = []")
    case True
    then show ?thesis using assms(1) by (auto simp: run_adds_def history_def)
  next
    case False
    then have "fst (last evs) \<le> ts" using so(2) by simp
    with now False have "now \<le> ts" by simp
    with now(2) show ?thesis by blast
  qed
  then obtain now' where now': "now' \<le> ts" "placed (history evs) now' (run_adds evs Ts)" by blast
  have hs: "map e_time (history evs) = map fst evs"
    by (simp add: history_def o_def case_prod_beta)
  have so': "sorted (map e_time (history evs @ [(ts, load_of d, sd_src d, d)]))"
    using so by (simp add: sorted_append hs)
  have "\<forall>T \<in> set (run_adds evs Ts). 0 \<le> sec T"
    using assms(3) sec by (metis (no_types, lifting) image_iff list.set_map)
  from placed_add [OF so' now'(2,1) _ this] assms(2) sec
  have "placed (history evs @ [(ts, load_of d, sd_src d, d)]) ts (tally_add_data ts d (run_adds evs Ts)) \<and>
    map sec (tally_add_data ts d (run_adds evs Ts)) = map sec Ts" by simp
  then show ?case unfolding p by (auto simp: run_adds_def history_def throughput_add_def)
qed

lemma throughput_init_facts:
  assumes "throughput_init secs = Inr Ts"
  shows "sums_ok total e_load 0 Ts" "sums_ok (by_src s) (src_load s) 0 Ts" "placed [] now Ts"
    "map sec Ts = sort secs"
proof -
  have Ts: "Ts = map new_tally (sort secs)"
    using assms by (auto simp: throughput_init_def Let_def split: if_splits)
  have "sums_ok total e_load 0 (map new_tally l)" "sums_ok (by_src s) (src_load s) 0 (map new_tally l)"
    "placed [] now (map new_tally l)" "map sec (map new_tally l) = l" for l
    by (induction l) (simp_all add: new_tally_def by_src_def dget_or_def)
  then show "sums_ok total e_load 0 Ts" "sums_ok (by_src s) (src_load s) 0 Ts" "placed [] now Ts"
    "map sec Ts = sort secs"
    unfolding Ts by blast+
qed

lemma throughput_state:
  assumes "throughput_init secs = Inr Ts0" "\<forall>s \<in> set secs. 0 \<le> s" "sorted (map fst evs @ [now])"
    and "Ts = throughput_prune now (run_adds evs Ts0)" "T \<in> set Ts"
  shows "map sec Ts = sort secs"
    "total T = sumf e_load (filter (\<lambda>e. now \<le> e_time e + sec T) (history evs))"
    "by_src src T = sumf (src_load src) (filter (\<lambda>e. now \<le> e_time e + sec T) (history evs))"
proof -
  note I = throughput_init_facts [OF assms(1)]
  have sec0: "sorted (map sec Ts0)" by (simp add: I(4))
  have "set (map sec Ts0) = set secs" by (simp add: I(4))
  then have pos: "\<forall>T \<in> set Ts0. 0 \<le> sec T" using assms(2) by auto
  have so: "sorted (map fst evs)" "\<forall>t \<in> set (map fst evs). t \<le> now"
    using assms(3) by (auto simp: sorted_append)
  obtain z where z: "z \<le> (if evs = [] then now else fst (last evs))" "placed (history evs) z (run_adds evs Ts0)"
    and sec1: "map sec (run_adds evs Ts0) = map sec Ts0"
    using run_adds_placed [OF _ sec0 pos so(1), of now] I(3) by blast
  have zn: "z \<le> now"
  proof (cases "evs = []")
    case False
    then have "fst (last evs) \<le> now" using so(2) by simp
    with z(1) False show ?thesis by simp
  qed (use z(1) in simp)
  have hs: "sorted (map e_time (history evs))"
    using so(1) by (simp add: history_def o_def case_prod_beta)
  have "placed (history evs) now Ts \<and> map sec Ts = map sec (run_adds evs Ts0)"
    unfolding assms(4) throughput_prune_def
    by (rule placed_prune [OF hs z(2) zn]) (simp add: sec1 sec0)
  then have P: "placed (history evs) now Ts" and sec2: "map sec Ts = sort secs"
    using sec1 I(4) by auto
  show "map sec Ts = sort secs" by (fact sec2)
  have S: "sorted (map sec Ts)" by (simp add: sec2)
  have "sums_ok total e_load 0 Ts" "sums_ok (by_src src) (src_load src) 0 Ts"
    unfolding assms(4) throughput_prune_def
    using I(1,2) by (auto intro!: sums_ok_prune run_adds_sums counts_total counts_by_src)
  from window_values [OF this(1) P S assms(5)] window_values [OF this(2) P S assms(5)]
  show "total T = sumf e_load (filter (\<lambda>e. now \<le> e_time e + sec T) (history evs))"
    "by_src src T = sumf (src_load src) (filter (\<lambda>e. now \<le> e_time e + sec T) (history evs))"
    by simp_all
qed

section \<open>Prdcr\<close>

datatype prdcr_state = DISCONNECTED | CONNECTING | CONNECTED

datatype xprt_event = EVENT_CONNECTED | EVENT_REJECTED | EVENT_ERROR | EVENT_DISCONNECTED
  | EVENT_RECV | EVENT_SEND_COMPLETE

text \<open>\<open>x\<close> names the transport object; its creation is the library's.\<close>

record prdcr =
  host :: string
  port :: string
  xprt :: string
  auth :: string
  auth_opts :: "string dict"
  rail_eps :: int
  rail_recv_limit :: int
  x :: "nat option"
  state :: prdcr_state

definition prdcr_init :: "string \<Rightarrow> int \<Rightarrow> string \<Rightarrow> string \<Rightarrow> string dict \<Rightarrow> int \<Rightarrow> int \<Rightarrow> prdcr" where
  "prdcr_init h p xp au opts eps lmt =
     \<lparr>host = h, port = str_int p, xprt = xp, auth = au, auth_opts = opts, rail_eps = eps,
      rail_recv_limit = lmt, x = None, state = DISCONNECTED\<rparr>"

definition is_connected :: "prdcr \<Rightarrow> bool" where
  "is_connected P \<longleftrightarrow> state P = CONNECTED"

text \<open>
  \<open>connect\<close>: \<open>t\<close> is the new transport and \<open>err\<close> what its \<open>connect\<close> raises, if it does. The
  message of the state error formats \<open>host\<close>, a name that the method does not have.
\<close>

definition prdcr_connect :: "nat \<Rightarrow> pyerr option \<Rightarrow> prdcr \<Rightarrow> prdcr \<times> unit res" where
  "prdcr_connect t err P =
     (if state P \<noteq> DISCONNECTED then (P, Inl (NameError ''host''))
      else (let P1 = P\<lparr>x := Some t, state := CONNECTING\<rparr> in
            case err of None \<Rightarrow> (P1, Inr ())
            | Some e \<Rightarrow> (P1\<lparr>state := DISCONNECTED\<rparr>, Inl e)))"

text \<open>\<open>ldms_cb\<close>: the new state, whether the event was accepted, and the subscriptions made.\<close>

definition prdcr_cb :: "xprt_event \<Rightarrow> prdcr \<Rightarrow> prdcr \<times> (nat option) list res" where
  "prdcr_cb e P =
     (if e = EVENT_DISCONNECTED \<or> e = EVENT_REJECTED \<or> e = EVENT_ERROR
      then (P\<lparr>state := DISCONNECTED\<rparr>, Inr [])
      else if e = EVENT_CONNECTED then
        (if state P \<noteq> CONNECTING then (P, Inl AssertionError)
         else (P\<lparr>state := CONNECTED\<rparr>, Inr [x P]))
      else (P, Inr []))"

text \<open>A producer's life: calls of \<open>connect\<close> and events, with the counts of both effects.\<close>

inductive prdcr_step :: "prdcr \<times> nat \<times> nat \<Rightarrow> prdcr \<times> nat \<times> nat \<Rightarrow> bool" where
  step_connect: "prdcr_connect t err P = (P', Inr ()) \<Longrightarrow> prdcr_step (P, c, n) (P', c + 1, n)"
| step_refused: "prdcr_connect t err P = (P', Inl e) \<Longrightarrow> prdcr_step (P, c, n) (P', c, n)"
| step_event: "prdcr_cb ev P = (P', Inr subs) \<Longrightarrow> prdcr_step (P, c, n) (P', c, n + length subs)"
| step_assert: "prdcr_cb ev P = (P', Inl e) \<Longrightarrow> prdcr_step (P, c, n) (P', c, n)"

inductive_cases prdcr_stepE: "prdcr_step s s'"
inductive_simps prdcr_step_simps: "prdcr_step (P, c, n) (P', c', n')"

definition prdcr_inv :: "prdcr \<times> nat \<times> nat \<Rightarrow> bool" where
  "prdcr_inv s = (case s of (P, c, n) \<Rightarrow>
     (state P \<noteq> DISCONNECTED \<longrightarrow> x P \<noteq> None) \<and> n + (if state P = CONNECTING then 1 else 0) \<le> c)"

lemma prdcr_inv_step: "prdcr_step s s' \<Longrightarrow> prdcr_inv s \<Longrightarrow> prdcr_inv s'"
  by (erule prdcr_stepE)
    (auto simp: prdcr_inv_def prdcr_connect_def prdcr_cb_def Let_def split: if_splits option.splits)

lemma prdcr_inv_reach: "prdcr_step\<^sup>*\<^sup>* s s' \<Longrightarrow> prdcr_inv s \<Longrightarrow> prdcr_inv s'"
  by (induction rule: rtranclp_induct) (auto intro: prdcr_inv_step)

section \<open>Properties\<close>

text \<open>
  C9: the chain of deques computes sliding windows. After any messages received at times that
  never decrease, each with its \<open>add_data\<close>, and a prune at the present time, \<open>summary\<close> gives
  for each window length, in ascending order, the bytes of exactly the messages not older
  than it. Nothing is counted twice or lost as entries move from window to window.
\<close>

theorem summary_is_window_sum:
  assumes "throughput_init secs = Inr Ts" "\<forall>s \<in> set secs. 0 \<le> s" "sorted (map fst evs @ [now])"
  shows "throughput_summary (throughput_prune now (run_adds evs Ts)) =
    map (\<lambda>s. (s, sum_list (map (\<lambda>(t, d). load_of d) (filter (\<lambda>(t, d). now \<le> t + s) evs)))) (sort secs)"
proof -
  let ?Ts = "throughput_prune now (run_adds evs Ts)"
  have h: "sumf e_load (filter (\<lambda>e. now \<le> e_time e + s) (history evs)) =
      sum_list (map (\<lambda>(t, d). load_of d) (filter (\<lambda>(t, d). now \<le> t + s) evs))" for s
    by (induction evs) (auto simp: history_def)
  have "throughput_summary ?Ts = map (\<lambda>T. (sec T, total T)) ?Ts" by (simp add: throughput_summary_def)
  also have "\<dots> = map (\<lambda>s. (s, sum_list (map (\<lambda>(t, d). load_of d) (filter (\<lambda>(t, d). now \<le> t + s) evs)))) (map sec ?Ts)"
    using throughput_state(2) [OF assms refl] h by simp
  also have "map sec ?Ts = sort secs"
    by (simp add: throughput_prune_def secs_prune secs_run_adds throughput_init_facts(4) [OF assms(1)])
  finally show ?thesis .
qed

definition demo_msg :: "string \<Rightarrow> string \<Rightarrow> stream_data" where
  "demo_msg src s = \<lparr>sd_name = ''s'', sd_data = s, sd_src = src\<rparr>"

definition demo_evs :: "(rat \<times> stream_data) list" where
  "demo_evs = [(1, demo_msg ''a'' ''xx''), (3, demo_msg ''b'' ''y''), (7, demo_msg ''a'' ''zzz'')]"

theorem summary_is_window_sum_witness:
  "throughput_summary (throughput_prune 8 (run_adds demo_evs (map new_tally [1, 5, 10]))) =
    [(1, 4), (5, 6), (10, 9)]"
proof -
  have "throughput_init [5, 1, 10] = Inr (map new_tally [1, 5, 10])"
    by (simp add: throughput_init_def)
  from summary_is_window_sum [OF this, of demo_evs 8] show ?thesis
    by (simp add: demo_evs_def demo_msg_def load_of_def)
qed

text \<open>
  The per-source tallies are windows too: in every tally of the chain the count kept for
  a source is the bytes of that source's messages within the window, and 0 for a source
  that has none.
\<close>

lemma details_by_source:
  assumes "throughput_init secs = Inr Ts" "\<forall>s \<in> set secs. 0 \<le> s" "sorted (map fst evs @ [now])"
    "T \<in> set (throughput_prune now (run_adds evs Ts))"
  shows "dget_or (tallies T) src 0 =
    sum_list (map (\<lambda>(t, d). load_of d) (filter (\<lambda>(t, d). now \<le> t + sec T \<and> sd_src d = src) evs))"
proof -
  have "sumf (src_load src) (filter (\<lambda>e. now \<le> e_time e + s) (history evs)) =
      sum_list (map (\<lambda>(t, d). load_of d) (filter (\<lambda>(t, d). now \<le> t + s \<and> sd_src d = src) evs))" for s
    by (induction evs) (auto simp: history_def src_load_def)
  with throughput_state(3) [OF assms(1-3) refl assms(4), of src] show ?thesis by (simp add: by_src_def)
qed

lemma details_by_source_instance:
  "dget_or (tallies (hd (throughput_prune 8 (run_adds demo_evs (map new_tally [10]))))) ''a'' 0 = 7"
proof -
  let ?Ts = "throughput_prune 8 (run_adds demo_evs (map new_tally [10]))"
  have i: "throughput_init [10] = Inr (map new_tally [10])" by (simp add: throughput_init_def)
  have m: "hd ?Ts \<in> set ?Ts" "sec (hd ?Ts) = 10"
    using secs_prune [of 8 "run_adds demo_evs (map new_tally [10])"]
    by (cases ?Ts; auto simp: throughput_prune_def secs_run_adds new_tally_def)+
  from details_by_source [OF i, of demo_evs 8 "hd ?Ts" "''a''"] m show ?thesis
    by (simp add: demo_evs_def demo_msg_def load_of_def)
qed

text \<open>
  C38: the connection state machine. Whatever calls and transport events a producer sees, it
  holds a transport whenever it is not disconnected, and it subscribes to the streams at most
  once for every connection it started (so strictly fewer times while one is in progress).
\<close>

theorem subscribes_once_per_connection:
  assumes "prdcr_step\<^sup>*\<^sup>* (prdcr_init h p xp au opts eps lmt, 0, 0) (P, c, n)"
  shows "(state P \<noteq> DISCONNECTED \<longrightarrow> x P \<noteq> None) \<and> n \<le> c \<and> (state P = CONNECTING \<longrightarrow> n < c)"
proof -
  have "prdcr_inv (P, c, n)"
    by (rule prdcr_inv_reach [OF assms]) (simp add: prdcr_inv_def prdcr_init_def)
  then show ?thesis by (auto simp: prdcr_inv_def)
qed

theorem subscribes_once_per_connection_witness:
  "\<exists>P. prdcr_step\<^sup>*\<^sup>* (prdcr_init ''n1'' 411 ''sock'' ''none'' [] 1 0, 0, 0) (P, 1, 1) \<and> state P = CONNECTED \<and> x P \<noteq> None"
proof -
  let ?P = "prdcr_init ''n1'' 411 ''sock'' ''none'' [] 1 0"
  let ?C = "?P\<lparr>x := Some 0, state := CONNECTED\<rparr>"
  have "prdcr_step (?P, 0, 0) (?P\<lparr>x := Some 0, state := CONNECTING\<rparr>, 0 + 1, 0)"
    by (rule step_connect [of 0 None]) (simp add: prdcr_connect_def prdcr_init_def)
  moreover have "prdcr_step (?P\<lparr>x := Some 0, state := CONNECTING\<rparr>, 1, 0) (?C, 1, 0 + length [Some (0::nat)])"
    by (rule step_event [of EVENT_CONNECTED]) (simp add: prdcr_cb_def)
  ultimately have r: "prdcr_step\<^sup>*\<^sup>* (?P, 0, 0) (?C, 1, 1)" by (auto intro: rtranclp_trans)
  from subscribes_once_per_connection [OF r] r show ?thesis by (intro exI [of _ ?C]) simp
qed

end
