(* ===== verification/Compare.thy ===== *)
theory Compare
  imports Prelude
begin

text \<open>
  The comparison of expected and observed stream statistics in \<open>LDMS_Test.py\<close>: the wildcard
  comparison \<open>obj_xeq\<close>, \<open>list_xeq\<close>, \<open>dict_xeq\<close>, the mixin \<open>XCmp\<close> (\<open>xeq\<close>, \<open>xsort\<close>, \<open>__lt__\<close>) with
  its dataclasses, the addresses \<open>LdmsAddr\<close>, and \<open>StreamData\<close> with its partial equality.
\<close>

section \<open>Values\<close>

text \<open>
  The values the statistics hold. \<open>XObj\<close> is an instance of one of the dataclasses, with its
  fields in the order of their declaration; \<open>XAddr\<close> an \<open>LdmsAddr\<close> (family, port, address
  bytes). The keys of a dict are strings.
\<close>

datatype xval =
    XNone
  | XInt int
  | XStr string
  | XBytes "nat list"
  | XList "xval list"
  | XDict "(string \<times> xval) list"
  | XObj string "(string \<times> xval) list"
  | XAddr "int option" "int option" "nat list option"

text \<open>The dataclasses: each with the names of its fields; every default is \<open>None\<close>.\<close>

definition class_fields :: "string list dict" where
  "class_fields =
     [(''TimeSpec'', [''tv_sec'', ''tv_nsec'']),
      (''StreamCounters'', [''first_ts'', ''last_ts'', ''count'', ''bytes'']),
      (''StreamSrcStats'', [''src'', ''rx'']),
      (''StreamClientPairStats'', [''stream_name'', ''client_match'', ''client_desc'', ''is_regex'', ''tx'', ''drops'']),
      (''StreamStats'', [''rx'', ''sources'', ''clients'', ''name'']),
      (''StreamClientStats'', [''tx'', ''drops'', ''streams'', ''dest'', ''is_regex'', ''match'', ''desc''])]"

definition new_obj :: "string \<Rightarrow> xval dict \<Rightarrow> xval res" where
  "new_obj c kw =
     (case dget class_fields c of
        None \<Rightarrow> Inl (NameError c)
      | Some fs \<Rightarrow>
          if \<forall>k \<in> set (dkeys kw). k \<in> set fs
          then Inr (XObj c (map (\<lambda>f. (f, dget_or kw f XNone)) fs))
          else Inl (TypeError ''unexpected keyword argument''))"

definition default_addr :: xval where
  "default_addr = XAddr (Some 0) (Some 0) (Some (replicate 16 0))"

text \<open>\<open>as_ipv6\<close>; only an address has it.\<close>

definition as_ipv6 :: "xval \<Rightarrow> xval res" where
  "as_ipv6 v =
     (case v of
        XAddr fam port addr \<Rightarrow>
          if fam = Some 10 then Inr v
          else (case addr of None \<Rightarrow> Inl (TypeError ''can't concat NoneType to bytes'')
                | Some a \<Rightarrow> Inr (XAddr (Some 10) port (Some (replicate 10 0 @ replicate 2 255 @ a))))
      | _ \<Rightarrow> Inl (AttributeError ''as_ipv6''))"

section \<open>Equality up to wildcards and list order\<close>

text \<open>\<open>len(b)\<close> and \<open>list(b)\<close> for whatever \<open>b\<close> is.\<close>

definition as_list :: "xval \<Rightarrow> xval list res" where
  "as_list b =
     (case b of
        XList l \<Rightarrow> Inr l
      | XDict d \<Rightarrow> Inr (map (\<lambda>p. XStr (fst p)) d)
      | XStr s \<Rightarrow> Inr (map (\<lambda>c. XStr [c]) s)
      | XBytes bs \<Rightarrow> Inr (map (\<lambda>n. XInt (int n)) bs)
      | _ \<Rightarrow> Inl (TypeError ''object has no len()''))"

text \<open>The inner loop of \<open>list_xeq\<close>: the list without its first element that compares equal.\<close>

fun take_first :: "('a \<Rightarrow> bool res) \<Rightarrow> 'a list \<Rightarrow> 'a list option res" where
  "take_first p [] = Inr None"
| "take_first p (b # bs) =
     bindE (p b) (\<lambda>t. if t then Inr (Some bs)
       else bindE (take_first p bs) (\<lambda>r. Inr (map_option (Cons b) r)))"

text \<open>A \<open>for\<close> loop that returns False at the first element that fails.\<close>

fun allE :: "('a \<Rightarrow> bool res) \<Rightarrow> 'a list \<Rightarrow> bool res" where
  "allE p [] = Inr True"
| "allE p (x # xs) = bindE (p x) (\<lambda>t. if t then allE p xs else Inr False)"

text \<open>The outer loop: \<open>p a b\<close> compares, \<open>lx\<close> is what is left of the second list.\<close>

fun match_all :: "('a \<Rightarrow> 'b \<Rightarrow> bool res) \<Rightarrow> 'a list \<Rightarrow> 'b list \<Rightarrow> bool res" where
  "match_all p [] lx = Inr True"
| "match_all p (a # as) lx =
     bindE (take_first (p a) lx) (\<lambda>r. case r of None \<Rightarrow> Inr False | Some lx' \<Rightarrow> match_all p as lx')"

lemma allE_cong [fundef_cong]:
  "xs = ys \<Longrightarrow> (\<And>x. x \<in> set ys \<Longrightarrow> f x = g x) \<Longrightarrow> allE f xs = allE g ys"
  by (induction ys arbitrary: xs) (auto simp: bindE_def split: sum.splits)

lemma match_all_cong [fundef_cong]:
  "xs = ys \<Longrightarrow> lx = ly \<Longrightarrow> (\<And>x b. x \<in> set ys \<Longrightarrow> f x b = g x b) \<Longrightarrow> match_all f xs lx = match_all g ys ly"
proof (induction ys arbitrary: xs lx ly)
  case (Cons y ys)
  have "f y = g y" by (rule ext) (simp add: Cons.prems(3))
  then show ?case using Cons by (auto simp: bindE_def split: sum.splits option.splits)
qed simp

definition xfields :: "xval \<Rightarrow> xval dict" where
  "xfields v = (case v of XObj c fs \<Rightarrow> fs | _ \<Rightarrow> [])"

definition opt_eq :: "'a option \<Rightarrow> 'a option \<Rightarrow> bool" where
  "opt_eq a b \<longleftrightarrow> a = None \<or> b = None \<or> a = b"

text \<open>\<open>XCmp.xeq\<close> of two addresses: every field, unless one side has \<open>None\<close>.\<close>

definition addr_xeq :: "xval \<Rightarrow> xval \<Rightarrow> bool res" where
  "addr_xeq a b =
     bindE (as_ipv6 a) (\<lambda>s. bindE (as_ipv6 b) (\<lambda>t.
       case (s, t) of
         (XAddr f p x, XAddr f' p' x') \<Rightarrow> Inr (opt_eq f f' \<and> opt_eq p p' \<and> opt_eq x x')
       | _ \<Rightarrow> Inl (TypeError ''TypeMismatch'')))"

lemma size_dict_xval [termination_simp]:
  "(k, v) \<in> set d \<Longrightarrow> size v < Suc (size_list (size_prod (\<lambda>_. 0) size) d)"
  by (induction d) auto

text \<open>
  \<open>obj_xeq\<close>, with \<open>list_xeq\<close>, \<open>dict_xeq\<close> and \<open>XCmp.xeq\<close> as its branches. The loops of \<open>dict_xeq\<close>
  go over the sorted keys; the first list is what the recursion descends on.
\<close>

function obj_xeq :: "xval \<Rightarrow> xval \<Rightarrow> bool res" where
  "obj_xeq (XList l0) b =
     bindE (as_list b) (\<lambda>l1. if length l0 \<noteq> length l1 then Inr False
       else match_all (\<lambda>x y. obj_xeq x y) l0 l1)"
| "obj_xeq (XDict d0) b =
     (case b of
        XDict d1 \<Rightarrow>
          if sort (dkeys d0) \<noteq> sort (dkeys d1) then Inr False
          else allE (\<lambda>(k, v). case dget d1 k of None \<Rightarrow> Inl (KeyError (PStr k)) | Some w \<Rightarrow> obj_xeq v w)
                 (sort_key fst d0)
      | _ \<Rightarrow> Inl (AttributeError ''keys''))"
| "obj_xeq (XObj c fs) b =
     (case b of
        XObj c' gs \<Rightarrow>
          if c \<noteq> c' then Inl (TypeError ''TypeMismatch'')
          else allE (\<lambda>(k, v). case dget gs k of
                       None \<Rightarrow> Inl (AttributeError k)
                     | Some w \<Rightarrow> if v = XNone \<or> w = XNone then Inr True else obj_xeq v w) fs
      | _ \<Rightarrow> Inl (TypeError ''TypeMismatch''))"
| "obj_xeq (XAddr f p x) b = addr_xeq (XAddr f p x) b"
| "obj_xeq XNone b = Inr (b = XNone)"
| "obj_xeq (XInt i) b = Inr (b = XInt i)"
| "obj_xeq (XStr s) b = Inr (b = XStr s)"
| "obj_xeq (XBytes bs) b = Inr (b = XBytes bs)"
  by pat_completeness auto
termination
  by (relation "measure (\<lambda>(a, b). size a)") (auto simp: size_dict_xval size_list_estimation' less_Suc_eq_le)

section \<open>Order and sorting\<close>

lemma zip_members: "(x, y) \<in> set (zip xs ys) \<Longrightarrow> x \<in> set xs \<and> y \<in> set ys"
  by (auto dest: set_zip_leftD set_zip_rightD)

text \<open>\<open>==\<close> of Python on these values: dicts compare without regard to order.\<close>

function py_eq :: "xval \<Rightarrow> xval \<Rightarrow> bool" where
  "py_eq (XList l0) b = (case b of XList l1 \<Rightarrow> length l0 = length l1 \<and> (\<forall>(x, y) \<in> set (zip l0 l1). py_eq x y) | _ \<Rightarrow> False)"
| "py_eq (XDict d0) b =
     (case b of XDict d1 \<Rightarrow> length d0 = length d1 \<and>
        (\<forall>(k, v) \<in> set d0. case dget d1 k of None \<Rightarrow> False | Some w \<Rightarrow> py_eq v w) | _ \<Rightarrow> False)"
| "py_eq (XObj c fs) b =
     (case b of XObj c' gs \<Rightarrow> c = c' \<and> length fs = length gs \<and>
        (\<forall>((k, v), (k', w)) \<in> set (zip fs gs). py_eq v w) | _ \<Rightarrow> False)"
| "py_eq XNone b = (b = XNone)"
| "py_eq (XInt i) b = (b = XInt i)"
| "py_eq (XStr s) b = (b = XStr s)"
| "py_eq (XBytes bs) b = (b = XBytes bs)"
| "py_eq (XAddr f p x) b = (b = XAddr f p x)"
  by pat_completeness auto
termination
  by (relation "measure (\<lambda>(a, b). size a)")
    (auto simp: size_dict_xval size_list_estimation' less_Suc_eq_le dest!: set_zip_leftD)

text \<open>
  The loop of \<open>XCmp.__lt__\<close> over pairs of field values: the answer is decided at the first
  field that differs. \<open>None\<close> is below everything when it is on the left; on the right the
  comparison \<open>v0 < None\<close> is left to Python. \<open>lt\<close> compares two field values.
\<close>

fun lt_fields :: "('a \<Rightarrow> 'a \<Rightarrow> bool res) \<Rightarrow> ('a \<Rightarrow> bool) \<Rightarrow> ('a \<times> 'a) list \<Rightarrow> bool res" where
  "lt_fields lt none [] = Inr False"
| "lt_fields lt none ((v0, v1) # ps) =
     (if none v0 then (if none v1 then lt_fields lt none ps else Inr True)
      else bindE (lt v0 v1) (\<lambda>t. if t then Inr True
             else bindE (lt v1 v0) (\<lambda>g. if g then Inr False else lt_fields lt none ps)))"

text \<open>The lexicographic order of lists: skip equal elements, compare the first that differ.\<close>

fun lt_lex :: "('a \<Rightarrow> 'a \<Rightarrow> bool res) \<Rightarrow> ('a \<Rightarrow> 'a \<Rightarrow> bool) \<Rightarrow> 'a list \<Rightarrow> 'a list \<Rightarrow> bool res" where
  "lt_lex lt eq [] ys = Inr (ys \<noteq> [])"
| "lt_lex lt eq (x # xs) [] = Inr False"
| "lt_lex lt eq (x # xs) (y # ys) = (if eq x y then lt_lex lt eq xs ys else lt x y)"

lemma lt_fields_cong [fundef_cong]:
  "ps = qs \<Longrightarrow> none = none' \<Longrightarrow>
    (\<And>x y. (x, y) \<in> set qs \<Longrightarrow> lt x y = lt' x y) \<Longrightarrow> (\<And>x y. (x, y) \<in> set qs \<Longrightarrow> lt y x = lt' y x) \<Longrightarrow>
    lt_fields lt none ps = lt_fields lt' none' qs"
  by (induction qs arbitrary: ps) (auto simp: bindE_def split: sum.splits)

lemma lt_lex_cong [fundef_cong]:
  "xs = xs' \<Longrightarrow> ys = ys' \<Longrightarrow> eq = eq' \<Longrightarrow>
    (\<And>x y. x \<in> set xs' \<Longrightarrow> y \<in> set ys' \<Longrightarrow> lt x y = lt' x y) \<Longrightarrow> lt_lex lt eq xs ys = lt_lex lt' eq' xs' ys'"
proof (induction lt eq xs' ys' arbitrary: xs ys rule: lt_lex.induct)
qed auto

text \<open>\<open>XCmp.__lt__\<close> of two addresses, after \<open>as_ipv6\<close>; a missing component is \<open>None\<close>.\<close>

definition addr_fields :: "xval \<Rightarrow> xval list" where
  "addr_fields v = (case v of XAddr f p x \<Rightarrow>
     [case f of None \<Rightarrow> XNone | Some i \<Rightarrow> XInt i, case p of None \<Rightarrow> XNone | Some i \<Rightarrow> XInt i,
      case x of None \<Rightarrow> XNone | Some b \<Rightarrow> XBytes b] | _ \<Rightarrow> [])"

text \<open>\<open><\<close> of two scalars.\<close>

definition scalar_lt :: "xval \<Rightarrow> xval \<Rightarrow> bool res" where
  "scalar_lt a b =
     (case (a, b) of
        (XInt i, XInt j) \<Rightarrow> Inr (i < j)
      | (XStr s, XStr t) \<Rightarrow> Inr (s < t)
      | (XBytes s, XBytes t) \<Rightarrow> Inr (s < t)
      | _ \<Rightarrow> Inl (TypeError ''not supported between instances''))"

definition addr_lt :: "xval \<Rightarrow> xval \<Rightarrow> bool res" where
  "addr_lt a b =
     bindE (as_ipv6 a) (\<lambda>s. bindE (as_ipv6 b) (\<lambda>t.
       lt_fields scalar_lt (\<lambda>v. v = XNone) (zip (addr_fields s) (addr_fields t))))"

function py_lt :: "xval \<Rightarrow> xval \<Rightarrow> bool res" where
  "py_lt (XList xs) b =
     (case b of XList ys \<Rightarrow> lt_lex (\<lambda>x y. py_lt x y) py_eq xs ys | _ \<Rightarrow> Inl (TypeError ''not supported between instances''))"
| "py_lt (XObj c fs) b =
     (case b of
        XObj c' gs \<Rightarrow>
          if c \<noteq> c' then Inl (TypeError ''TypeMismatch'')
          else lt_fields (\<lambda>x y. py_lt x y) (\<lambda>v. v = XNone) (zip (map snd fs) (map snd gs))
      | _ \<Rightarrow> Inl (TypeError ''TypeMismatch''))"
| "py_lt (XAddr f p x) b = addr_lt (XAddr f p x) b"
| "py_lt XNone b = scalar_lt XNone b"
| "py_lt (XInt i) b = scalar_lt (XInt i) b"
| "py_lt (XStr s) b = scalar_lt (XStr s) b"
| "py_lt (XBytes bs) b = scalar_lt (XBytes bs) b"
| "py_lt (XDict d) b = Inl (TypeError ''not supported between instances'')"
  by pat_completeness auto
termination
proof (relation "measure (\<lambda>(a, b). size a + size b)", goal_cases)
  case (2 xs b ys x y)
  then show ?case
    by (auto simp: less_Suc_eq_le intro!: add_mono le_SucI size_list_estimation')
next
  case (3 c fs b c' gs x y)
  then have "x \<in> snd ` set fs" "y \<in> snd ` set gs"
    by (auto dest!: zip_members)
  then have "size x < size (XObj c fs)" "size y < size (XObj c' gs)"
    using size_dict_xval by (fastforce simp: less_SucI)+
  with 3 show ?case by simp
next
  case (4 c fs b c' gs x y)
  then have "x \<in> snd ` set fs" "y \<in> snd ` set gs"
    by (auto dest!: zip_members)
  then have "size x < size (XObj c fs)" "size y < size (XObj c' gs)"
    using size_dict_xval by (fastforce simp: less_SucI)+
  with 4 show ?case by simp
qed simp

text \<open>
  \<open>l.sort()\<close>: stable, by insertion with \<open><\<close>; any sorting algorithm gives this list when \<open><\<close> is
  a strict weak order on the elements. It raises what a comparison raises.
\<close>

fun insert_by :: "('a \<Rightarrow> 'a \<Rightarrow> bool res) \<Rightarrow> 'a \<Rightarrow> 'a list \<Rightarrow> 'a list res" where
  "insert_by lt x [] = Inr [x]"
| "insert_by lt x (y # ys) =
     bindE (lt y x) (\<lambda>t. if t then bindE (insert_by lt x ys) (\<lambda>r. Inr (y # r)) else Inr (x # y # ys))"

fun py_sort :: "('a \<Rightarrow> 'a \<Rightarrow> bool res) \<Rightarrow> 'a list \<Rightarrow> 'a list res" where
  "py_sort lt [] = Inr []"
| "py_sort lt (x # xs) = bindE (py_sort lt xs) (\<lambda>r. insert_by lt x r)"

lemma size_field_list:
  assumes "(k, XList l) \<in> set fs" "e \<in> set l"
  shows "size e < Suc (size_list (size_prod (\<lambda>_. 0) size) fs)"
proof -
  have "size e < size (XList l)" using assms(2) by (simp add: size_list_estimation' less_Suc_eq_le)
  with size_dict_xval [OF assms(1)] show ?thesis by simp
qed

lemma size_field_dict:
  assumes "(k, XDict d) \<in> set fs" "(j, e) \<in> set d"
  shows "size e < Suc (size_list (size_prod (\<lambda>_. 0) size) fs)"
  using size_dict_xval [OF assms(1)] size_dict_xval [OF assms(2)] by simp

lemma size_field_obj:
  "(k, XObj c gs) \<in> set fs \<Longrightarrow>
    size_list (size_prod (\<lambda>_. 0) size) gs < size_list (size_prod (\<lambda>_. 0) size) fs"
  by (drule size_dict_xval) simp

definition is_xcmp :: "xval \<Rightarrow> bool" where
  "is_xcmp v = (case v of XObj _ _ \<Rightarrow> True | XAddr _ _ _ \<Rightarrow> True | _ \<Rightarrow> False)"

text \<open>\<open>XCmp.xsort\<close>, with \<open>list_xsort\<close> and \<open>dict_xsort\<close> as the branches of its loop.\<close>

function xsort :: "xval \<Rightarrow> xval res" where
  "xsort (XObj c fs) =
     bindE (mapE (\<lambda>(k, v). bindE
        (case v of
           XList l \<Rightarrow> bindE (mapE (\<lambda>e. if is_xcmp e then xsort e else Inr e) l) (\<lambda>l'.
                      bindE (py_sort py_lt l') (\<lambda>s. Inr (XList s)))
         | XDict d \<Rightarrow> bindE (mapE (\<lambda>(j, e). if is_xcmp e then bindE (xsort e) (\<lambda>e'. Inr (j, e')) else Inr (j, e)) d)
                      (\<lambda>d'. Inr (XDict d'))
         | _ \<Rightarrow> if is_xcmp v then xsort v else Inr v)
        (\<lambda>v'. Inr (k, v'))) fs) (\<lambda>fs'. Inr (XObj c fs'))"
| "xsort XNone = Inr XNone"
| "xsort (XInt i) = Inr (XInt i)"
| "xsort (XStr s) = Inr (XStr s)"
| "xsort (XBytes b) = Inr (XBytes b)"
| "xsort (XList l) = Inr (XList l)"
| "xsort (XDict d) = Inr (XDict d)"
| "xsort (XAddr f p x) = Inr (XAddr f p x)"
  by pat_completeness auto
termination
  by (relation "measure size") (auto dest: size_field_list size_field_dict size_field_obj)

section \<open>StreamData\<close>

definition sd_slots :: "string list" where
  "sd_slots = [''name'', ''src'', ''tid'', ''uid'', ''gid'', ''perm'', ''is_json'', ''data'']"

definition sd_cmp_fields :: "string list" where
  "sd_cmp_fields = [''name'', ''src'', ''uid'', ''gid'', ''perm'', ''is_json'', ''data'']"

text \<open>An object is the dict of its slots. A name that is no slot cannot be set.\<close>

definition sd_init :: "xval list \<Rightarrow> xval dict \<Rightarrow> xval dict res" where
  "sd_init args kwargs =
     (if args \<noteq> [] \<and> kwargs \<noteq> []
      then Inl (ValueError ''StreamData can be initialized with either *args or **kwargs but not both'')
      else
        (let o0 = map (\<lambda>k. (k, XNone)) sd_slots in
         if args \<noteq> [] then
           (if length args \<noteq> length sd_slots then Inl (ValueError [])
            else Inr (dupdate o0 (zip sd_slots args)))
         else if kwargs \<noteq> [] then
           foldE (\<lambda>o1 (k, v). if k \<in> set sd_slots then Inr (dset k v o1) else Inl (AttributeError k)) o0 kwargs
         else Inl (ValueError ''Missing initialize parameters'')))"

definition sd_as_list :: "xval dict \<Rightarrow> xval list" where
  "sd_as_list d = map (\<lambda>f. dget_or d f XNone) sd_slots"

text \<open>\<open>__eq__\<close>; \<open>None\<close> on the right stands for an object of another type.\<close>

definition sd_eq :: "xval dict \<Rightarrow> xval dict option \<Rightarrow> bool" where
  "sd_eq a other =
     (case other of
        None \<Rightarrow> False
      | Some b \<Rightarrow>
          list_all (\<lambda>k. let v0 = dget_or a k XNone; v1 = dget_or b k XNone in
            v0 = XNone \<or> v1 = XNone \<or> py_eq v0 v1) sd_cmp_fields)"

section \<open>What a positive comparison means\<close>

lemma take_first_Some:
  "take_first p l = Inr (Some r) \<Longrightarrow> \<exists>b. p b = Inr True \<and> b \<in> set l \<and> mset l = add_mset b (mset r)"
  by (induction l arbitrary: r) (auto simp: res_simps split: if_splits)

lemma take_first_len: "take_first p l = Inr (Some r) \<Longrightarrow> length l = Suc (length r)"
  by (induction l arbitrary: r) (auto simp: res_simps split: if_splits)

lemma match_all_sound:
  "match_all p as l = Inr True \<Longrightarrow> length as = length l \<Longrightarrow>
    \<exists>m. mset m = mset l \<and> list_all2 (\<lambda>a b. p a b = Inr True) as m"
proof (induction as arbitrary: l)
  case (Cons a as)
  then obtain l' where l': "take_first (p a) l = Inr (Some l')" "match_all p as l' = Inr True"
    by (auto simp: res_simps split: option.splits)
  with Cons.prems(2) take_first_len [OF l'(1)] Cons.IH [OF l'(2)]
  obtain m where "mset m = mset l'" "list_all2 (\<lambda>a b. p a b = Inr True) as m" by auto
  moreover obtain b where "p a b = Inr True" "mset l = add_mset b (mset l')"
    using take_first_Some [OF l'(1)] by blast
  ultimately show ?case by (intro exI [of _ "b # m"]) simp
qed simp

lemma match_all_refl: "(\<And>a. a \<in> set as \<Longrightarrow> p a a = Inr True) \<Longrightarrow> match_all p as as = Inr True"
  by (induction as) auto

lemma allE_True: "allE p xs = Inr True \<longleftrightarrow> (\<forall>x \<in> set xs. p x = Inr True)"
  by (induction xs) (auto simp: res_simps split: if_splits)

text \<open>Well-formed values: dict and field names are distinct, addresses have their bytes.\<close>

fun xv_wf :: "xval \<Rightarrow> bool" where
  "xv_wf (XList l) = (\<forall>x \<in> set l. xv_wf x)"
| "xv_wf (XDict d) = (distinct (dkeys d) \<and> (\<forall>p \<in> set d. xv_wf (snd p)))"
| "xv_wf (XObj c fs) = (distinct (dkeys fs) \<and> (\<forall>p \<in> set fs. xv_wf (snd p)))"
| "xv_wf (XAddr f p x) = (f = Some 10 \<or> x \<noteq> None)"
| "xv_wf v = True"

lemma obj_xeq_refl: "xv_wf v \<Longrightarrow> obj_xeq v v = Inr True"
proof (induction v)
  case (XList l)
  then have "match_all (\<lambda>x y. obj_xeq x y) l l = Inr True" by (intro match_all_refl) simp
  then show ?case by (simp add: as_list_def)
next
  case (XDict d)
  have "obj_xeq v v = Inr True" if "(k, v) \<in> set d" for k v
    using XDict that by (force simp: snds.simps)
  moreover have "dget d k = Some v" if "(k, v) \<in> set d" for k v
    using XDict that by (simp add: map_of_is_SomeI)
  ultimately show ?case by (auto simp: allE_True split: option.splits)
next
  case (XObj c fs)
  have "obj_xeq v v = Inr True" if "(k, v) \<in> set fs" for k v
    using XObj that by (force simp: snds.simps)
  moreover have "dget fs k = Some v" if "(k, v) \<in> set fs" for k v
    using XObj that by (simp add: map_of_is_SomeI)
  ultimately show ?case by (auto simp: allE_True split: option.splits)
next
  case (XAddr f p x)
  then show ?case by (auto simp: addr_xeq_def as_ipv6_def opt_eq_def)
qed simp_all

section \<open>Sorting\<close>

lemma insert_by_mset: "insert_by lt x ys = Inr r \<Longrightarrow> mset r = add_mset x (mset ys)"
  by (induction ys arbitrary: r) (auto simp: res_simps split: if_splits)

lemma py_sort_mset: "py_sort lt xs = Inr r \<Longrightarrow> mset r = mset xs"
  by (induction xs arbitrary: r) (auto simp: res_simps dest!: insert_by_mset)

text \<open>Time stamps, as a type of their own with the order of \<open>(tv_sec, tv_nsec)\<close>.\<close>

datatype timespec = TimeSpec (tv_sec: int) (tv_nsec: int)

instantiation timespec :: linorder
begin

definition less_eq_timespec :: "timespec \<Rightarrow> timespec \<Rightarrow> bool" where
  "less_eq_timespec a b \<longleftrightarrow> tv_sec a < tv_sec b \<or> tv_sec a = tv_sec b \<and> tv_nsec a \<le> tv_nsec b"

definition less_timespec :: "timespec \<Rightarrow> timespec \<Rightarrow> bool" where
  "less_timespec a b \<longleftrightarrow> tv_sec a < tv_sec b \<or> tv_sec a = tv_sec b \<and> tv_nsec a < tv_nsec b"

instance
  by standard (auto simp: less_eq_timespec_def less_timespec_def intro: timespec.expand)

end

definition ts_obj :: "timespec \<Rightarrow> xval" where
  "ts_obj t = XObj ''TimeSpec'' [(''tv_sec'', XInt (tv_sec t)), (''tv_nsec'', XInt (tv_nsec t))]"

lemma py_lt_ts: "py_lt (ts_obj a) (ts_obj b) = Inr (a < b)"
  by (auto simp: ts_obj_def scalar_lt_def less_timespec_def)

lemma insert_by_ts: "insert_by py_lt (ts_obj t) (map ts_obj ts) = Inr (map ts_obj (insort t ts))"
  by (induction ts) (auto simp: py_lt_ts)

lemma py_sort_ts: "py_sort py_lt (map ts_obj ts) = Inr (map ts_obj (sort ts))"
  by (induction ts) (simp_all add: insert_by_ts)

section \<open>Properties\<close>

text \<open>
  C12: soundness of the wildcard comparison of lists. When it answers yes, the second list can
  be reordered so that every element of the first compares equal to its counterpart: nothing
  observed is left unexplained and nothing expected is missing.
\<close>

theorem list_xeq_sound:
  assumes "obj_xeq (XList l0) (XList l1) = Inr True"
  shows "\<exists>m. mset m = mset l1 \<and> list_all2 (\<lambda>a b. obj_xeq a b = Inr True) l0 m"
  using assms match_all_sound [of "\<lambda>x y. obj_xeq x y" l0 l1]
  by (auto simp: as_list_def split: if_splits)

definition counter_obj :: "xval \<Rightarrow> xval" where
  "counter_obj n = XObj ''TimeSpec'' [(''tv_sec'', n), (''tv_nsec'', XNone)]"

theorem list_xeq_sound_witness:
  "\<exists>m. mset m = mset [counter_obj (XInt 2), counter_obj (XInt 1)] \<and>
    list_all2 (\<lambda>a b. obj_xeq a b = Inr True) [counter_obj (XInt 1), counter_obj XNone] m"
proof (rule list_xeq_sound)
  show "obj_xeq (XList [counter_obj (XInt 1), counter_obj XNone]) (XList [counter_obj (XInt 2), counter_obj (XInt 1)])
      = Inr True"
    by (simp add: counter_obj_def as_list_def)
qed

text \<open>
  The comparison of lists is not complete. The matching is greedy and \<open>None\<close> is a wildcard:
  an expected object with an unknown field may take the only partner of a later one. Here the
  lists do match, the first element with the second and the second with the first, yet the
  answer is no; with the expected elements in the other order it is yes.
\<close>

lemma list_xeq_greedy_misses:
  "obj_xeq (counter_obj XNone) (counter_obj (XInt 2)) = Inr True \<and>
   obj_xeq (counter_obj (XInt 1)) (counter_obj (XInt 1)) = Inr True \<and>
   obj_xeq (XList [counter_obj XNone, counter_obj (XInt 1)]) (XList [counter_obj (XInt 1), counter_obj (XInt 2)]) = Inr False \<and>
   obj_xeq (XList [counter_obj (XInt 1), counter_obj XNone]) (XList [counter_obj (XInt 1), counter_obj (XInt 2)]) = Inr True"
  by (simp add: counter_obj_def as_list_def)

text \<open>
  Every well-formed value, nested lists, dicts and statistics objects included, compares
  equal to itself; wildcards never make a list fail against itself.
\<close>

lemma xeq_reflexive:
  assumes "xv_wf v"
  shows "obj_xeq v v = Inr True"
  by (rule obj_xeq_refl [OF assms])

lemma xeq_reflexive_instance:
  "obj_xeq (XDict [(''b'', XList [XInt 1, XNone]), (''a'', default_addr)])
     (XDict [(''b'', XList [XInt 1, XNone]), (''a'', default_addr)]) = Inr True"
  by (rule xeq_reflexive) (simp add: default_addr_def)

text \<open>
  Sorting statistics. A list of time stamps is sorted by \<open>(tv_sec, tv_nsec)\<close>. With unknown
  fields the order breaks: an object whose field is \<open>None\<close> is below one that has the field,
  but asking the converse raises \<open>TypeError\<close>, so whether a sort succeeds depends on the order
  of its input.
\<close>

lemma xsort_of_time_stamps:
  "xsort (XObj c [(f, XList (map ts_obj ts))]) = Inr (XObj c [(f, XList (map ts_obj (sort ts)))]) \<and>
   py_sort py_lt [counter_obj XNone, counter_obj (XInt i)] = Inl (TypeError ''not supported between instances'') \<and>
   py_sort py_lt [counter_obj (XInt i), counter_obj XNone] = Inr [counter_obj XNone, counter_obj (XInt i)]"
proof -
  have "mapE (\<lambda>e. if is_xcmp e then xsort e else Inr e) (map ts_obj ts) = Inr (map (\<lambda>e. e) (map ts_obj ts))"
    by (rule mapE_Inr_map) (auto simp: ts_obj_def is_xcmp_def)
  then have "xsort (XObj c [(f, XList (map ts_obj ts))]) = Inr (XObj c [(f, XList (map ts_obj (sort ts)))])"
    by (simp add: py_sort_ts)
  moreover have "py_sort py_lt [counter_obj XNone, counter_obj (XInt i)] = Inl (TypeError ''not supported between instances'')"
    "py_sort py_lt [counter_obj (XInt i), counter_obj XNone] = Inr [counter_obj XNone, counter_obj (XInt i)]"
    by (simp_all add: counter_obj_def scalar_lt_def)
  ultimately show ?thesis by blast
qed

end
