(* ===== verification/Regex.thy ===== *)
theory Regex
  imports Prelude
begin

text \<open>
  The part of Python's \<open>re\<close> that the source uses: backtracking matching at the start of a
  string, with greedy repetition, ordered alternatives and named groups. Every use is an
  anchored \<open>match\<close>, so \<open>^\<close> has no constructor. Texts are ASCII. The matcher is proved sound
  and complete for the relation "matches and leaves".
\<close>

section \<open>Expressions and the matcher\<close>

datatype re =
    Eps
  | Ch "char \<Rightarrow> bool"
  | Sq re re
  | Or re re
  | Star re
  | Grp string re
  | Eol

text \<open>\<open>$\<close>: at the end, or before a line feed that ends the string.\<close>

definition at_end :: "string \<Rightarrow> bool" where
  "at_end s \<longleftrightarrow> s = [] \<or> s = nl"

text \<open>
  \<open>rx r s g k\<close> matches a prefix of \<open>s\<close> and hands the rest and the groups to \<open>k\<close>; when \<open>k\<close>
  fails the next way to match is tried. The tests of lengths hold for every call (a match
  never makes the rest longer); they are there for the termination proof, and the strict
  one also ends the repetition of an expression that matches nothing.
\<close>

function rx :: "re \<Rightarrow> string \<Rightarrow> string dict \<Rightarrow> (string \<Rightarrow> string dict \<Rightarrow> string dict option) \<Rightarrow> string dict option" where
  "rx Eps s g k = k s g"
| "rx (Ch p) s g k = (case s of [] \<Rightarrow> None | c # t \<Rightarrow> if p c then k t g else None)"
| "rx (Sq a b) s g k = rx a s g (\<lambda>t g'. if length t \<le> length s then rx b t g' k else None)"
| "rx (Or a b) s g k = (case rx a s g k of Some x \<Rightarrow> Some x | None \<Rightarrow> rx b s g k)"
| "rx (Star a) s g k =
     (case rx a s g (\<lambda>t g'. if length t < length s then rx (Star a) t g' k else None) of
        Some x \<Rightarrow> Some x | None \<Rightarrow> k s g)"
| "rx (Grp n a) s g k = rx a s g (\<lambda>t g'. k t (dset n (take (length s - length t) s) g'))"
| "rx Eol s g k = (if at_end s then k s g else None)"
  by pat_completeness auto
termination
  by (relation "measures [\<lambda>(r, s, g, k). length s, \<lambda>(r, s, g, k). size r]") auto

declare rx.simps [simp del]

text \<open>\<open>RE.match(s).groupdict()\<close>: a group that took no part is absent.\<close>

definition re_match :: "re \<Rightarrow> string \<Rightarrow> string dict option" where
  "re_match r s = rx r s [] (\<lambda>t g. Some g)"

section \<open>Abbreviations\<close>

definition Lit1 :: "char \<Rightarrow> re" where
  "Lit1 c = Ch (\<lambda>x. x = c)"

fun Str :: "string \<Rightarrow> re" where
  "Str [] = Eps"
| "Str (c # cs) = Sq (Lit1 c) (Str cs)"

fun Seqs :: "re list \<Rightarrow> re" where
  "Seqs [] = Eps"
| "Seqs [r] = r"
| "Seqs (r # rs) = Sq r (Seqs rs)"

fun Alts :: "re list \<Rightarrow> re" where
  "Alts [] = Ch (\<lambda>_. False)"
| "Alts [r] = r"
| "Alts (r # rs) = Or r (Alts rs)"

definition Plus :: "re \<Rightarrow> re" where
  "Plus r = Sq r (Star r)"

definition Opt :: "re \<Rightarrow> re" where
  "Opt r = Or r Eps"

definition is_word :: "char \<Rightarrow> bool" where
  "is_word c = (let n = (of_char c :: nat) in (48 \<le> n \<and> n \<le> 57) \<or> (97 \<le> n \<and> n \<le> 122) \<or>
     (65 \<le> n \<and> n \<le> 90) \<or> c = CHR ''_'')"

definition Digit :: re where "Digit = Ch is_digit"
definition Space :: re where "Space = Ch is_space"
definition NonSpace :: re where "NonSpace = Ch (\<lambda>c. \<not> is_space c)"
definition Word :: re where "Word = Ch is_word"
definition Dot :: re where "Dot = Ch (\<lambda>c. c \<noteq> CHR 0x0A)"

section \<open>What matching means\<close>

text \<open>\<open>lang r s t\<close>: \<open>r\<close> matches a prefix of \<open>s\<close> and leaves \<open>t\<close>.\<close>

inductive lang :: "re \<Rightarrow> string \<Rightarrow> string \<Rightarrow> bool" where
  l_eps: "lang Eps s s"
| l_ch: "p c \<Longrightarrow> lang (Ch p) (c # t) t"
| l_sq: "lang a s t \<Longrightarrow> lang b t u \<Longrightarrow> lang (Sq a b) s u"
| l_or1: "lang a s t \<Longrightarrow> lang (Or a b) s t"
| l_or2: "lang b s t \<Longrightarrow> lang (Or a b) s t"
| l_star0: "lang (Star a) s s"
| l_star: "lang a s t \<Longrightarrow> length t < length s \<Longrightarrow> lang (Star a) t u \<Longrightarrow> lang (Star a) s u"
| l_grp: "lang a s t \<Longrightarrow> lang (Grp n a) s t"
| l_eol: "at_end s \<Longrightarrow> lang Eol s s"

inductive_cases lang_EpsE: "lang Eps s t"
inductive_cases lang_ChE: "lang (Ch p) s t"
inductive_cases lang_SqE: "lang (Sq a b) s t"
inductive_cases lang_OrE: "lang (Or a b) s t"
inductive_cases lang_GrpE: "lang (Grp n a) s t"
inductive_cases lang_EolE: "lang Eol s t"

inductive_simps lang_Ch_simps [simp]: "lang (Ch p) s t"
inductive_simps lang_Eps_simps [simp]: "lang Eps s t"
inductive_simps lang_Sq_simps [simp]: "lang (Sq a b) s t"
inductive_simps lang_Or_simps [simp]: "lang (Or a b) s t"
inductive_simps lang_Grp_simps [simp]: "lang (Grp n a) s t"
inductive_simps lang_Eol_simps [simp]: "lang Eol s t"

lemma lang_suffix: "lang r s t \<Longrightarrow> \<exists>p. s = p @ t"
  by (induction rule: lang.induct) auto

lemma lang_length: "lang r s t \<Longrightarrow> length t \<le> length s"
  by (drule lang_suffix) auto

text \<open>Soundness: a success comes from a match whose rest satisfied the continuation.\<close>

lemma rx_sound: "rx r s g k = Some x \<Longrightarrow> \<exists>t g'. lang r s t \<and> k t g' = Some x"
proof (induction r s g k arbitrary: x rule: rx.induct)
  case (1 s g k)
  then show ?case by (auto simp: rx.simps)
next
  case (2 p s g k)
  then show ?case by (auto simp: rx.simps split: list.splits if_splits)
next
  case (3 a b s g k)
  from 3(3) have "rx a s g (\<lambda>t g'. if length t \<le> length s then rx b t g' k else None) = Some x"
    by (simp add: rx.simps)
  from 3(2) [OF this] obtain t g' where t: "lang a s t" "length t \<le> length s" "rx b t g' k = Some x"
    by (auto split: if_splits)
  from 3(1) [OF t(2,3)] t(1) show ?case by (auto intro: l_sq)
next
  case (4 a b s g k)
  show ?case
  proof (cases "rx a s g k")
    case None
    with 4(3) have "rx b s g k = Some x" by (simp add: rx.simps)
    from 4(2) [OF None this] show ?thesis by (auto intro: l_or2)
  next
    case (Some y)
    with 4(3) have "rx a s g k = Some x" by (simp add: rx.simps)
    from 4(1) [OF this] show ?thesis by (auto intro: l_or1)
  qed
next
  case (5 a s g k)
  let ?k = "\<lambda>t g'. if length t < length s then rx (Star a) t g' k else None"
  show ?case
  proof (cases "rx a s g ?k")
    case None
    with 5(3) have "k s g = Some x" by (simp add: rx.simps)
    then show ?thesis by (blast intro: l_star0)
  next
    case (Some y)
    with 5(3) have "rx a s g ?k = Some x" by (simp add: rx.simps)
    from 5(2) [OF this] obtain t g' where t: "lang a s t" "length t < length s" "rx (Star a) t g' k = Some x"
      by (auto split: if_splits)
    from 5(1) [OF t(2,3)] t(1,2) show ?thesis by (blast intro: l_star)
  qed
next
  case (6 n a s g k)
  from 6(2) have "rx a s g (\<lambda>t g'. k t (dset n (take (length s - length t) s) g')) = Some x"
    by (simp add: rx.simps)
  from 6(1) [OF this] show ?case by auto
next
  case (7 s g k)
  then show ?case by (auto simp: rx.simps split: if_splits)
qed

text \<open>Completeness: if some match satisfies the continuation, whatever the groups, one is found.\<close>

lemma rx_complete:
  "lang r s t \<Longrightarrow> (\<And>g'. k t g' \<noteq> None) \<Longrightarrow> rx r s g k \<noteq> None"
proof (induction arbitrary: g k rule: lang.induct)
  case (l_sq a s t b u)
  have "(if length t \<le> length s then rx b t g' k else None) \<noteq> None" for g'
    using l_sq(4,5) lang_length [OF l_sq(1)] by auto
  then have "rx a s g (\<lambda>t g'. if length t \<le> length s then rx b t g' k else None) \<noteq> None"
    by (rule l_sq(3))
  then show ?case by (simp add: rx.simps)
next
  case (l_or1 a s t b)
  have "rx a s g k \<noteq> None" by (rule l_or1(2)) (rule l_or1(3))
  then show ?case by (auto simp: rx.simps split: option.splits)
next
  case (l_or2 b s t a)
  have "rx b s g k \<noteq> None" by (rule l_or2(2)) (rule l_or2(3))
  then show ?case by (auto simp: rx.simps split: option.splits)
next
  case (l_star a s t u)
  have "(if length t < length s then rx (Star a) t g' k else None) \<noteq> None" for g'
    using l_star(2,5,6) by auto
  then have "rx a s g (\<lambda>t g'. if length t < length s then rx (Star a) t g' k else None) \<noteq> None"
    by (rule l_star(4))
  then show ?case by (auto simp: rx.simps split: option.splits)
next
  case (l_star0 a s)
  then show ?case by (auto simp: rx.simps split: option.splits)
qed (auto simp: rx.simps)

lemma re_match_lang: "re_match r s \<noteq> None \<longleftrightarrow> (\<exists>t. lang r s t)"
  using rx_sound [of r s "[]" "\<lambda>t g. Some g"] rx_complete [of r s _ "\<lambda>t g. Some g" "[]"]
  by (auto simp: re_match_def)

text \<open>Literals and runs of characters.\<close>

lemma lang_Lit1 [simp]: "lang (Lit1 c) s t \<longleftrightarrow> s = c # t"
  by (auto simp: Lit1_def)

lemma lang_Str [simp]: "lang (Str w) s t \<longleftrightarrow> s = w @ t"
  by (induction w arbitrary: s) auto

lemma lang_Star_Ch [simp]: "lang (Star (Ch p)) s t \<longleftrightarrow> (\<exists>w. s = w @ t \<and> (\<forall>c \<in> set w. p c))"
proof
  assume "lang (Star (Ch p)) s t"
  then show "\<exists>w. s = w @ t \<and> (\<forall>c \<in> set w. p c)"
  proof (induction "Star (Ch p)" s t rule: lang.induct)
    case (l_star s t u)
    then obtain c w where "s = c # t" "p c" "t = w @ u" "\<forall>c \<in> set w. p c" by auto
    then show ?case by (intro exI [of _ "c # w"]) simp
  qed simp
next
  assume "\<exists>w. s = w @ t \<and> (\<forall>c \<in> set w. p c)"
  then obtain w where "s = w @ t" "\<forall>c \<in> set w. p c" by blast
  then show "lang (Star (Ch p)) s t"
  proof (induction w arbitrary: s)
    case (Cons c w)
    then show ?case by (auto intro!: l_star [of "Ch p" _ "w @ t"])
  qed (simp add: l_star0)
qed

lemma lang_Plus_Ch [simp]:
  "lang (Plus (Ch p)) s t \<longleftrightarrow> (\<exists>w. w \<noteq> [] \<and> s = w @ t \<and> (\<forall>c \<in> set w. p c))"
proof
  assume "lang (Plus (Ch p)) s t"
  then obtain c w where "s = c # w @ t" "p c" "\<forall>c \<in> set w. p c" by (auto simp: Plus_def)
  then show "\<exists>w. w \<noteq> [] \<and> s = w @ t \<and> (\<forall>c \<in> set w. p c)" by (intro exI [of _ "c # w"]) simp
next
  assume "\<exists>w. w \<noteq> [] \<and> s = w @ t \<and> (\<forall>c \<in> set w. p c)"
  then show "lang (Plus (Ch p)) s t" by (auto simp: Plus_def neq_Nil_conv)
qed

lemma lang_Opt [simp]: "lang (Opt r) s t \<longleftrightarrow> lang r s t \<or> t = s"
  by (auto simp: Opt_def)

lemma rx_Str: "rx (Str w) (w @ t) g k = k t g"
  by (induction w) (simp_all add: rx.simps Lit1_def)

text \<open>A run is taken as a whole when what follows it then succeeds.\<close>

lemma rx_Star_Ch:
  assumes "\<forall>c \<in> set w. p c" "t = [] \<or> \<not> p (hd t)" "k t g \<noteq> None"
  shows "rx (Star (Ch p)) (w @ t) g k = k t g"
  using assms(1)
proof (induction w)
  case Nil
  then show ?case using assms(2) by (cases t) (auto simp: rx.simps)
next
  case (Cons c w)
  then show ?case using assms(3) by (auto simp: rx.simps split: option.splits)
qed

lemma rx_Plus_Ch:
  assumes "w \<noteq> []" "\<forall>c \<in> set w. p c" "t = [] \<or> \<not> p (hd t)" "k t g \<noteq> None"
  shows "rx (Plus (Ch p)) (w @ t) g k = k t g"
proof -
  obtain c u where w: "w = c # u" using assms(1) by (cases w) auto
  have "rx (Star (Ch p)) (u @ t) g k = k t g"
    by (rule rx_Star_Ch) (use assms w in auto)
  then show ?thesis using w assms(2) by (simp add: Plus_def rx.simps)
qed

end
