(* ===== verification/LdmsLs.thy ===== *)
theory LdmsLs
  imports Regex
begin

text \<open>
  \<open>parse_ldms_ls\<close> of \<open>LDMS_Test.py\<close>: the text that \<open>ldms_ls -l -v\<close> prints, line by line, with
  the regular expression that classifies a line, the section counter, and the conversion of
  metric values. Texts are ASCII. A float is denoted by the text it was read from.
\<close>

section \<open>The line expression\<close>

definition Float_opt :: re where
  "Float_opt = Sq (Plus Digit) (Opt (Sq (Lit1 CHR ''.'') (Plus Digit)))"

definition PRE_META_KV :: re where
  "PRE_META_KV = Seqs [Grp ''pre_meta_key'' (Sq (Star Dot) Word), Plus Space, Lit1 CHR '':'', Plus Space,
     Grp ''pre_meta_val'' (Star Dot), Eol]"

definition META_BEGIN :: re where
  "META_BEGIN = Grp ''meta_begin'' (Seqs
     [Opt (Sq (Str ''Schema Digest'') (Plus Space)), Str ''Schema'', Plus Space, Str ''Instance'', Plus Space,
      Str ''Flags'', Star Dot, Plus Space, Str ''Info''])"

definition META_DASHES :: re where
  "META_DASHES = Sq (Grp ''meta_dashes'' (Plus (Ch (\<lambda>c. c = CHR '' '' \<or> c = CHR ''-'')))) Eol"

definition META_SUMMARY :: re where
  "META_SUMMARY = Seqs
     [Str ''Total Sets: '', Grp ''meta_total_sets'' (Plus Digit), Str '', '',
      Str ''Meta Data (kB)'', Opt (Lit1 CHR '':''), Str '' '', Grp ''meta_sz'' Float_opt, Str '', '',
      Str ''Data (kB)'', Opt (Lit1 CHR '':''), Str '' '', Grp ''data_sz'' Float_opt, Str '', '',
      Str ''Memory (kB)'', Opt (Lit1 CHR '':''), Str '' '', Grp ''mem_sz'' Float_opt]"

definition Rwx :: re where
  "Rwx = Seqs [Ch (\<lambda>c. c = CHR ''r'' \<or> c = CHR ''-''), Ch (\<lambda>c. c = CHR ''w'' \<or> c = CHR ''-''),
     Ch (\<lambda>c. c = CHR ''x'' \<or> c = CHR ''-'')]"

definition META_DATA :: re where
  "META_DATA = Seqs
     [Opt (Sq (Grp ''meta_schema_digest'' (Plus (Ch is_hex))) (Plus Space)),
      Grp ''meta_schema'' (Plus NonSpace), Plus Space,
      Grp ''meta_inst'' (Plus NonSpace), Plus Space,
      Grp ''meta_flags'' (Plus (Ch (\<lambda>c. \<not> is_digit c))), Plus Space,
      Grp ''meta_msize'' (Plus Digit), Plus Space,
      Grp ''meta_dsize'' (Plus Digit), Plus Space,
      Grp ''meta_hsize'' (Plus Digit), Plus Space,
      Grp ''meta_uid'' (Plus Digit), Plus Space,
      Grp ''meta_gid'' (Plus Digit), Plus Space,
      Grp ''meta_perm'' (Seqs [Lit1 CHR ''-'', Rwx, Rwx, Rwx]), Plus Space,
      Grp ''meta_update'' (Seqs [Plus Digit, Lit1 CHR ''.'', Plus Digit]), Plus Space,
      Grp ''meta_duration'' (Seqs [Plus Digit, Lit1 CHR ''.'', Plus Digit]),
      Opt (Sq (Plus Space) (Grp ''meta_info'' (Star Dot)))]"

definition META_END :: re where
  "META_END = Sq (Grp ''meta_end'' (Plus (Lit1 CHR ''=''))) Eol"

definition LS_L_HDR :: re where
  "LS_L_HDR = Seqs [Grp ''set_name'' (Plus (Ch (\<lambda>c. c \<noteq> CHR '':''))), Str '': '', Star Dot,
     Str '' last update: '', Grp ''ts'' (Star Dot)]"

definition LS_L_DATA :: re where
  "LS_L_DATA = Seqs [Grp ''F'' Dot, Lit1 CHR '' '', Grp ''type'' (Plus NonSpace), Plus Space,
     Grp ''metric_name'' (Plus NonSpace), Plus Space, Grp ''metric_value'' (Star Dot)]"

definition LS_RE :: re where
  "LS_RE = Alts [PRE_META_KV, META_BEGIN, META_DASHES, META_DATA, META_SUMMARY, META_END, LS_L_HDR, LS_L_DATA]"

section \<open>Metric values\<close>

datatype lval = LInt int | LStr string | LFloat string | LInts "int list" | LFloats "string list"

text \<open>
  \<open>int(s, base=0)\<close>: a decimal without leading zeros, or a literal with a prefix. Digit
  separators \<open>_\<close>, which \<open>ldms_ls\<close> never prints, are refused.
\<close>

definition digits_in :: "nat \<Rightarrow> string \<Rightarrow> bool" where
  "digits_in b s \<longleftrightarrow> s \<noteq> [] \<and> list_all (\<lambda>c. case digit_val c of None \<Rightarrow> False | Some d \<Rightarrow> d < b) s"

definition int0 :: "string \<Rightarrow> int res" where
  "int0 s =
     (let t = strip s; neg = startswith ''-'' t;
          u = (if startswith ''-'' t \<or> startswith ''+'' t then tl t else t);
          p = lower (take 2 u); r = drop 2 u;
          bad = Inl (ValueError ''invalid literal for int() with base 0'');
          sgn = (\<lambda>n. if neg then - int n else int n)
      in if p = ''0x'' then (if digits_in 16 r then Inr (sgn (of_digits 16 r)) else bad)
         else if p = ''0o'' then (if digits_in 8 r then Inr (sgn (of_digits 8 r)) else bad)
         else if p = ''0b'' then (if digits_in 2 r then Inr (sgn (of_digits 2 r)) else bad)
         else if digits_in 10 u \<and> (hd u \<noteq> CHR ''0'' \<or> list_all (\<lambda>c. c = CHR ''0'') u)
              then Inr (sgn (of_digits 10 u)) else bad)"

definition Float_RE :: re where
  "Float_RE = Sq (Seqs [Opt (Ch (\<lambda>c. c = CHR ''-'' \<or> c = CHR ''+'')),
     Alts [Sq (Plus Digit) (Opt (Sq (Lit1 CHR ''.'') (Star Digit))), Sq (Lit1 CHR ''.'') (Plus Digit),
           Str ''nan'', Str ''infinity'', Str ''inf''],
     Opt (Seqs [Lit1 CHR ''e'', Opt (Ch (\<lambda>c. c = CHR ''-'' \<or> c = CHR ''+'')), Plus Digit])]) Eol"

definition float_of :: "string \<Rightarrow> string res" where
  "float_of s =
     (if re_match Float_RE (lower (strip s)) = None then Inl (ValueError ''could not convert string to float'')
      else Inr (strip s))"

definition int_types :: "string list" where
  "int_types = [''u8'', ''s8'', ''u16'', ''s16'', ''u32'', ''s32'', ''u64'', ''s64'']"

text \<open>The entries of \<open>_TYPE_FN\<close>, by what they do, and \<open>_TYPE_FN[mtype](_val)\<close>.\<close>

datatype kind = KChar | KChars | KInt | KFloat | KInts | KFloats

definition kind_of :: "string \<Rightarrow> kind option" where
  "kind_of ty =
     (if ty = ''char'' then Some KChar
      else if ty = ''char[]'' then Some KChars
      else if ty \<in> set int_types then Some KInt
      else if ty = ''f32'' \<or> ty = ''d64'' then Some KFloat
      else if ty \<in> set (map (\<lambda>t. t @ ''[]'') int_types) then Some KInts
      else if ty = ''f32[]'' \<or> ty = ''d64[]'' then Some KFloats
      else None)"

definition type_fn :: "string \<Rightarrow> string \<Rightarrow> lval res" where
  "type_fn ty x =
     (case kind_of ty of
        None \<Rightarrow> Inl (KeyError (PStr ty))
      | Some KChar \<Rightarrow> Inr (LStr (strip_by (\<lambda>c. c = CHR 0x27) x))
      | Some KChars \<Rightarrow> Inr (LStr (strip_by (\<lambda>c. c = CHR 0x22) x))
      | Some KInt \<Rightarrow> bindE (int0 x) (\<lambda>i. Inr (LInt i))
      | Some KFloat \<Rightarrow> bindE (float_of x) (\<lambda>f. Inr (LFloat f))
      | Some KInts \<Rightarrow> bindE (mapE int0 (split_on CHR '','' x)) (\<lambda>l. Inr (LInts l))
      | Some KFloats \<Rightarrow> bindE (mapE float_of (split_on CHR '','' x)) (\<lambda>l. Inr (LFloats l)))"

section \<open>The parser\<close>

text \<open>A set as it is filled in; a key that was never set is \<open>None\<close>.\<close>

record lset =
  ls_name :: string
  ls_meta :: "(string option) dict option"
  ls_ts :: "string option"
  ls_data :: "lval dict option"
  ls_types :: "string dict option"

text \<open>
  The local \<open>data\<close>: not yet assigned, \<open>None\<close> after an empty line, or the dict of the named
  set, which later assignments go through. \<open>data_type\<close> always belongs to the same set when
  \<open>data\<close> is a dict.
\<close>

datatype data_var = Unbound | DNone | DataOf string

record ls_state =
  sects :: nat
  ret :: "lset dict"
  data_ref :: data_var

definition ls_init :: ls_state where
  "ls_init = \<lparr>sects = 0, ret = [], data_ref = Unbound\<rparr>"

definition empty_set :: "string \<Rightarrow> lset" where
  "empty_set n = \<lparr>ls_name = n, ls_meta = None, ls_ts = None, ls_data = None, ls_types = None\<rparr>"

definition meta_dict :: "string dict \<Rightarrow> (string option) dict" where
  "meta_dict m =
     [(''schema_digest'', dget m ''meta_schema_digest''), (''schema'', dget m ''meta_schema''),
      (''instance'', dget m ''meta_inst''), (''flags'', dget m ''meta_flags''),
      (''meta_sz'', dget m ''meta_msize''), (''data_sz'', dget m ''meta_dsize''),
      (''heap_sz'', dget m ''meta_hsize''), (''uid'', dget m ''meta_uid''), (''gid'', dget m ''meta_gid''),
      (''perm'', dget m ''meta_perm''), (''update'', dget m ''meta_update''),
      (''duration'', dget m ''meta_duration''), (''info'', dget m ''meta_info'')]"

text \<open>\<open>m[g]\<close> is true: the group took part and is not empty.\<close>

definition has :: "string dict \<Rightarrow> string \<Rightarrow> bool" where
  "has m g = (case dget m g of None \<Rightarrow> False | Some s \<Rightarrow> s \<noteq> [])"

definition grp :: "string dict \<Rightarrow> string \<Rightarrow> string" where
  "grp m g = dget_or m g []"

definition set_metric :: "string \<Rightarrow> lval \<Rightarrow> string \<Rightarrow> lset \<Rightarrow> lset" where
  "set_metric n v ty L = L\<lparr>ls_data := map_option (dset n v) (ls_data L), ls_types := map_option (dset n ty) (ls_types L)\<rparr>"

definition bad_meta :: "string \<Rightarrow> pyerr" where
  "bad_meta l = RuntimeError (''Unexpected meta info: '' @ l)"

definition ls_groups :: "string \<Rightarrow> string dict \<Rightarrow> ls_state \<Rightarrow> ls_state res" where
  "ls_groups l m st =
     (if has m ''meta_begin'' then
        (if sects st \<noteq> 0 then Inl (bad_meta l) else Inr (st\<lparr>sects := 1\<rparr>))
      else if has m ''meta_schema'' then
        (if sects st \<noteq> 1 then Inl (bad_meta l)
         else (let n = grp m ''meta_inst''; s = dget_or (ret st) n (empty_set n) in
               Inr (st\<lparr>ret := dset n (s\<lparr>ls_meta := Some (meta_dict m), ls_name := n\<rparr>) (ret st)\<rparr>)))
      else if has m ''meta_total_sets'' \<or> has m ''meta_dashes'' then
        (if sects st \<noteq> 1 then Inl (bad_meta l) else Inr st)
      else if has m ''meta_end'' then
        (if sects st \<noteq> 1 then Inl (bad_meta l) else Inr (st\<lparr>sects := 2\<rparr>))
      else if has m ''set_name'' then
        (let sc = (if sects st = 0 then 2 else sects st) in
         if sc \<noteq> 2 then Inl (RuntimeError (''Unexpected data info: '' @ l))
         else (let n = grp m ''set_name''; s = dget_or (ret st) n (empty_set n) in
               Inr (st\<lparr>sects := sc,
                      ret := dset n (s\<lparr>ls_name := n, ls_ts := dget m ''ts'', ls_data := Some [], ls_types := Some []\<rparr>) (ret st),
                      data_ref := DataOf n\<rparr>)))
      else if has m ''metric_name'' then
        (if sects st \<noteq> 2 then Inl (RuntimeError (''Unexpected data info: '' @ l))
         else
           (let ty = grp m ''type'';
                val = (if ty = ''char[]'' then grp m ''metric_value'' else hd (split1 CHR '' '' (grp m ''metric_value'')))
            in bindE (type_fn ty val) (\<lambda>v.
               case data_ref st of
                 Unbound \<Rightarrow> Inl (NameError ''data'')
               | DNone \<Rightarrow> Inl (TypeError '''NoneType' object does not support item assignment'')
               | DataOf n \<Rightarrow>
                   Inr (st\<lparr>ret := map_ran (\<lambda>k L. if k = n then set_metric (grp m ''metric_name'') v ty L else L) (ret st)\<rparr>))))
      else if has m ''pre_meta_key'' then
        (if sects st \<noteq> 0 then Inl (RuntimeError (''Unexpected pre-meta info: '' @ l)) else Inr st)
      else Inl (RuntimeError (''Unable to process line: '' @ l)))"

definition ls_line :: "ls_state \<Rightarrow> string \<Rightarrow> ls_state res" where
  "ls_line st l0 =
     (let l = strip l0 in
      if l = [] then Inr (st\<lparr>data_ref := DNone\<rparr>)
      else (case re_match LS_RE l of
              None \<Rightarrow> Inl (RuntimeError (''Bad line format: '' @ l))
            | Some m \<Rightarrow> ls_groups l m st))"

definition parse_ldms_ls :: "string \<Rightarrow> lset dict res" where
  "parse_ldms_ls txt = bindE (foldE ls_line ls_init (splitlines_acc [] txt)) (\<lambda>st. Inr (ret st))"

section \<open>What a parse yields\<close>











lemma map_ran_keys [simp]: "dkeys (AList.map_ran f d) = dkeys d"
  by (induction d) auto








section \<open>Properties\<close>






text \<open>
  A metric whose text holds a colon between blanks breaks the parse. The expression for
  the lines before the sets comes first and also matches such a metric line, so the line is
  refused as misplaced; without the blank before the colon the same text is accepted.
\<close>

lemma spaced_colon_in_a_metric_is_refused:
  "parse_ldms_ls (''n1: ok, last update: x'' @ nl @ ''D char[] job  [a : b]'') =
     Inl (RuntimeError ''Unexpected pre-meta info: D char[] job  [a : b]'') \<and>
   parse_ldms_ls (''n1: ok, last update: x'' @ nl @ ''D char[] job  [a: b]'') =
     Inr [(''n1'', \<lparr>ls_name = ''n1'', ls_meta = None, ls_ts = Some ''x'',
       ls_data = Some [(''job'', LStr ''[a: b]'')], ls_types = Some [(''job'', ''char[]'')]\<rparr>)]"
  by code_simp

end
