(* ===== verification/Effects.thy ===== *)
theory Effects
  imports Prelude "HOL-Library.While_Combinator"
begin

text \<open>
  Code with effects: a program of type \<open>('w, 'a) io\<close> takes a world \<open>'w\<close> and returns a value or
  an exception together with the new world, or does not return (\<open>None\<close>). What the world is
  and what the primitive operations do to it (commands run in containers, the clock, the
  docker engine, sockets) are parameters of the components that use them. Also here: the
  text forms of Python values, and the polling loop \<open>cond_timedwait\<close>.
\<close>

named_theorems io_simps "evaluation of effectful programs"

section \<open>Programs\<close>

type_synonym ('w, 'a) io = "'w \<Rightarrow> ('a res \<times> 'w) option"

definition retS :: "'a \<Rightarrow> ('w, 'a) io" where
  "retS x w = Some (Inr x, w)"

definition raiseS :: "pyerr \<Rightarrow> ('w, 'a) io" where
  "raiseS e w = Some (Inl e, w)"

definition bindS :: "('w, 'a) io \<Rightarrow> ('a \<Rightarrow> ('w, 'b) io) \<Rightarrow> ('w, 'b) io" where
  "bindS m f w =
     (case m w of None \<Rightarrow> None | Some (Inl e, w') \<Rightarrow> Some (Inl e, w') | Some (Inr x, w') \<Rightarrow> f x w')"

abbreviation seqS :: "('w, unit) io \<Rightarrow> ('w, 'b) io \<Rightarrow> ('w, 'b) io" where
  "seqS m k \<equiv> bindS m (\<lambda>_. k)"

definition liftE :: "'a res \<Rightarrow> ('w, 'a) io" where
  "liftE r w = Some (r, w)"

definition liftO :: "'a out \<Rightarrow> ('w, 'a) io" where
  "liftO r w = (case r of None \<Rightarrow> None | Some x \<Rightarrow> Some (x, w))"

definition getS :: "('w \<Rightarrow> 'a) \<Rightarrow> ('w, 'a) io" where
  "getS f w = Some (Inr (f w), w)"

definition updS :: "('w \<Rightarrow> 'w) \<Rightarrow> ('w, unit) io" where
  "updS f w = Some (Inr (), f w)"

text \<open>\<open>try: m except: h\<close>.\<close>

definition catchS :: "('w, 'a) io \<Rightarrow> (pyerr \<Rightarrow> ('w, 'a) io) \<Rightarrow> ('w, 'a) io" where
  "catchS m h w = (case m w of Some (Inl e, w') \<Rightarrow> h e w' | r \<Rightarrow> r)"

definition whenS :: "bool \<Rightarrow> ('w, unit) io \<Rightarrow> ('w, unit) io" where
  "whenS b m = (if b then m else retS ())"

fun mapS :: "('a \<Rightarrow> ('w, 'b) io) \<Rightarrow> 'a list \<Rightarrow> ('w, 'b list) io" where
  "mapS f [] = retS []"
| "mapS f (x # xs) = bindS (f x) (\<lambda>y. bindS (mapS f xs) (\<lambda>ys. retS (y # ys)))"

fun forS :: "'a list \<Rightarrow> ('a \<Rightarrow> ('w, unit) io) \<Rightarrow> ('w, unit) io" where
  "forS [] f = retS ()"
| "forS (x # xs) f = seqS (f x) (forS xs f)"

lemma retS_apply [io_simps]: "retS x w = Some (Inr x, w)" by (simp add: retS_def)
lemma raiseS_apply [io_simps]: "raiseS e w = Some (Inl e, w)" by (simp add: raiseS_def)
lemma liftE_apply [io_simps]: "liftE r w = Some (r, w)" by (simp add: liftE_def)
lemma getS_apply [io_simps]: "getS f w = Some (Inr (f w), w)" by (simp add: getS_def)
lemma updS_apply [io_simps]: "updS f w = Some (Inr (), f w)" by (simp add: updS_def)
lemma liftO_apply [io_simps]: "liftO None w = None" "liftO (Some x) w = Some (x, w)"
  by (simp_all add: liftO_def)

lemma bindS_apply [io_simps]:
  "m w = None \<Longrightarrow> bindS m f w = None"
  "m w = Some (Inl e, w') \<Longrightarrow> bindS m f w = Some (Inl e, w')"
  "m w = Some (Inr x, w') \<Longrightarrow> bindS m f w = f x w'"
  by (simp_all add: bindS_def)

lemma bindS_units [simp]:
  "bindS (retS x) f = f x" "bindS (raiseS e) f = raiseS e" "bindS m retS = m"
  by (auto simp: bindS_def retS_def raiseS_def fun_eq_iff split: option.splits sum.splits)

lemma liftE_bind: "bindS (liftE (Inr x)) f = f x" "bindS (liftE (Inl e)) f = raiseS e"
  by (simp_all add: bindS_def liftE_def raiseS_def fun_eq_iff)

lemma bindS_assoc: "bindS (bindS m f) g = bindS m (\<lambda>x. bindS (f x) g)"
  by (auto simp: bindS_def fun_eq_iff split: option.splits sum.splits)

lemma bindS_Inr:
  "bindS m f w = Some (Inr y, w'') \<longleftrightarrow> (\<exists>x w'. m w = Some (Inr x, w') \<and> f x w' = Some (Inr y, w''))"
  by (auto simp: bindS_def split: option.splits sum.splits)

lemma bindS_Inl:
  "bindS m f w = Some (Inl e, w'') \<longleftrightarrow>
    m w = Some (Inl e, w'') \<or> (\<exists>x w'. m w = Some (Inr x, w') \<and> f x w' = Some (Inl e, w''))"
  by (auto simp: bindS_def split: option.splits sum.splits)

lemma bindS_Some:
  "bindS m f w = Some (r, w'') \<longleftrightarrow>
    (\<exists>e. m w = Some (Inl e, w'') \<and> r = Inl e) \<or> (\<exists>x w'. m w = Some (Inr x, w') \<and> f x w' = Some (r, w''))"
  by (auto simp: bindS_def split: option.splits sum.splits)

lemma catchS_apply [io_simps]:
  "m w = None \<Longrightarrow> catchS m h w = None"
  "m w = Some (Inl e, w') \<Longrightarrow> catchS m h w = h e w'"
  "m w = Some (Inr x, w') \<Longrightarrow> catchS m h w = Some (Inr x, w')"
  by (simp_all add: catchS_def)

lemma bindS_mono [partial_function_mono]:
  fixes B :: "('x \<Rightarrow> 'y option) \<Rightarrow> ('w, 'a) io"
  assumes B: "\<And>w. mono_option (\<lambda>f. B f w)" and C: "\<And>y w. mono_option (\<lambda>f. C y f w)"
  shows "mono_option (\<lambda>f. bindS (B f) (\<lambda>y. C y f) w)"
proof (rule monotoneI, goal_cases)
  case (1 f g)
  have b: "option_ord (B f w) (B g w)" by (rule monotoneD [OF B, OF 1])
  have c: "option_ord (C y f w') (C y g w')" for y w' by (rule monotoneD [OF C, OF 1])
  show ?case
  proof (cases "B f w")
    case None
    then show ?thesis by (simp add: bindS_def flat_ord_def)
  next
    case (Some r)
    with b have "B g w = Some r" by (simp add: flat_ord_def)
    then show ?thesis
      using Some c by (cases r; cases "fst r") (simp_all add: bindS_def flat_ord_def [of None "Some _" "Some _"])
  qed
qed

lemma ifS_mono [partial_function_mono]:
  assumes "mono_option (\<lambda>f. A f w)" "mono_option (\<lambda>f. B f w)"
  shows "mono_option (\<lambda>f. (if c then A f else B f) w)"
  using assms by (cases c) simp_all

text \<open>What holds of every primitive step holds of a program: a relation between worlds.\<close>

definition keeps :: "('w \<Rightarrow> 'w \<Rightarrow> bool) \<Rightarrow> ('w, 'a) io \<Rightarrow> bool" where
  "keeps R m \<longleftrightarrow> (\<forall>w r w'. m w = Some (r, w') \<longrightarrow> R w w')"

lemma keepsD: "keeps R m \<Longrightarrow> m w = Some (r, w') \<Longrightarrow> R w w'"
  by (auto simp: keeps_def)

lemma keeps_basic:
  assumes "reflp R"
  shows "keeps R (retS x)" "keeps R (raiseS e)" "keeps R (liftE r)" "keeps R (liftO o')" "keeps R (getS f)"
  using assms by (auto simp: keeps_def io_simps liftO_def reflp_def split: option.splits)

lemma keeps_bind:
  assumes "transp R" "keeps R m" "\<And>x. keeps R (f x)"
  shows "keeps R (bindS m f)"
  unfolding keeps_def bindS_Some using assms by (meson keepsD transpD)

lemma keeps_forS:
  assumes "reflp R" "transp R" "\<And>x. x \<in> set xs \<Longrightarrow> keeps R (f x)"
  shows "keeps R (forS xs f)"
  using assms(3) by (induction xs) (auto intro: keeps_bind [OF assms(2)] keeps_basic [OF assms(1)])

section \<open>Text forms of Python values\<close>

definition hex2 :: "nat \<Rightarrow> string" where
  "hex2 n = map lower_char [digit_char (n div 16), digit_char (n mod 16)]"

definition esc_char :: "char \<Rightarrow> char \<Rightarrow> string" where
  "esc_char q c =
     (if c = q \<or> c = CHR 0x5C then [CHR 0x5C, c]
      else if c = CHR 0x0A then [CHR 0x5C, CHR ''n'']
      else if c = CHR 0x09 then [CHR 0x5C, CHR ''t'']
      else if c = CHR 0x0D then [CHR 0x5C, CHR ''r'']
      else if (of_char c :: nat) < 32 \<or> (of_char c :: nat) = 127 then CHR 0x5C # CHR ''x'' # hex2 (of_char c)
      else [c])"

definition str_repr :: "string \<Rightarrow> string" where
  "str_repr s =
     (let q = (if CHR 0x27 \<in> set s \<and> CHR 0x22 \<notin> set s then CHR 0x22 else CHR 0x27)
      in q # concat (map (esc_char q) s) @ [q])"

fun py_repr :: "pval \<Rightarrow> string" where
  "py_repr PNone = ''None''"
| "py_repr (PBool b) = (if b then ''True'' else ''False'')"
| "py_repr (PInt i) = str_int i"
| "py_repr (PFloat r) = r"
| "py_repr (PStr s) = str_repr s"
| "py_repr (PList xs) = ''['' @ join '', '' (map py_repr xs) @ '']''"
| "py_repr (PTuple xs) = ''('' @ join '', '' (map py_repr xs) @ (if length xs = 1 then '','' else []) @ '')''"
| "py_repr (PDict d) = ''{'' @ join '', '' (map (\<lambda>(k, v). str_repr k @ '': '' @ py_repr v) d) @ ''}''"

text \<open>\<open>str(v)\<close> and \<open>"{}".format(v)\<close>.\<close>

definition py_str :: "pval \<Rightarrow> string" where
  "py_str v = (case v of PStr s \<Rightarrow> s | _ \<Rightarrow> py_repr v)"

lemma py_str_simps [simp]:
  "py_str (PStr s) = s" "py_str (PInt i) = str_int i" "py_str PNone = ''None''"
  by (simp_all add: py_str_def)

section \<open>cond_timedwait\<close>

text \<open>
  \<open>now\<close> reads the clock and \<open>sleep\<close> waits one interval; both are the world's. Times are
  integers (of whatever unit).
\<close>

partial_function (option) poll ::
  "('w, int) io \<Rightarrow> ('w, unit) io \<Rightarrow> ('w, bool) io \<Rightarrow> int \<Rightarrow> int \<Rightarrow> ('w, bool) io" where
  "poll now sleep cond t0 timeout w =
     bindS now (\<lambda>t. if t - t0 < timeout
       then bindS cond (\<lambda>b. if b then retS True else seqS sleep (poll now sleep cond t0 timeout))
       else retS False) w"

definition cond_timedwait ::
  "('w, int) io \<Rightarrow> ('w, unit) io \<Rightarrow> ('w, bool) io \<Rightarrow> int \<Rightarrow> ('w, bool) io" where
  "cond_timedwait now sleep cond timeout = bindS now (\<lambda>t0. poll now sleep cond t0 timeout)"


text \<open>
  A clock that the primitives respect: reading it gives \<open>time\<close> and changes nothing, sleeping
  advances it by at least \<open>d\<close>, the condition always returns and never sets it back.
\<close>

definition clock_ok :: "('w \<Rightarrow> int) \<Rightarrow> int \<Rightarrow> ('w, int) io \<Rightarrow> ('w, unit) io \<Rightarrow> ('w, bool) io \<Rightarrow> bool" where
  "clock_ok time d now sleep cond \<longleftrightarrow>
     (\<forall>w. now w = Some (Inr (time w), w)) \<and>
     (\<forall>w. \<exists>w'. sleep w = Some (Inr (), w') \<and> time w + d \<le> time w') \<and>
     (\<forall>w. \<exists>r w'. cond w = Some (r, w') \<and> time w \<le> time w')"

lemma poll_returns:
  assumes c: "clock_ok time d now sleep cond" and d: "0 < d"
  shows "\<exists>r w'. poll now sleep cond t0 timeout w = Some (r, w') \<and>
    (r = Inr False \<longrightarrow> timeout \<le> time w' - t0) \<and> time w \<le> time w'"
proof (induction "nat (timeout - (time w - t0))" arbitrary: w rule: less_induct)
  case less
  have now: "now w = Some (Inr (time w), w)" using c by (simp add: clock_ok_def)
  show ?case
  proof (cases "time w - t0 < timeout")
    case False
    then show ?thesis by (subst poll.simps) (simp add: io_simps now)
  next
    case True
    obtain r w1 where cw: "cond w = Some (r, w1)" "time w \<le> time w1"
      using c unfolding clock_ok_def by blast
    obtain w2 where sl: "sleep w1 = Some (Inr (), w2)" "time w1 + d \<le> time w2"
      using c unfolding clock_ok_def by blast
    have step: "poll now sleep cond t0 timeout w =
        bindS cond (\<lambda>b. if b then retS True else seqS sleep (poll now sleep cond t0 timeout)) w"
      using True by (subst poll.simps) (simp add: io_simps now)
    show ?thesis
    proof (cases r)
      case (Inl e)
      with cw step show ?thesis by (auto simp: io_simps)
    next
      case (Inr b)
      have "nat (timeout - (time w2 - t0)) < nat (timeout - (time w - t0))"
        using True cw(2) sl(2) d by linarith
      from less [OF this] cw sl Inr step d show ?thesis
        by (cases b) (fastforce simp: io_simps)+
    qed
  qed
qed

lemma poll_True:
  assumes "poll now sleep cond t0 timeout w = Some (Inr True, w')"
  shows "\<exists>w1. cond w1 = Some (Inr True, w')"
proof -
  have "\<forall>w'. r = (Inr True, w') \<longrightarrow> (\<exists>w1. cond w1 = Some (Inr True, w'))"
    if "poll now sleep cond t0 timeout w = Some r" for r :: "bool res \<times> 'a"
  proof (rule poll.raw_induct [where P = "\<lambda>now sleep cond t0 timeout w r. \<forall>w'. r = (Inr True, w') \<longrightarrow>
      (\<exists>w1. cond w1 = Some (Inr True, w'))", OF _ that], goal_cases)
    case (1 pl now sleep cond t0 timeout w r)
    show ?case
    proof (intro allI impI)
      fix w' assume r: "r = (Inr True, w')"
      from 1(2) [unfolded r, THEN bindS_Inr [THEN iffD1]] obtain t w0 where
        t: "(if t - t0 < timeout then bindS cond (\<lambda>b. if b then retS True
            else seqS sleep (pl now sleep cond t0 timeout)) else retS False) w0 = Some (Inr True, w')"
        by blast
      then have b: "bindS cond (\<lambda>b. if b then retS True else seqS sleep (pl now sleep cond t0 timeout)) w0 = Some (Inr True, w')"
        by (cases "t - t0 < timeout") (simp_all add: io_simps)
      from bindS_Inr [THEN iffD1, OF b] obtain b' w1 where c: "cond w0 = Some (Inr b', w1)"
        and k: "(if b' then retS True else seqS sleep (pl now sleep cond t0 timeout)) w1 = Some (Inr True, w')"
        by blast
      show "\<exists>w1. cond w1 = Some (Inr True, w')"
      proof (cases b')
        case True
        with k c show ?thesis by (auto simp: io_simps)
      next
        case False
        with k obtain w2 where "pl now sleep cond t0 timeout w2 = Some (Inr True, w')" by (auto simp: bindS_Some)
        from 1(1) [OF this] show ?thesis by blast
      qed
    qed
  qed
  with assms show ?thesis by blast
qed

section \<open>Properties\<close>

text \<open>
  C40: a timed wait ends. With a clock that every interval of sleep advances, \<open>cond_timedwait\<close>
  returns (or the condition raises); it answers False only after the timeout has passed, and
  True only right after the condition was true.
\<close>

theorem cond_timedwait_returns:
  assumes "clock_ok time d now sleep cond" "0 < d"
  shows "\<exists>r w'. cond_timedwait now sleep cond timeout w = Some (r, w') \<and>
    (r = Inr False \<longrightarrow> timeout \<le> time w' - time w) \<and>
    (r = Inr True \<longrightarrow> (\<exists>w1. cond w1 = Some (Inr True, w')))"
proof -
  have "now w = Some (Inr (time w), w)" using assms(1) by (simp add: clock_ok_def)
  then have "cond_timedwait now sleep cond timeout w = poll now sleep cond (time w) timeout w"
    by (simp add: cond_timedwait_def io_simps)
  with poll_returns [OF assms, of "time w" timeout w] poll_True [of now sleep cond "time w" timeout w]
  show ?thesis by fastforce
qed

theorem cond_timedwait_returns_witness:
  "\<exists>r w'. cond_timedwait (getS (\<lambda>w. w)) (updS (\<lambda>w. w + 1)) (getS (\<lambda>w. 3 \<le> w)) 10 (0::int) = Some (r, w') \<and>
    (r = Inr False \<longrightarrow> 10 \<le> w' - 0) \<and> (r = Inr True \<longrightarrow> (\<exists>w1. getS (\<lambda>w::int. 3 \<le> w) w1 = Some (Inr True, w')))"
  by (rule cond_timedwait_returns [where time = "\<lambda>w. w" and d = 1])
    (auto simp: clock_ok_def io_simps)

end
