(* ===== verification/Config.thy ===== *)
theory Config
  imports TemplateSpec Effects Regex
begin

text \<open>
  The pure helpers of \<open>LDMS_Test.py\<close> that turn specifications into texts for the daemons:
  \<open>env_dict\<close>, \<open>tada_addr\<close>, the derived cluster name, the effective daemon specification
  (\<open>ldmsd_spec\<close>), the command line (\<open>get_ldmsd_cmd\<close>), the configuration (\<open>get_ldmsd_config\<close>),
  the expected status objects, versions, and the framed messages of \<open>read_msg\<close>.
\<close>

section \<open>Access to Python values\<close>

definition p_get :: "pval \<Rightarrow> string \<Rightarrow> pval \<Rightarrow> pval res" where
  "p_get v k dflt = (case v of PDict d \<Rightarrow> Inr (dget_or d k dflt) | _ \<Rightarrow> Inl (AttributeError ''get''))"

definition p_index :: "pval \<Rightarrow> string \<Rightarrow> pval res" where
  "p_index v k = (case v of PDict d \<Rightarrow> dindex d k | _ \<Rightarrow> Inl (TypeError ''indices must be integers''))"

definition p_iter :: "pval \<Rightarrow> pval list res" where
  "p_iter v =
     (case v of
        PList l \<Rightarrow> Inr l
      | PTuple l \<Rightarrow> Inr l
      | PStr s \<Rightarrow> Inr (map (\<lambda>c. PStr [c]) s)
      | PDict d \<Rightarrow> Inr (map (\<lambda>p. PStr (fst p)) d)
      | _ \<Rightarrow> Inl (TypeError ''object is not iterable''))"

definition p_dict :: "pval \<Rightarrow> pval dict res" where
  "p_dict v = (case v of PDict d \<Rightarrow> Inr d | _ \<Rightarrow> Inl (AttributeError ''copy''))"

definition p_string :: "pval \<Rightarrow> string res" where
  "p_string v = (case v of PStr s \<Rightarrow> Inr s | _ \<Rightarrow> Inl (TypeError ''str instance expected''))"

section \<open>Environments and addresses\<close>

text \<open>\<open>dict(e.split("=", 1) for e in env)\<close>: an element without \<open>=\<close> is a sequence of length 1.\<close>

definition env_dict :: "pval \<Rightarrow> pval dict res" where
  "env_dict env =
     (case env of
        PDict d \<Rightarrow> Inr d
      | PList l \<Rightarrow>
          foldE (\<lambda>d e. case e of
              PStr s \<Rightarrow> (case split1 CHR ''='' s of
                          [k, v] \<Rightarrow> Inr (dset k (PStr v) d)
                        | _ \<Rightarrow> Inl (ValueError ''dictionary update sequence element has length 1; 2 is required''))
            | _ \<Rightarrow> Inl (AttributeError ''split'')) [] l
      | _ \<Rightarrow> Inl (TypeError ''`env` is not a list nor a dict''))"

definition ADDR_RE :: re where
  "ADDR_RE = Seqs [Grp ''addr'' (Plus (Ch (\<lambda>c. c \<noteq> CHR '':''))),
     Opt (Sq (Lit1 CHR '':'') (Grp ''port'' (Plus Digit))), Eol]"

definition tada_addr :: "string \<Rightarrow> string res" where
  "tada_addr s =
     (case re_match ADDR_RE s of
        None \<Rightarrow> Inl (ValueError ''Bad address format'')
      | Some m \<Rightarrow> (case dget m ''port'' of None \<Rightarrow> Inr (s @ '':9862'')
                  | Some p \<Rightarrow> if p = [] then Inr (s @ '':9862'') else Inr s))"

text \<open>
  \<open>get_ovis_commit_id\<close> on the lines of \<open>ldms-pedigree\<close> (\<open>None\<close>: the file cannot be read). A
  line with another number of words raises, which the \<open>except\<close> turns into \<open>NONE\<close>.
\<close>

fun commit_id_of :: "string list \<Rightarrow> string" where
  "commit_id_of [] = ''NONE''"
| "commit_id_of (l # ls) =
     (if startswith ''echo commit-id: '' l then
        (case split_ws l of [e, c, cid] \<Rightarrow> cid | _ \<Rightarrow> ''NONE'')
      else commit_id_of ls)"

definition get_ovis_commit_id :: "string list option \<Rightarrow> string" where
  "get_ovis_commit_id file = (case file of None \<Rightarrow> ''NONE'' | Some ls \<Rightarrow> commit_id_of ls)"

text \<open>\<open>argv0\<close> is \<open>os.path.basename(sys.argv[0])\<close>; \<open>{:.7}\<close> keeps seven characters.\<close>

definition get_cluster_name :: "string \<Rightarrow> string \<Rightarrow> string \<Rightarrow> string \<Rightarrow> string" where
  "get_cluster_name clustername uname argv0 commit_id =
     (if clustername \<noteq> [] then clustername
      else (let t = (if endswith ''.py'' argv0 then take (length argv0 - 3) argv0 else argv0)
            in uname @ ''-'' @ t @ ''-'' @ take 7 commit_id))"

section \<open>The daemon specification and its command line\<close>

text \<open>\<open>ldmsd_spec\<close>: the first ldmsd daemon of the node, with the cluster's environment below its own.\<close>

fun first_ldmsd :: "pval list \<Rightarrow> pval option res" where
  "first_ldmsd [] = Inr None"
| "first_ldmsd (d # ds) =
     bindE (p_index d ''type'') (\<lambda>t. if t = PStr ''ldmsd'' then Inr (Some d) else first_ldmsd ds)"

definition ldmsd_spec :: "pval \<Rightarrow> pval \<Rightarrow> pval dict res" where
  "ldmsd_spec node cluster =
     bindE (p_get node ''daemons'' (PList [])) (\<lambda>ds.
     bindE (p_iter ds) (\<lambda>dl.
     bindE (first_ldmsd dl) (\<lambda>r.
       case r of
         None \<Rightarrow> Inr []
       | Some ldmsd \<Rightarrow>
           if \<not> truthy ldmsd then Inr []
           else
           bindE (deep_copy ldmsd) (\<lambda>c.
           bindE (p_dict c) (\<lambda>dspec.
           bindE (env_dict (dget_or dspec ''env'' (PList []))) (\<lambda>w.
           bindE (p_get cluster ''env'' (PList [])) (\<lambda>ce.
           bindE (env_dict ce) (\<lambda>v.
             Inr (dsetdefault ''config_file'' (PStr ''/etc/ldmsd.conf'')
                 (dsetdefault ''listen_auth'' (PStr ''none'')
                 (dsetdefault ''log_level'' (PStr ''INFO'')
                 (dsetdefault ''log_file'' (PStr ''/var/log/ldmsd.log'')
                 (dset ''env'' (PDict (dupdate v w)) dspec)))))))))))))"

definition fmt_of :: "pval dict \<Rightarrow> string \<Rightarrow> string res" where
  "fmt_of d k = bindE (dindex d k) (\<lambda>v. Inr (py_str v))"

text \<open>
  \<open>get_ldmsd_cmd\<close>. \<open>VARS\<close> is \<open>locals()\<close> updated with the spec: a key \<open>XPRT_OPT\<close> or \<open>AUTH_OPT\<close> in
  the spec replaces the computed option.
\<close>

definition get_ldmsd_cmd :: "pval dict \<Rightarrow> string res" where
  "get_ldmsd_cmd spec =
     bindE (if dget spec ''listen_xprt'' \<noteq> None \<and> dget spec ''listen_port'' \<noteq> None
            then bindE (fmt_of spec ''listen_xprt'') (\<lambda>x. bindE (fmt_of spec ''listen_port'') (\<lambda>p.
              Inr (''-x '' @ x @ '':'' @ p)))
            else Inr []) (\<lambda>xopt.
     bindE (if dget spec ''listen_auth'' \<noteq> None
            then bindE (fmt_of spec ''listen_auth'') (\<lambda>a. Inr (''-a '' @ a)) else Inr []) (\<lambda>aopt.
     let vars = dupdate [(''XPRT_OPT'', PStr xopt), (''AUTH_OPT'', PStr aopt)] spec in
     bindE (fmt_of vars ''XPRT_OPT'') (\<lambda>x.
     bindE (fmt_of vars ''AUTH_OPT'') (\<lambda>a.
     bindE (fmt_of vars ''config_file'') (\<lambda>c.
     bindE (fmt_of vars ''log_file'') (\<lambda>l.
     bindE (fmt_of vars ''log_level'') (\<lambda>v.
       Inr (''ldmsd '' @ x @ '' '' @ a @ '' -c '' @ c @ '' -l '' @ l @ '' -v '' @ v @ '' &'')))))))) "

section \<open>The daemon configuration\<close>

definition kvs :: "pval dict \<Rightarrow> string" where
  "kvs d = concat (map (\<lambda>(k, v). '' '' @ k @ ''='' @ py_str v) d)"

text \<open>\<open>x.pop("name")\<close> of a copy.\<close>

definition pop_name :: "pval dict \<Rightarrow> (string \<times> pval dict) res" where
  "pop_name d = bindE (fmt_of d ''name'') (\<lambda>n. Inr (n, dpop ''name'' d))"

definition auth_line :: "pval \<Rightarrow> string res" where
  "auth_line v = bindE (p_dict v) (\<lambda>d. bindE (pop_name d) (\<lambda>(n, d').
     Inr (''auth_add name='' @ n @ kvs d' @ nl)))"

definition listen_line :: "pval \<Rightarrow> string res" where
  "listen_line v = bindE (p_dict v) (\<lambda>d. Inr (''listen '' @ kvs d @ nl))"

definition copied :: "pval \<Rightarrow> pval dict res" where
  "copied v = bindE (deep_copy v) p_dict"

definition advertiser_line :: "pval \<Rightarrow> string res" where
  "advertiser_line v = bindE (copied v) (\<lambda>d. bindE (pop_name d) (\<lambda>(n, d').
     Inr (''advertiser_add name='' @ n @ kvs d' @ nl)))"

text \<open>Here the name is read but not popped.\<close>

definition prdcr_listen_line :: "pval \<Rightarrow> string res" where
  "prdcr_listen_line v = bindE (copied v) (\<lambda>d. bindE (fmt_of d ''name'') (\<lambda>n.
     Inr (''prdcr_listen_add name='' @ n @ kvs d @ nl)))"

definition prdcr_line :: "pval \<Rightarrow> string res" where
  "prdcr_line v = bindE (copied v) (\<lambda>d. bindE (pop_name d) (\<lambda>(n, d').
     Inr (''prdcr_add name='' @ n @ kvs d' @ nl)))"

text \<open>An option that is shown as \<open>key=value\<close> unless it is the empty string.\<close>

definition opt_text :: "string \<Rightarrow> pval \<Rightarrow> string" where
  "opt_text k v = (if v = PStr [] then [] else k @ ''='' @ py_str v)"

type_synonym version = "nat \<times> nat \<times> nat"

definition ver_ge :: "version option \<Rightarrow> bool" where
  "ver_ge ver = (case ver of None \<Rightarrow> False | Some v \<Rightarrow> v \<ge> (4, 100, 0))"

definition sampler_text :: "version option \<Rightarrow> pval \<Rightarrow> string res" where
  "sampler_text ver samp =
     bindE (p_index samp ''plugin'') (\<lambda>plugin.
     bindE (p_get samp ''interval'' (PInt 2000000)) (\<lambda>iv.
     bindE (p_get samp ''offset'' (PStr [])) (\<lambda>off.
     bindE (p_get samp ''exclusive_thread'' (PStr [])) (\<lambda>xt.
     bindE (p_get samp ''start'' PNone) (\<lambda>st.
     bindE (p_index samp ''config'') (\<lambda>cf.
     bindE (p_iter cf) (\<lambda>cl.
     bindE (mapE p_string cl) (\<lambda>cs.
       let pl = py_str plugin; config = join '' '' cs;
           interval = opt_text ''interval'' iv; offset = opt_text ''offset'' off;
           xthread = opt_text ''exclusive_thread'' xt in
       Inr (if ver_ge ver then
              ''load name='' @ pl @ nl @ ''config name='' @ pl @ '' '' @ config @ nl @
              (if truthy st then
                 ''smplr_add name='' @ pl @ ''_smplr instance='' @ pl @ ''           '' @ interval @ '' '' @ offset @ nl @
                 ''smplr_start name='' @ pl @ ''_smplr'' @ nl
               else [])
            else
              ''load name='' @ pl @ nl @ ''config name='' @ pl @ '' '' @ config @ '' '' @ xthread @ nl @
              (if truthy st then ''start name='' @ pl @ '' '' @ interval @ '' '' @ offset @ nl else []))))))))))"

text \<open>Every element of a section (an absent section is empty) gives a text.\<close>

definition section_text :: "pval dict \<Rightarrow> string \<Rightarrow> (pval \<Rightarrow> string res) \<Rightarrow> string res" where
  "section_text d k f =
     bindE (p_iter (dget_or d k (PList []))) (\<lambda>l. bindE (mapE f l) (\<lambda>ts. Inr (concat ts)))"

definition samplers_text :: "version option \<Rightarrow> spec \<Rightarrow> string out" where
  "samplers_text ver S =
     (case p_iter (dget_or (items S) ''samplers'' (PList [])) of
        Inl e \<Rightarrow> raise e
      | Inr l \<Rightarrow> bindO (mapO (\<lambda>s. case sampler_text ver s of Inl e \<Rightarrow> raise e | Inr t \<Rightarrow> subst_str (VAR S) t) l)
                   (\<lambda>ts. ok (concat ts)))"

definition config_lines :: "pval dict \<Rightarrow> string res" where
  "config_lines d =
     (let cfg = dget_or d ''config'' PNone in
      if truthy cfg then bindE (p_iter cfg) (\<lambda>l. bindE (mapE p_string l) (\<lambda>ls. Inr (concat (map (\<lambda>x. x @ nl) ls))))
      else Inr [])"

definition quota_text :: "pval dict \<Rightarrow> string" where
  "quota_text d =
     (let q = dget_or d ''quota'' PNone in if truthy q then ''default_quota quota='' @ py_str q @ nl else [])"

abbreviation liftR :: "'a res \<Rightarrow> 'a out" where
  "liftR r \<equiv> Some r"

definition get_ldmsd_config :: "version option \<Rightarrow> pval dict \<Rightarrow> string out" where
  "get_ldmsd_config ver sp =
     bindO (spec_init (PDict sp)) (\<lambda>S.
     let d = items S in
     bindO (liftR (section_text d ''auth'' auth_line)) (\<lambda>a.
     bindO (liftR (section_text d ''listen'' listen_line)) (\<lambda>l.
     bindO (samplers_text ver S) (\<lambda>s.
     bindO (liftR (section_text d ''advertisers'' advertiser_line)) (\<lambda>ad.
     bindO (liftR (section_text d ''prdcr_listen'' prdcr_listen_line)) (\<lambda>pl.
     bindO (liftR (section_text d ''prdcrs'' prdcr_line)) (\<lambda>p.
     bindO (liftR (config_lines d)) (\<lambda>c.
       ok (quota_text d @ a @ l @ s @ ad @ pl @ p @ c)))))))))"

section \<open>Status objects, versions, messages\<close>

definition create_updtr_status :: "string \<Rightarrow> pval \<Rightarrow> pval \<Rightarrow> string \<Rightarrow> pval \<Rightarrow> bool \<Rightarrow> string \<Rightarrow> bool \<Rightarrow> pval" where
  "create_updtr_status name interval offset state prdcrs sync md aut =
     PDict [(''name'', PStr name), (''interval'', PStr (py_str interval)), (''offset'', PStr (py_str offset)),
       (''sync'', PStr (if sync then ''true'' else ''false'')), (''mode'', PStr md),
       (''auto'', PStr (if aut then ''true'' else ''false'')), (''state'', PStr state), (''producers'', prdcrs)]"

definition create_updtr_prdcr_status :: "string \<Rightarrow> string \<Rightarrow> string \<Rightarrow> string \<Rightarrow> string \<Rightarrow> pval res" where
  "create_updtr_prdcr_status name host port xprt state =
     bindE (parse_int port) (\<lambda>p.
       Inr (PDict [(''name'', PStr name), (''host'', PStr host), (''port'', PInt p),
         (''transport'', PStr xprt), (''state'', PStr state)]))"

definition ver_re :: "string \<Rightarrow> re" where
  "ver_re pre = Seqs [Str pre, Grp ''1'' (Plus Digit), Dot, Grp ''2'' (Plus Digit), Dot, Grp ''3'' (Plus Digit)]"

definition ver_groups :: "string dict \<Rightarrow> version" where
  "ver_groups m = (of_digits 10 (dget_or m ''1'' []), of_digits 10 (dget_or m ''2'' []), of_digits 10 (dget_or m ''3'' []))"

text \<open>The two outputs are what the commands print; a command that fails gives the empty string.\<close>

definition ldmsd_version :: "string \<Rightarrow> string \<Rightarrow> version res" where
  "ldmsd_version strings_out exe_out =
     (case re_match (ver_re ''LDMSD_VERSION '') strings_out of
        Some m \<Rightarrow> Inr (ver_groups m)
      | None \<Rightarrow> (case re_match (ver_re ''LDMSD Version: '') exe_out of
                  Some m \<Rightarrow> Inr (ver_groups m)
                | None \<Rightarrow> Inl (ValueError ''Cannot determine ldmsd version'')))"

definition is_ldmsd_version_4 :: "version \<Rightarrow> bool" where
  "is_ldmsd_version_4 ver \<longleftrightarrow> ver < (4, 100, 0)"

text \<open>
  \<open>read_msg\<close> on the rest of the file: the outcome and what is left unread. After a failure
  the position is where it was, except at the end of the file. \<open>loads\<close> is the JSON parser.
\<close>

record 'j msg =
  m_type :: string
  m_text :: string
  m_obj :: "'j option"

definition read_msg :: "(string \<Rightarrow> 'j res) \<Rightarrow> string \<Rightarrow> 'j msg res \<times> string" where
  "read_msg loads f =
     (case f of
        [] \<Rightarrow> (Inl (ValueError ''End of file''), f)
      | c # f1 \<Rightarrow>
          if c \<noteq> CHR 0x01 then (Inl (ValueError ''Not a start of message''), f)
          else
            (case dropWhile (\<lambda>x. x \<noteq> CHR 0x02) f1 of
               [] \<Rightarrow> (Inl (ValueError ''Bad message header''), f)
             | _ # f2 \<Rightarrow>
                 (case dropWhile (\<lambda>x. x \<noteq> CHR 0x03) f2 of
                    [] \<Rightarrow> (Inl (ValueError ''Incomplete message''), f)
                  | _ # f3 \<Rightarrow>
                      (let ty = takeWhile (\<lambda>x. x \<noteq> CHR 0x02) f1;
                           text = strip_by (\<lambda>x. x = CHR 0x00) (takeWhile (\<lambda>x. x \<noteq> CHR 0x03) f2) in
                       if ty = ''json''
                       then (bindE (loads text) (\<lambda>ob. Inr \<lparr>m_type = ty, m_text = text, m_obj = Some ob\<rparr>), f3)
                       else (Inr \<lparr>m_type = ty, m_text = text, m_obj = None\<rparr>, f3)))))"

section \<open>Facts\<close>

lemma env_dict_items:
  "\<forall>(k, v) \<in> set kv. CHR ''='' \<notin> set k \<Longrightarrow>
    foldE (\<lambda>d e. case e of
        PStr s \<Rightarrow> (case split1 CHR ''='' s of
                    [k, v] \<Rightarrow> Inr (dset k (PStr v) d)
                  | _ \<Rightarrow> Inl (ValueError ''dictionary update sequence element has length 1; 2 is required''))
      | _ \<Rightarrow> Inl (AttributeError ''split'')) d (map (\<lambda>(k, v). PStr (k @ CHR ''='' # v)) kv) =
    Inr (dupdate d (map (\<lambda>(k, v). (k, PStr v)) kv))"
  by (induction kv arbitrary: d) (auto simp: split1_sep dict_simps)

lemma ADDR_RE_no_port:
  assumes "s \<noteq> []" "CHR '':'' \<notin> set s"
  shows "re_match ADDR_RE s = Some [(''addr'', s)]"
proof -
  let ?k = "\<lambda>t g'. (\<lambda>t g'. if length t \<le> length s
     then rx (Sq (Opt (Sq (Lit1 CHR '':'') (Grp ''port'' (Plus Digit)))) Eol) t g' (\<lambda>t g. Some g)
     else None) t (dset ''addr'' (take (length s - length t) s) g')"
  have c: "\<forall>c \<in> set s. c \<noteq> CHR '':''" using assms(2) by auto
  have k: "?k [] [] = Some [(''addr'', s)]"
    by (simp add: rx.simps Opt_def Lit1_def at_end_def)
  have "rx (Plus (Ch (\<lambda>c. c \<noteq> CHR '':''))) (s @ []) [] ?k = ?k [] []"
    by (rule rx_Plus_Ch) (use assms(1) c k in auto)
  with k show ?thesis by (simp add: re_match_def ADDR_RE_def rx.simps)
qed

lemma ADDR_RE_port:
  assumes "a \<noteq> []" "CHR '':'' \<notin> set a" "p \<noteq> []" "list_all is_digit p" "at_end e"
  shows "\<exists>m. re_match ADDR_RE (a @ CHR '':'' # p @ e) = Some m \<and> dget m ''port'' = Some p"
proof -
  let ?s = "a @ CHR '':'' # p @ e"
  let ?k3 = "\<lambda>t g'. (if length t \<le> length (p @ e) + 1 then rx Eol t g' (\<lambda>t g. Some g) else None)"
  let ?k2 = "\<lambda>t g'. ?k3 t (dset ''port'' (take (length (p @ e) - length t) (p @ e)) g')"
  let ?k = "\<lambda>t g'. (\<lambda>t g'. if length t \<le> length ?s
     then rx (Sq (Opt (Sq (Lit1 CHR '':'') (Grp ''port'' (Plus Digit)))) Eol) t g' (\<lambda>t g. Some g)
     else None) t (dset ''addr'' (take (length ?s - length t) ?s) g')"
  let ?g = "[(''addr'', a)]"
  have e: "e = [] \<or> \<not> is_digit (hd e)" using assms(5) by (auto simp: at_end_def is_digit_def)
  have p: "\<forall>c \<in> set p. is_digit c" using assms(4) by (simp add: list_all_iff)
  have k2: "?k2 e ?g = Some (dset ''port'' p ?g)" using assms(5) by (simp add: rx.simps)
  have "rx (Plus (Ch is_digit)) (p @ e) ?g ?k2 = ?k2 e ?g"
    by (rule rx_Plus_Ch [OF assms(3) p e]) (simp add: rx.simps assms(5))
  with k2 have dig: "rx (Plus (Ch is_digit)) (p @ e) ?g ?k2 = Some (dset ''port'' p ?g)" by simp
  have c: "\<forall>c \<in> set a. c \<noteq> CHR '':''" using assms(2) by auto
  have k: "?k (CHR '':'' # p @ e) [] = Some (dset ''port'' p ?g)"
    using dig by (simp add: rx.simps Opt_def Lit1_def Digit_def Suc_le_eq le_Suc_eq cong: if_cong)
  have "rx (Plus (Ch (\<lambda>c. c \<noteq> CHR '':''))) (a @ CHR '':'' # p @ e) [] ?k = ?k (CHR '':'' # p @ e) []"
    by (rule rx_Plus_Ch) (use assms(1) c k in auto)
  moreover have "re_match ADDR_RE ?s = rx (Plus (Ch (\<lambda>c. c \<noteq> CHR '':''))) ?s [] ?k"
    by (simp only: re_match_def ADDR_RE_def Seqs.simps rx.simps(3,6))
  ultimately have "re_match ADDR_RE ?s = Some (dset ''port'' p ?g)" using k by simp
  then show ?thesis by (auto simp: dset_get)
qed

lemma lang_ADDR_RE:
  assumes "re_match ADDR_RE s = Some m"
  shows "(CHR '':'' \<notin> set s \<and> s \<noteq> []) \<or>
    (\<exists>a p e. s = a @ CHR '':'' # p @ e \<and> a \<noteq> [] \<and> CHR '':'' \<notin> set a \<and> p \<noteq> [] \<and> list_all is_digit p \<and> at_end e)"
proof -
  from assms obtain t where "lang ADDR_RE s t" using re_match_lang [of ADDR_RE s] by auto
  then obtain u where w0: "lang (Plus (Ch (\<lambda>c. c \<noteq> CHR '':''))) s u"
    and u0: "lang (Sq (Opt (Sq (Lit1 CHR '':'') (Grp ''port'' (Plus Digit)))) Eol) u t"
    unfolding ADDR_RE_def Seqs.simps by (meson lang_SqE lang_GrpE)
  from w0 obtain w where w: "s = w @ u" "w \<noteq> []" "CHR '':'' \<notin> set w" by auto
  from u0 have "at_end u \<or> (\<exists>p e. u = CHR '':'' # p @ e \<and> p \<noteq> [] \<and> list_all is_digit p \<and> at_end e)"
    by (auto simp: Digit_def list_all_iff)
  then show ?thesis
  proof
    assume "at_end u"
    with w show ?thesis by (auto simp: at_end_def)
  next
    assume "\<exists>p e. u = CHR '':'' # p @ e \<and> p \<noteq> [] \<and> list_all is_digit p \<and> at_end e"
    with w show ?thesis by blast
  qed
qed

lemma tada_addr_cases:
  assumes "tada_addr s = Inr t"
  shows "(CHR '':'' \<notin> set s \<and> s \<noteq> [] \<and> t = s @ '':9862'') \<or>
    (t = s \<and> (\<exists>a p e. s = a @ CHR '':'' # p @ e \<and> a \<noteq> [] \<and> CHR '':'' \<notin> set a \<and> p \<noteq> [] \<and>
       list_all is_digit p \<and> at_end e))"
proof -
  from assms obtain m where m: "re_match ADDR_RE s = Some m"
    by (auto simp: tada_addr_def split: option.splits)
  from lang_ADDR_RE [OF m] show ?thesis
  proof
    assume "CHR '':'' \<notin> set s \<and> s \<noteq> []"
    with ADDR_RE_no_port [of s] assms show ?thesis by (simp add: tada_addr_def)
  next
    assume "\<exists>a p e. s = a @ CHR '':'' # p @ e \<and> a \<noteq> [] \<and> CHR '':'' \<notin> set a \<and> p \<noteq> [] \<and> list_all is_digit p \<and> at_end e"
    then obtain a p e where s: "s = a @ CHR '':'' # p @ e" "a \<noteq> []" "CHR '':'' \<notin> set a" "p \<noteq> []"
      "list_all is_digit p" "at_end e" by blast
    from ADDR_RE_port [OF s(2-6)] obtain m' where "re_match ADDR_RE s = Some m'" "dget m' ''port'' = Some p"
      using s(1) by blast
    with assms s(4) have "t = s" by (auto simp: tada_addr_def)
    with s show ?thesis by blast
  qed
qed

lemma dupdate_has: "dget d k \<noteq> None \<or> dget e k \<noteq> None \<Longrightarrow> dget (dupdate d e) k \<noteq> None"
  unfolding dget_None_iff set_map dupdate_keys by blast

lemma fmt_of_has: "dget d k \<noteq> None \<Longrightarrow> \<exists>x. fmt_of d k = Inr x"
  by (auto simp: fmt_of_def dindex_def)

lemma xprt_opt_total:
  "\<exists>x. (if dget sp k \<noteq> None \<and> dget sp j \<noteq> None
      then bindE (fmt_of sp k) (\<lambda>x. bindE (fmt_of sp j) (\<lambda>p. Inr (f x p))) else Inr y) = Inr x"
proof (cases "dget sp k \<noteq> None \<and> dget sp j \<noteq> None")
  case True
  then obtain x p where "fmt_of sp k = Inr x" "fmt_of sp j = Inr p" using fmt_of_has by meson
  with True show ?thesis by simp
next
  case False
  then show ?thesis by (simp only: if_False) blast
qed

lemma auth_opt_total:
  "\<exists>x. (if dget sp k \<noteq> None then bindE (fmt_of sp k) (\<lambda>a. Inr (f a)) else Inr y) = Inr x"
proof (cases "dget sp k = None")
  case False
  then obtain x where "fmt_of sp k = Inr x" using fmt_of_has by meson
  with False show ?thesis by simp
qed simp

lemma get_ldmsd_cmd_total:
  assumes "dget sp ''config_file'' \<noteq> None" "dget sp ''log_file'' \<noteq> None" "dget sp ''log_level'' \<noteq> None"
  shows "\<exists>cmd. get_ldmsd_cmd sp = Inr cmd"
proof -
  obtain xo where xo: "(if dget sp ''listen_xprt'' \<noteq> None \<and> dget sp ''listen_port'' \<noteq> None
      then bindE (fmt_of sp ''listen_xprt'') (\<lambda>x. bindE (fmt_of sp ''listen_port'') (\<lambda>p. Inr (''-x '' @ x @ '':'' @ p)))
      else Inr []) = Inr xo"
    using xprt_opt_total [of sp "''listen_xprt''" "''listen_port''" "\<lambda>x p. ''-x '' @ x @ '':'' @ p" "[]"] by blast
  obtain ao where ao: "(if dget sp ''listen_auth'' \<noteq> None then bindE (fmt_of sp ''listen_auth'') (\<lambda>a. Inr (''-a '' @ a))
      else Inr []) = Inr ao"
    using auth_opt_total [of sp "''listen_auth''" "\<lambda>a. ''-a '' @ a" "[]"] by blast
  let ?V = "dupdate [(''XPRT_OPT'', PStr xo), (''AUTH_OPT'', PStr ao)] sp"
  have V: "\<exists>x. fmt_of ?V k = Inr x"
    if "dget [(''XPRT_OPT'', PStr xo), (''AUTH_OPT'', PStr ao)] k \<noteq> None \<or> dget sp k \<noteq> None" for k
    by (rule fmt_of_has [OF dupdate_has [OF that]])
  obtain x where x: "fmt_of ?V ''XPRT_OPT'' = Inr x" using V [of "''XPRT_OPT''"] by auto
  obtain a where a: "fmt_of ?V ''AUTH_OPT'' = Inr a" using V [of "''AUTH_OPT''"] by auto
  obtain c where c: "fmt_of ?V ''config_file'' = Inr c" using V assms(1) by blast
  obtain l where l: "fmt_of ?V ''log_file'' = Inr l" using V assms(2) by blast
  obtain v where v: "fmt_of ?V ''log_level'' = Inr v" using V assms(3) by blast
  show ?thesis
    unfolding get_ldmsd_cmd_def xo ao bindE_simps Let_def x a c l v by blast
qed

lemma dsetdefault_some: "dget (dsetdefault k v d) k \<noteq> None"
  by (auto simp: dsetdefault_get)

section \<open>Properties\<close>

text \<open>
  The list form of an environment. A list of texts \<open>NAME=VALUE\<close> with distinct names gives
  the dict with these values, in order; only the first \<open>=\<close> separates, so values may
  contain it.
\<close>

lemma env_list_is_env_dict:
  assumes "distinct (map fst kv)" "\<forall>(k, v) \<in> set kv. CHR ''='' \<notin> set k"
  shows "env_dict (PList (map (\<lambda>(k, v). PStr (k @ CHR ''='' # v)) kv)) =
    env_dict (PDict (map (\<lambda>(k, v). (k, PStr v)) kv))"
proof -
  have "distinct (dkeys (map (\<lambda>(k, v). (k, PStr v)) kv))"
    using assms(1) by (simp add: o_def case_prod_beta)
  then show ?thesis by (simp add: env_dict_def env_dict_items [OF assms(2)] dupdate_Nil_id)
qed

lemma env_list_is_env_dict_instance:
  "env_dict (PList [PStr ''PATH=/bin:/sbin'', PStr ''OPTS=-a=b'']) =
    Inr [(''PATH'', PStr ''/bin:/sbin''), (''OPTS'', PStr ''-a=b'')]"
  using env_list_is_env_dict [of "[(''PATH'', ''/bin:/sbin''), (''OPTS'', ''-a=b'')]"]
  by (simp add: env_dict_def)

text \<open>
  The address of the test daemon. An accepted address is completed to one with a host part
  without colons, a colon and a port of digits, unless it has one; completing twice is
  completing once.
\<close>

lemma tada_addr_completes:
  assumes "tada_addr s = Inr t"
  shows "tada_addr t = Inr t \<and>
    (\<exists>a p e. t = a @ CHR '':'' # p @ e \<and> a \<noteq> [] \<and> CHR '':'' \<notin> set a \<and> p \<noteq> [] \<and> list_all is_digit p \<and> at_end e)"
proof -
  have "\<exists>a p e. t = a @ CHR '':'' # p @ e \<and> a \<noteq> [] \<and> CHR '':'' \<notin> set a \<and> p \<noteq> [] \<and> list_all is_digit p \<and> at_end e"
    using tada_addr_cases [OF assms]
  proof
    assume "CHR '':'' \<notin> set s \<and> s \<noteq> [] \<and> t = s @ '':9862''"
    then show ?thesis
      by (intro exI [of _ s] exI [of _ "''9862''"] exI [of _ "[]"]) (simp add: is_digit_def at_end_def)
  qed blast
  then obtain a p e where t: "t = a @ CHR '':'' # p @ e" "a \<noteq> []" "CHR '':'' \<notin> set a" "p \<noteq> []"
    "list_all is_digit p" "at_end e" by blast
  from ADDR_RE_port [OF t(2-6)] t(1,4) have "tada_addr t = Inr t"
    by (auto simp: tada_addr_def)
  with t show ?thesis by blast
qed

lemma tada_addr_completes_instance:
  "tada_addr ''tada-host:9862'' = Inr ''tada-host:9862''"
proof -
  have "tada_addr ''tada-host'' = Inr ''tada-host:9862''"
    by (simp add: tada_addr_def ADDR_RE_no_port)
  from tada_addr_completes [OF this] show ?thesis by blast
qed

text \<open>
  The daemon specification is complete and the nearest environment wins. Whenever a node
  has an ldmsd daemon, its effective specification yields a command line (no option can be
  missing), and a variable has the daemon's own value if the daemon sets it, else the
  cluster's.
\<close>

lemma ldmsd_spec_runs:
  assumes "p_get node ''daemons'' (PList []) = Inr (PList ds)" "first_ldmsd ds = Inr (Some (PDict D))"
    "D \<noteq> []" "none_free (PDict D)" "env_dict (dget_or D ''env'' (PList [])) = Inr w" "distinct (dkeys w)"
    "p_get cluster ''env'' (PList []) = Inr ce" "env_dict ce = Inr v"
  shows "\<exists>sp cmd e. ldmsd_spec node cluster = Inr sp \<and> get_ldmsd_cmd sp = Inr cmd \<and>
    dget sp ''env'' = Some (PDict e) \<and>
    (\<forall>k. dget e k = (case dget w k of Some x \<Rightarrow> Some x | None \<Rightarrow> dget v k))"
proof -
  let ?d1 = "dset ''env'' (PDict (dupdate v w)) D"
  let ?sp = "dsetdefault ''config_file'' (PStr ''/etc/ldmsd.conf'') (dsetdefault ''listen_auth'' (PStr ''none'')
    (dsetdefault ''log_level'' (PStr ''INFO'') (dsetdefault ''log_file'' (PStr ''/var/log/ldmsd.log'') ?d1)))"
  have "deep_copy (PDict D) = Inr (PDict D)" by (rule deep_copy_ok [OF assms(4)])
  then have sp: "ldmsd_spec node cluster = Inr ?sp"
    unfolding ldmsd_spec_def using assms by (simp add: p_iter_def p_dict_def)
  have env: "dget ?sp ''env'' = Some (PDict (dupdate v w))" by (simp add: dict_simps)
  have e: "dget (dupdate v w) k = (case dget w k of Some x \<Rightarrow> Some x | None \<Rightarrow> dget v k)" for k
    using dupdate_get [OF assms(6), of v k] by (auto split: option.splits)
  have "\<exists>cmd. get_ldmsd_cmd ?sp = Inr cmd"
    by (rule get_ldmsd_cmd_total) (auto simp: dsetdefault_get)
  with sp env e show ?thesis by blast
qed

lemma ldmsd_spec_runs_instance:
  "\<exists>sp cmd e. ldmsd_spec (PDict [(''daemons'', PList [PDict [(''type'', PStr ''ldmsd''), (''env'', PList [PStr ''A=2''])]])])
      (PDict [(''env'', PDict [(''A'', PStr ''1''), (''B'', PStr ''1'')])]) = Inr sp \<and> get_ldmsd_cmd sp = Inr cmd \<and>
    dget sp ''env'' = Some (PDict e) \<and>
    (\<forall>k. dget e k = (case dget [(''A'', PStr ''2'')] k of Some x \<Rightarrow> Some x
      | None \<Rightarrow> dget [(''A'', PStr ''1''), (''B'', PStr ''1'')] k))"
  by (rule ldmsd_spec_runs [where ds = "[PDict [(''type'', PStr ''ldmsd''), (''env'', PList [PStr ''A=2''])]]"
        and D = "[(''type'', PStr ''ldmsd''), (''env'', PList [PStr ''A=2''])]"
        and ce = "PDict [(''A'', PStr ''1''), (''B'', PStr ''1'')]"])
    (simp_all add: p_get_def p_index_def dget_or_def dindex_def env_dict_def split1_def)

text \<open>
  Options that the configuration does not carry over. From version 4.100.0 on the sampler
  text is the same whatever \<open>exclusive_thread\<close> the spec asks for; and a \<open>prdcr_listen\<close> entry has
  its name twice, as the name of the command and again among its attributes, where a
  \<open>prdcrs\<close> entry has it once.
\<close>

lemma config_options_lost_and_repeated:
  assumes "(4, 100, 0) \<le> v" "none_free (PDict ((''name'', PStr n) # d))"
  shows "(\<forall>x s. dget s ''exclusive_thread'' = None \<longrightarrow>
      sampler_text (Some v) (PDict ((''exclusive_thread'', x) # s)) = sampler_text (Some v) (PDict s)) \<and>
    prdcr_listen_line (PDict ((''name'', PStr n) # d)) =
      Inr (''prdcr_listen_add name='' @ n @ '' name='' @ n @ kvs d @ nl) \<and>
    (''name'' \<notin> set (dkeys d) \<longrightarrow>
      prdcr_line (PDict ((''name'', PStr n) # d)) = Inr (''prdcr_add name='' @ n @ kvs d @ nl))"
proof (intro conjI allI impI)
  fix x s
  assume "dget s ''exclusive_thread'' = (None :: pval option)"
  then show "sampler_text (Some v) (PDict ((''exclusive_thread'', x) # s)) = sampler_text (Some v) (PDict s)"
    using assms(1) by (simp add: sampler_text_def p_get_def p_index_def dget_or_def dindex_def ver_ge_def Let_def)
next
  have c: "copied (PDict ((''name'', PStr n) # d)) = Inr ((''name'', PStr n) # d)"
    using deep_copy_ok [OF assms(2)] by (simp add: copied_def p_dict_def)
  show "prdcr_listen_line (PDict ((''name'', PStr n) # d)) =
      Inr (''prdcr_listen_add name='' @ n @ '' name='' @ n @ kvs d @ nl)"
    by (simp add: prdcr_listen_line_def c fmt_of_def dindex_def kvs_def)
  assume "''name'' \<notin> set (dkeys d)"
  then have "dpop ''name'' ((''name'', PStr n) # d) = d"
    using dpop_absent [of "''name''" d] by (simp add: dpop_def)
  then show "prdcr_line (PDict ((''name'', PStr n) # d)) = Inr (''prdcr_add name='' @ n @ kvs d @ nl)"
    by (simp add: prdcr_line_def c pop_name_def fmt_of_def dindex_def)
qed

lemma config_options_lost_and_repeated_instance:
  "prdcr_listen_line (PDict [(''name'', PStr ''p''), (''regex'', PStr ''n.*'')]) =
    Inr (''prdcr_listen_add name=p name=p regex=n.*'' @ nl)"
  using config_options_lost_and_repeated [of "(4, 100, 0)" "''p''" "[(''regex'', PStr ''n.*'')]"]
  by (simp add: kvs_def)

text \<open>
  Framed messages come back. A frame written as the start byte, the type, the separator,
  the text and the end byte is read as this message, and the file is left right after it; so
  a sequence of frames is read back one by one.
\<close>

lemma read_msg_frame:
  assumes "CHR 0x02 \<notin> set ty" "CHR 0x03 \<notin> set text" "strip_by (\<lambda>x. x = CHR 0x00) text = text"
  shows "read_msg loads (CHR 0x01 # ty @ CHR 0x02 # text @ CHR 0x03 # rest) =
    (if ty = ''json'' then bindE (loads text) (\<lambda>ob. Inr \<lparr>m_type = ty, m_text = text, m_obj = Some ob\<rparr>)
     else Inr \<lparr>m_type = ty, m_text = text, m_obj = None\<rparr>, rest)"
proof -
  have d: "dropWhile (\<lambda>x. x \<noteq> c) (s @ c # t) = c # t" "takeWhile (\<lambda>x. x \<noteq> c) (s @ c # t) = s"
    if "c \<notin> set s" for c :: char and s t
    using that by (induction s) auto
  show ?thesis using d(1,2) [OF assms(1)] d(1,2) [OF assms(2)] assms(3)
    by (simp add: read_msg_def Let_def)
qed

lemma read_msg_frame_instance:
  "fst (read_msg (\<lambda>s. Inr (length s)) (CHR 0x01 # ''json'' @ CHR 0x02 # ''{}'' @ CHR 0x03 # ''rest'')) =
    Inr \<lparr>m_type = ''json'', m_text = ''{}'', m_obj = Some 2\<rparr>"
  using read_msg_frame [of "''json''" "''{}''" "\<lambda>s. Inr (length s)" "''rest''"] by (simp add: strip_by_def)

end
