(* ===== verification/TadaTest.thy ===== *)
theory TadaTest
  imports Prelude
begin

text \<open>
  The class \<open>Test\<close> of \<open>TADA.py\<close>: the client side of the test-report protocol. The messages
  are the JSON objects that go into the datagrams, in the order they are sent.
\<close>

section \<open>State\<close>

abbreviation PASSED :: pval where "PASSED \<equiv> PStr ''passed''"
abbreviation FAILED :: pval where "FAILED \<equiv> PStr ''failed''"
abbreviation SKIPPED :: pval where "SKIPPED \<equiv> PStr ''skipped''"

type_synonym msg = "pval dict"

record test =
  test_suite :: string
  test_type :: string
  test_name :: string
  test_user :: string
  commit_id :: string
  test_desc :: string
  tada_host :: string
  tada_port :: int
  assertions :: "(int \<times> msg) list"
  test_id :: "string option"
  sent :: "msg list"

text \<open>\<open>sent\<close> is what went through the socket.\<close>

definition host_port :: "string option \<Rightarrow> (string \<times> int) res" where
  "host_port addr =
     (case addr of
        None \<Rightarrow> Inr (''localhost'', 9862)
      | Some a \<Rightarrow>
          (case split_on CHR '':'' a of
             h # p # _ \<Rightarrow> bindE (parse_int p) (\<lambda>n. Inr (h, n))
           | h # [] \<Rightarrow> Inr (h, 9862)
           | [] \<Rightarrow> Inr ([], 9862)))"

definition test_init ::
  "string \<Rightarrow> string \<Rightarrow> string \<Rightarrow> string option \<Rightarrow> string option \<Rightarrow> string \<Rightarrow> string \<Rightarrow> test res" where
  "test_init suite ty name desc addr user cid =
     bindE (host_port addr) (\<lambda>(h, p).
       Inr \<lparr>test_suite = suite, test_type = ty, test_name = name, test_user = user, commit_id = cid,
            test_desc = (case desc of Some d \<Rightarrow> if d = [] then name else d | None \<Rightarrow> name),
            tada_host = h, tada_port = p, assertions = [], test_id = None, sent = []\<rparr>)"

section \<open>Operations\<close>

text \<open>\<open>_send\<close> stores the test id in the message it is given; before \<open>start\<close> there is none.\<close>

definition send :: "msg \<Rightarrow> test \<Rightarrow> (msg \<times> test) res" where
  "send m T =
     (case test_id T of
        None \<Rightarrow> Inl (AttributeError ''test_id'')
      | Some i \<Rightarrow> (let m' = dset ''test-id'' (PStr i) m in Inr (m', T\<lparr>sent := sent T @ [m']\<rparr>)))"

text \<open>\<open>sha256\<close> gives the hexadecimal digest; \<open>now\<close> is the time, \<open>stamp\<close> its float text.\<close>

definition start :: "(string \<Rightarrow> string) \<Rightarrow> int \<Rightarrow> string \<Rightarrow> test \<Rightarrow> test res" where
  "start sha256 now stamp T =
     (let s = test_suite T @ '':'' @ test_type T @ '':'' @ test_name T @ '':'' @ test_user T @ '':'' @
              commit_id T @ '':'' @ str_int now;
          i = sha256 s;
          m = [(''msg-type'', PStr ''test-start''), (''test-suite'', PStr (test_suite T)),
               (''test-type'', PStr (test_type T)), (''test-name'', PStr (test_name T)),
               (''test-user'', PStr (test_user T)), (''commit-id'', PStr (commit_id T)),
               (''timestamp'', PFloat stamp), (''test-id'', PStr i), (''test-desc'', PStr (test_desc T))]
      in bindE (send m (T\<lparr>test_id := Some i\<rparr>)) (\<lambda>(_, T'). Inr T'))"

definition add_assertion :: "int \<Rightarrow> string \<Rightarrow> test \<Rightarrow> test" where
  "add_assertion n desc T =
     T\<lparr>assertions := AList.update n
        [(''msg-type'', PStr ''assert-status''), (''assert-no'', PInt n), (''assert-desc'', PStr desc),
         (''assert-cond'', PStr ''none''), (''test-status'', SKIPPED)] (assertions T)\<rparr>"

text \<open>
  \<open>assert_test\<close> changes the stored message in place, before it is sent; when the send fails
  the change stays. \<open>debug\<close> is the module's \<open>DEBUG\<close>. The state comes back with every outcome.
\<close>

definition assert_test :: "bool \<Rightarrow> int \<Rightarrow> bool \<Rightarrow> string \<Rightarrow> test \<Rightarrow> test \<times> unit res" where
  "assert_test debug n cond cond_str T =
     (case map_of (assertions T) n of
        None \<Rightarrow> (T, Inl (KeyError (PInt n)))
      | Some m0 \<Rightarrow>
          (let m1 = dset ''test-status'' (if cond then PASSED else FAILED) (dset ''assert-cond'' (PStr cond_str) m0);
               T1 = T\<lparr>assertions := AList.update n m1 (assertions T)\<rparr> in
           case send m1 T1 of
             Inl e \<Rightarrow> (T1, Inl e)
           | Inr (m2, T2) \<Rightarrow>
               (T2\<lparr>assertions := AList.update n m2 (assertions T2)\<rparr>,
                if \<not> cond \<and> debug
                then Inl (OtherError ''AssertionException'' (test_desc T @ '', '' @ cond_str @ '': FAILED''))
                else Inr ())))"

definition status_of :: "msg \<Rightarrow> pval" where
  "status_of m = dget_or m ''test-status'' PNone"

definition exit_code :: "test \<Rightarrow> int" where
  "exit_code T = (if \<forall>(n, m) \<in> set (assertions T). status_of m = PASSED then 0 else - 1)"

definition finish :: "string \<Rightarrow> test \<Rightarrow> (int \<times> test) res" where
  "finish stamp T =
     bindE (foldE (\<lambda>T (n, m).
         if status_of m = SKIPPED
         then bindE (send m T) (\<lambda>(m', T'). Inr (T'\<lparr>assertions := AList.update n m' (assertions T')\<rparr>))
         else Inr T) T (assertions T)) (\<lambda>T1.
       case test_id T1 of
         None \<Rightarrow> Inl (AttributeError ''test_id'')
       | Some i \<Rightarrow>
           bindE (send [(''msg-type'', PStr ''test-finish''), (''test-id'', PStr i), (''timestamp'', PFloat stamp)] T1)
             (\<lambda>(_, T2). Inr (exit_code T2, T2)))"

section \<open>What the server sees\<close>

text \<open>
  The server's view of an assertion: the status in the last report about it.
\<close>

definition is_report :: "int \<Rightarrow> msg \<Rightarrow> bool" where
  "is_report n m \<longleftrightarrow> dget m ''msg-type'' = Some (PStr ''assert-status'') \<and> dget m ''assert-no'' = Some (PInt n)"

definition view :: "int \<Rightarrow> msg list \<Rightarrow> pval option" where
  "view n ms = (case filter (is_report n) (rev ms) of [] \<Rightarrow> None | m # _ \<Rightarrow> dget m ''test-status'')"

text \<open>
  The invariant of a started test: every stored message is about its own assertion and has a
  status; an assertion that is not skipped has been reported with this status; every message
  sent carries the id of the test.
\<close>

definition good_msg :: "int \<Rightarrow> msg \<Rightarrow> bool" where
  "good_msg n m \<longleftrightarrow> is_report n m \<and> dget m ''test-status'' \<in> {Some PASSED, Some FAILED, Some SKIPPED}"

definition test_inv :: "string \<Rightarrow> test \<Rightarrow> bool" where
  "test_inv i T \<longleftrightarrow> test_id T = Some i \<and> distinct (map fst (assertions T)) \<and>
     (\<forall>n m. map_of (assertions T) n = Some m \<longrightarrow> good_msg n m \<and>
        (dget m ''test-status'' \<noteq> Some SKIPPED \<longrightarrow> view n (sent T) = dget m ''test-status'')) \<and>
     (\<forall>m \<in> set (sent T). dget m ''test-id'' = Some (PStr i))"

lemma test_invD:
  assumes "test_inv i T"
  shows "test_id T = Some i" "distinct (map fst (assertions T))"
    "map_of (assertions T) n = Some m \<Longrightarrow> good_msg n m \<and>
        (dget m ''test-status'' \<noteq> Some SKIPPED \<longrightarrow> view n (sent T) = dget m ''test-status'')"
    "m \<in> set (sent T) \<Longrightarrow> dget m ''test-id'' = Some (PStr i)"
  using assms unfolding test_inv_def by blast+

lemma test_invI:
  assumes "test_id T = Some i" "distinct (map fst (assertions T))"
    "\<And>n m. map_of (assertions T) n = Some m \<Longrightarrow> good_msg n m \<and>
        (dget m ''test-status'' \<noteq> Some SKIPPED \<longrightarrow> view n (sent T) = dget m ''test-status'')"
    "\<forall>m \<in> set (sent T). dget m ''test-id'' = Some (PStr i)"
  shows "test_inv i T"
  using assms unfolding test_inv_def by blast

lemma view_snoc:
  "view n (ms @ [m]) = (if is_report n m then dget m ''test-status'' else view n ms)"
  by (simp add: view_def)

lemma is_report_dset:
  "k \<noteq> ''msg-type'' \<Longrightarrow> k \<noteq> ''assert-no'' \<Longrightarrow> is_report n (dset k v m) = is_report n m"
  by (simp add: is_report_def dset_get)

lemma is_report_inj: "is_report n m \<Longrightarrow> is_report j m \<Longrightarrow> n = j"
  by (simp add: is_report_def)

lemma good_msg_dset:
  "k \<notin> {''msg-type'', ''assert-no'', ''test-status''} \<Longrightarrow> good_msg n (dset k v m) = good_msg n m"
  by (auto simp: good_msg_def is_report_dset dset_get)

lemma map_of_AList_update: "map_of (AList.update k v al) j = (if j = k then Some v else map_of al j)"
  by (simp add: update_conv')

lemma add_assertion_inv: "test_inv i T \<Longrightarrow> test_inv i (add_assertion n d T)"
  by (auto simp: test_inv_def add_assertion_def map_of_AList_update good_msg_def is_report_def
      distinct_update split: if_splits)

text \<open>Reporting a message under its own number keeps the invariant.\<close>

lemma report_inv:
  assumes "test_inv i T" "good_msg n m" "send m (T\<lparr>assertions := al\<rparr>) = Inr (m', T')"
    and "\<forall>j. j \<noteq> n \<longrightarrow> map_of al j = map_of (assertions T) j" "distinct (map fst al)"
  shows "test_inv i (T'\<lparr>assertions := AList.update n m' (assertions T')\<rparr>) \<and>
    view n (sent T') = dget m ''test-status'' \<and> assertions T' = al \<and> test_desc T' = test_desc T"
proof -
  have tid: "test_id T = Some i" by (rule test_invD(1) [OF assms(1)])
  let ?d = "dset ''test-id'' (PStr i) m"
  have "send m (T\<lparr>assertions := al\<rparr>) = Inr (?d, T\<lparr>assertions := al, sent := sent T @ [?d]\<rparr>)"
    by (simp add: send_def Let_def tid)
  from trans [OF assms(3) [symmetric] this] have m': "m' = ?d"
    and T0: "T' = T\<lparr>assertions := al, sent := sent T @ [?d]\<rparr>" by simp_all
  have T': "m' = ?d" "T' = T\<lparr>assertions := al, sent := sent T @ [m']\<rparr>" by (fact m', simp only: T0 m')
  have g: "good_msg n m'" "is_report n m'" "dget m' ''test-status'' = dget m ''test-status''"
    using assms(2) by (simp_all add: T'(1) good_msg_dset good_msg_def is_report_dset dset_get)
  have v: "view j (sent T') = (if j = n then dget m ''test-status'' else view j (sent T))" for j
  proof -
    have s: "sent T' = sent T @ [m']" by (simp add: T'(2))
    show ?thesis
    proof (cases "j = n")
      case True
      then show ?thesis unfolding s view_snoc using g(2,3) by simp
    next
      case False
      then have "\<not> is_report j m'" using g(2) is_report_inj by blast
      with False show ?thesis unfolding s view_snoc by (simp only: if_False)
    qed
  qed
  let ?T = "T'\<lparr>assertions := AList.update n m' (assertions T')\<rparr>"
  have al: "map_of (assertions ?T) j = (if j = n then Some m' else map_of (assertions T) j)" for j
    using assms(4) by (simp add: T'(2) map_of_AList_update)
  have "test_id ?T = Some i" "distinct (map fst (assertions ?T))"
    using test_invD(1,2) [OF assms(1)] assms(5) by (simp_all add: T'(2) distinct_update)
  moreover have "good_msg j mj \<and> (dget mj ''test-status'' \<noteq> Some SKIPPED \<longrightarrow> view j (sent ?T) = dget mj ''test-status'')"
    if "map_of (assertions ?T) j = Some mj" for j mj
  proof (cases "j = n")
    case True
    with that al [of j] g v [of n] show ?thesis by simp
  next
    case False
    with that al [of j] have "map_of (assertions T) j = Some mj" by simp
    then have "good_msg j mj \<and> (dget mj ''test-status'' \<noteq> Some SKIPPED \<longrightarrow> view j (sent T) = dget mj ''test-status'')"
      using test_invD(3) [OF assms(1)] by blast
    moreover have "view j (sent ?T) = view j (sent T)" using v [of j] False by simp
    ultimately show ?thesis by simp
  qed
  moreover have "\<forall>x \<in> set (sent ?T). dget x ''test-id'' = Some (PStr i)"
  proof -
    have "\<forall>x \<in> set (sent T). dget x ''test-id'' = Some (PStr i)" using test_invD(4) [OF assms(1)] by blast
    moreover have "sent ?T = sent T @ [m']" "dget m' ''test-id'' = Some (PStr i)"
      by (simp add: T'(2), simp add: T'(1) dset_get)
    ultimately show ?thesis by simp
  qed
  ultimately have "test_inv i ?T" by (intro test_invI) blast+
  moreover have "view n (sent T') = dget m ''test-status''" using v [of n] by simp
  moreover have "assertions T' = al" "test_desc T' = test_desc T" by (simp_all add: T'(2))
  ultimately show ?thesis by blast
qed

lemma assert_test_inv:
  assumes "test_inv i T" "assert_test db n c s T = (T', r)"
  shows "test_inv i T'"
proof (cases "map_of (assertions T) n")
  case None
  with assms show ?thesis by (auto simp: assert_test_def)
next
  case (Some m0)
  let ?m1 = "dset ''test-status'' (if c then PASSED else FAILED) (dset ''assert-cond'' (PStr s) m0)"
  let ?al = "AList.update n ?m1 (assertions T)"
  have "good_msg n m0" using assms(1) Some by (auto simp: test_inv_def)
  then have g: "good_msg n ?m1" by (auto simp: good_msg_def is_report_dset dset_get)
  obtain m2 T2 where s: "send ?m1 (T\<lparr>assertions := ?al\<rparr>) = Inr (m2, T2)"
    using assms(1) by (auto simp: send_def test_inv_def Let_def)
  have "distinct (map fst (assertions T))" using assms(1) by (simp add: test_inv_def)
  then have d: "distinct (map fst ?al)" by (rule distinct_update)
  have "test_inv i (T2\<lparr>assertions := AList.update n m2 (assertions T2)\<rparr>)"
    using report_inv [OF assms(1) g s _ d] by (auto simp: map_of_AList_update)
  with assms(2) Some s show ?thesis by (simp add: assert_test_def Let_def)
qed

text \<open>The loop of \<open>finish\<close>: what was skipped is reported, nothing else changes.\<close>

definition same_status :: "test \<Rightarrow> test \<Rightarrow> bool" where
  "same_status T T' \<longleftrightarrow> (\<forall>n. map_option status_of (map_of (assertions T') n) = map_option status_of (map_of (assertions T) n)) \<and>
     map fst (assertions T') = map fst (assertions T)"

definition report_skipped :: "test \<Rightarrow> int \<times> msg \<Rightarrow> test res" where
  "report_skipped T p = (case p of (n, m) \<Rightarrow>
     if status_of m = SKIPPED
     then bindE (send m T) (\<lambda>(m', T'). Inr (T'\<lparr>assertions := AList.update n m' (assertions T')\<rparr>))
     else Inr T)"

lemma AList_update_keys: "map_of al n \<noteq> None \<Longrightarrow> map fst (AList.update n v al) = map fst al"
  by (induction al) auto

lemma good_status: "good_msg n m \<Longrightarrow> dget m ''test-status'' = Some (status_of m)"
  by (auto simp: good_msg_def status_of_def dget_or_def)

lemma report_skipped_step:
  assumes "test_inv i T" "good_msg n m" "map_of (assertions T) n = Some m0" "status_of m0 = status_of m"
  shows "\<exists>T'. report_skipped T (n, m) = Inr T' \<and> test_inv i T' \<and> same_status T T' \<and>
    view n (sent T') = Some (status_of m) \<and> (\<forall>j. j \<noteq> n \<longrightarrow> view j (sent T') = view j (sent T)) \<and>
    (\<exists>ms. sent T' = sent T @ ms \<and> length ms \<le> 1)"
proof (cases "status_of m = SKIPPED")
  case False
  have "good_msg n m0 \<and> (dget m0 ''test-status'' \<noteq> Some SKIPPED \<longrightarrow> view n (sent T) = dget m0 ''test-status'')"
    using assms(1,3) by (simp add: test_inv_def)
  then have "view n (sent T) = Some (status_of m)" using good_status [of n m0] assms(4) False by auto
  with False assms(1) show ?thesis by (auto simp: report_skipped_def same_status_def)
next
  case True
  have tid: "test_id T = Some i" and d: "distinct (map fst (assertions T))"
    using assms(1) by (simp_all add: test_inv_def)
  obtain m' T' where s: "send m T = Inr (m', T')" using tid by (auto simp: send_def Let_def)
  then have m': "m' = dset ''test-id'' (PStr i) m" and T': "T' = T\<lparr>sent := sent T @ [m']\<rparr>"
    using tid by (auto simp: send_def Let_def)
  have s': "send m (T\<lparr>assertions := assertions T\<rparr>) = Inr (m', T')" using s by simp
  let ?T = "T'\<lparr>assertions := AList.update n m' (assertions T')\<rparr>"
  have inv: "test_inv i ?T" and v: "view n (sent T') = dget m ''test-status''"
    using report_inv [OF assms(1,2) s' _ d] by auto
  have st: "status_of m' = status_of m" by (simp add: m' status_of_def dget_or_def dset_get)
  have "same_status T ?T"
    using assms(3,4) st by (auto simp: same_status_def T' map_of_AList_update AList_update_keys)
  moreover have "view j (sent ?T) = view j (sent T)" if "j \<noteq> n" for j
  proof -
    have "is_report n m'" using assms(2) by (simp add: m' good_msg_def is_report_dset)
    then have "\<not> is_report j m'" using that is_report_inj by blast
    then show ?thesis by (simp add: T' view_snoc)
  qed
  moreover have "view n (sent ?T) = Some (status_of m)" using v good_status [OF assms(2)] by simp
  moreover have "sent ?T = sent T @ [m']" by (simp add: T')
  ultimately show ?thesis using s inv True by (auto simp: report_skipped_def intro!: exI [of _ ?T])
qed

lemma same_status_trans: "same_status T T1 \<Longrightarrow> same_status T1 T2 \<Longrightarrow> same_status T T2"
  by (simp add: same_status_def)

lemma report_loop:
  assumes "test_inv i T" "distinct (map fst al)"
    and "\<forall>(n, m) \<in> set al. good_msg n m \<and> (\<exists>m0. map_of (assertions T) n = Some m0 \<and> status_of m0 = status_of m)"
  shows "\<exists>T'. foldE report_skipped T al = Inr T' \<and> test_inv i T' \<and> same_status T T' \<and>
    (\<forall>(n, m) \<in> set al. view n (sent T') = Some (status_of m)) \<and>
    (\<forall>j. j \<notin> set (map fst al) \<longrightarrow> view j (sent T') = view j (sent T)) \<and> (\<exists>ms. sent T' = sent T @ ms)"
  using assms
proof (induction al arbitrary: T)
  case Nil
  then show ?case by (auto simp: same_status_def)
next
  case (Cons p al)
  obtain n m where p: "p = (n, m)" by force
  from Cons.prems(3) p obtain m0 where m0: "good_msg n m" "map_of (assertions T) n = Some m0" "status_of m0 = status_of m"
    by auto
  from report_skipped_step [OF Cons.prems(1) m0] obtain T1 where T1: "report_skipped T (n, m) = Inr T1" "test_inv i T1"
    "same_status T T1" "view n (sent T1) = Some (status_of m)" "\<forall>j. j \<noteq> n \<longrightarrow> view j (sent T1) = view j (sent T)"
    "\<exists>ms. sent T1 = sent T @ ms" by blast
  have "\<exists>m1. map_of (assertions T1) k = Some m1 \<and> status_of m1 = status_of mk" if "(k, mk) \<in> set al" for k mk
  proof -
    from Cons.prems(3) that obtain m1 where m1: "map_of (assertions T) k = Some m1" "status_of m1 = status_of mk" by auto
    have "map_option status_of (map_of (assertions T1) k) = Some (status_of mk)"
      using T1(3) m1 by (simp add: same_status_def)
    then show ?thesis by (cases "map_of (assertions T1) k") auto
  qed
  with Cons.prems(3) have al: "\<forall>(k, mk) \<in> set al. good_msg k mk \<and>
      (\<exists>m1. map_of (assertions T1) k = Some m1 \<and> status_of m1 = status_of mk)" by auto
  have d: "distinct (map fst al)" "n \<notin> set (map fst al)" using Cons.prems(2) p by auto
  from Cons.IH [OF T1(2) d(1) al] obtain T2 where T2: "foldE report_skipped T1 al = Inr T2" "test_inv i T2"
    "same_status T1 T2" "\<forall>(k, mk) \<in> set al. view k (sent T2) = Some (status_of mk)"
    "\<forall>j. j \<notin> set (map fst al) \<longrightarrow> view j (sent T2) = view j (sent T1)" "\<exists>ms. sent T2 = sent T1 @ ms" by blast
  have "view n (sent T2) = Some (status_of m)" using T2(5) d(2) T1(4) by simp
  moreover have "view j (sent T2) = view j (sent T)" if "j \<noteq> n" "j \<notin> set (map fst al)" for j
    using T2(5) T1(5) that by simp
  moreover have "\<exists>ms. sent T2 = sent T @ ms" using T1(6) T2(6) by auto
  ultimately show ?case
    using T1(1) T2(1-4) same_status_trans [OF T1(3) T2(3)] p by auto
qed

section \<open>A whole run\<close>

datatype test_op = Add int string | Assert int bool string

definition apply_op :: "bool \<Rightarrow> test_op \<Rightarrow> test \<Rightarrow> test" where
  "apply_op db oper T = (case oper of Add n d \<Rightarrow> add_assertion n d T | Assert n c s \<Rightarrow> fst (assert_test db n c s T))"

definition run_ops :: "bool \<Rightarrow> test_op list \<Rightarrow> test \<Rightarrow> test" where
  "run_ops db ops T = fold (apply_op db) ops T"

definition add_all :: "(int \<times> string) list \<Rightarrow> test \<Rightarrow> test" where
  "add_all ads T = fold (\<lambda>(n, d). add_assertion n d) ads T"

lemma run_ops_inv: "test_inv i T \<Longrightarrow> test_inv i (run_ops db ops T)"
  unfolding run_ops_def
proof (induction ops arbitrary: T)
  case (Cons oper ops)
  have "test_inv i (apply_op db oper T)"
  proof (cases oper)
    case (Add n d)
    with Cons.prems show ?thesis by (simp add: apply_op_def add_assertion_inv)
  next
    case (Assert n c s)
    obtain T' r where r: "assert_test db n c s T = (T', r)" by force
    with assert_test_inv [OF Cons.prems r] Assert show ?thesis by (simp add: apply_op_def)
  qed
  with Cons.IH show ?case by simp
qed simp

lemma assert_sent_prefix: "\<exists>ms. sent (fst (assert_test db n c s T)) = sent T @ ms"
  by (auto simp: assert_test_def send_def Let_def split: option.splits)

lemma run_ops_prefix: "\<exists>ms. sent (run_ops db ops T) = sent T @ ms"
  unfolding run_ops_def
proof (induction ops arbitrary: T)
  case (Cons oper ops)
  have "\<exists>ms. sent (apply_op db oper T) = sent T @ ms"
    using assert_sent_prefix by (cases oper) (auto simp: apply_op_def add_assertion_def)
  with Cons.IH [of "apply_op db oper T"] show ?case by auto
qed simp

text \<open>Before \<open>start\<close>: only additions, all skipped.\<close>

definition fresh :: "test \<Rightarrow> bool" where
  "fresh T \<longleftrightarrow> sent T = [] \<and> distinct (map fst (assertions T)) \<and>
     (\<forall>n m. map_of (assertions T) n = Some m \<longrightarrow> good_msg n m \<and> dget m ''test-status'' = Some SKIPPED)"

lemma add_all_fresh: "fresh T \<Longrightarrow> fresh (add_all ads T)"
  unfolding add_all_def
proof (induction ads arbitrary: T)
  case (Cons p ads)
  have "fresh (add_assertion n d T)" for n d
    using Cons.prems
    by (auto simp: fresh_def add_assertion_def map_of_AList_update good_msg_def is_report_def distinct_update
        split: if_splits)
  with Cons.IH show ?case by (cases p) simp
qed simp

lemma start_fresh:
  assumes "fresh T"
  shows "\<exists>T1 i m. start sha now stamp T = Inr T1 \<and> test_inv i T1 \<and> sent T1 = [m] \<and>
    dget m ''msg-type'' = Some (PStr ''test-start'') \<and> assertions T1 = assertions T"
proof -
  obtain i m T1 where s: "start sha now stamp T = Inr T1" "T1 = T\<lparr>test_id := Some i, sent := sent T @ [m]\<rparr>"
    and m: "dget m ''msg-type'' = Some (PStr ''test-start'')" "dget m ''test-id'' = Some (PStr i)"
    by (simp add: start_def send_def Let_def)
  have "test_inv i T1"
    by (rule test_invI) (use assms m in \<open>auto simp: s(2) fresh_def\<close>)
  with s m assms show ?thesis by (auto simp: fresh_def)
qed

lemma finish_spec:
  assumes "test_inv i T"
  shows "\<exists>rc T2 ms. finish stamp T = Inr (rc, T2) \<and> test_inv i T2 \<and>
    (\<forall>n m. map_of (assertions T2) n = Some m \<longrightarrow> view n (sent T2) = Some (status_of m)) \<and>
    rc = exit_code T2 \<and> sent T2 = sent T @ ms \<and> ms \<noteq> [] \<and>
    dget (last ms) ''msg-type'' = Some (PStr ''test-finish'')"
proof -
  have d: "distinct (map fst (assertions T))" by (rule test_invD(2) [OF assms])
  have "good_msg n m \<and> (\<exists>m0. map_of (assertions T) n = Some m0 \<and> status_of m0 = status_of m)"
    if "(n, m) \<in> set (assertions T)" for n m
    using d that test_invD(3) [OF assms] by (auto simp: map_of_is_SomeI)
  then have al: "\<forall>(n, m) \<in> set (assertions T). good_msg n m \<and>
      (\<exists>m0. map_of (assertions T) n = Some m0 \<and> status_of m0 = status_of m)" by blast
  from report_loop [OF assms d al] obtain T1 ms where T1: "foldE report_skipped T (assertions T) = Inr T1"
    "test_inv i T1" "same_status T T1" "\<forall>(n, m) \<in> set (assertions T). view n (sent T1) = Some (status_of m)"
    "sent T1 = sent T @ ms" by blast
  let ?m = "dset ''test-id'' (PStr i) [(''msg-type'', PStr ''test-finish''), (''test-id'', PStr i), (''timestamp'', PFloat stamp)]"
  let ?T2 = "T1\<lparr>sent := sent T1 @ [?m]\<rparr>"
  have id1: "test_id T1 = Some i" by (rule test_invD(1) [OF T1(2)])
  have "finish stamp T = Inr (exit_code ?T2, ?T2)"
    using T1(1) id1 unfolding finish_def report_skipped_def by (simp add: send_def Let_def)
  moreover have vw: "view n (sent ?T2) = view n (sent T1)" for n by (simp add: view_snoc is_report_def)
  moreover have "test_inv i ?T2"
  proof (rule test_invI)
    show "test_id ?T2 = Some i" by (simp add: id1)
    show "distinct (map fst (assertions ?T2))" using test_invD(2) [OF T1(2)] by simp
    show "\<forall>m \<in> set (sent ?T2). dget m ''test-id'' = Some (PStr i)" using test_invD(4) [OF T1(2)] by auto
    fix n m assume "map_of (assertions ?T2) n = Some m"
    then have "map_of (assertions T1) n = Some m" by simp
    from test_invD(3) [OF T1(2) this] vw [of n]
    show "good_msg n m \<and> (dget m ''test-status'' \<noteq> Some SKIPPED \<longrightarrow> view n (sent ?T2) = dget m ''test-status'')"
      by simp
  qed
  moreover have "view n (sent ?T2) = Some (status_of m)" if "map_of (assertions ?T2) n = Some m" for n m
  proof -
    from that have "map_option status_of (map_of (assertions T1) n) = Some (status_of m)" by simp
    moreover have "map_option status_of (map_of (assertions T1) n) = map_option status_of (map_of (assertions T) n)"
      using T1(3) unfolding same_status_def by blast
    ultimately have "map_option status_of (map_of (assertions T) n) = Some (status_of m)" by simp
    then obtain m0 where "(n, m0) \<in> set (assertions T)" "status_of m0 = status_of m"
      by (auto dest: map_of_SomeD)
    with T1(4) vw [of n] show ?thesis by auto
  qed
  moreover have "sent ?T2 = sent T @ (ms @ [?m])" by (simp add: T1(5))
  ultimately show ?thesis by (intro exI [of _ "exit_code ?T2"] exI [of _ ?T2] exI [of _ "ms @ [?m]"]) simp
qed

section \<open>Properties\<close>

text \<open>
  C4: the server learns the final verdicts. However assertions are added and checked, a test
  that is set up, started and finished never fails to report; its first datagram is the start
  message and its last the finish message; all carry the same test id; for every assertion
  the last report the server gets has the assertion's final status, skipped ones included;
  and the exit code is 0 exactly when the server sees every assertion passed.
\<close>

theorem finish_reports_every_verdict:
  assumes "test_init suite ty name desc addr user cid = Inr T0"
  shows "\<exists>T1 rc T2 i. start sha now stamp (add_all ads T0) = Inr T1 \<and>
    finish stamp' (run_ops db ops T1) = Inr (rc, T2) \<and>
    (\<forall>n m. map_of (assertions T2) n = Some m \<longrightarrow> view n (sent T2) = Some (status_of m)) \<and>
    (rc = 0 \<longleftrightarrow> (\<forall>n \<in> fst ` set (assertions T2). view n (sent T2) = Some PASSED)) \<and>
    (\<forall>m \<in> set (sent T2). dget m ''test-id'' = Some (PStr i)) \<and>
    dget (hd (sent T2)) ''msg-type'' = Some (PStr ''test-start'') \<and>
    dget (last (sent T2)) ''msg-type'' = Some (PStr ''test-finish'')"
proof -
  have "fresh T0" using assms by (auto simp: test_init_def res_simps fresh_def split: prod.splits)
  then have "fresh (add_all ads T0)" by (rule add_all_fresh)
  from start_fresh [OF this, of sha now stamp] obtain T1 i m where T1: "start sha now stamp (add_all ads T0) = Inr T1"
    "test_inv i T1" "sent T1 = [m]" "dget m ''msg-type'' = Some (PStr ''test-start'')" by blast
  obtain ms where ms: "sent (run_ops db ops T1) = m # ms" using run_ops_prefix [of db ops T1] T1(3) by auto
  have "test_inv i (run_ops db ops T1)" by (rule run_ops_inv [OF T1(2)])
  from finish_spec [OF this, of stamp'] obtain rc T2 ms' where T2: "finish stamp' (run_ops db ops T1) = Inr (rc, T2)"
    "test_inv i T2" and v: "\<forall>n m. map_of (assertions T2) n = Some m \<longrightarrow> view n (sent T2) = Some (status_of m)"
    and rc: "rc = exit_code T2" and s: "sent T2 = sent (run_ops db ops T1) @ ms'" "ms' \<noteq> []"
      "dget (last ms') ''msg-type'' = Some (PStr ''test-finish'')"
    by blast
  have d: "distinct (map fst (assertions T2))" by (rule test_invD(2) [OF T2(2)])
  have v': "view n (sent T2) = Some (status_of m)" if "(n, m) \<in> set (assertions T2)" for n m
    using v map_of_is_SomeI [OF d that] by blast
  have "exit_code T2 = 0 \<longleftrightarrow> (\<forall>(n, m) \<in> set (assertions T2). status_of m = PASSED)"
    by (simp add: exit_code_def)
  also have "\<dots> \<longleftrightarrow> (\<forall>p \<in> set (assertions T2). view (fst p) (sent T2) = Some PASSED)"
  proof (intro ball_cong refl)
    fix p assume "p \<in> set (assertions T2)"
    then have "view (fst p) (sent T2) = Some (status_of (snd p))" using v' by simp
    then show "(case p of (n, m) \<Rightarrow> status_of m = PASSED) = (view (fst p) (sent T2) = Some PASSED)"
      by (simp add: case_prod_beta)
  qed
  finally have "rc = 0 \<longleftrightarrow> (\<forall>n \<in> fst ` set (assertions T2). view n (sent T2) = Some PASSED)"
    unfolding rc by simp
  moreover have "hd (sent T2) = m" "last (sent T2) = last ms'" using s(1,2) by (simp_all add: ms)
  moreover have "\<forall>m \<in> set (sent T2). dget m ''test-id'' = Some (PStr i)" using test_invD(4) [OF T2(2)] by blast
  ultimately show ?thesis using T1(1,4) T2(1) v s(3)
    by (intro exI [of _ T1] exI [of _ rc] exI [of _ T2] exI [of _ i] conjI) (simp_all only:)
qed

theorem finish_reports_every_verdict_witness:
  "\<exists>T0 T1 rc T2 i. test_init ''s'' ''FVT'' ''t'' None (Some ''host:1'') ''root'' ''-'' = Inr T0 \<and>
    start (\<lambda>s. s) 7 ''7.5'' (add_all [(1, ''a''), (2, ''b'')] T0) = Inr T1 \<and>
    finish ''9.0'' (run_ops False [Assert 1 True ''ok'', Assert 3 True ''?''] T1) = Inr (rc, T2) \<and>
    (\<forall>m \<in> set (sent T2). dget m ''test-id'' = Some (PStr i))"
proof -
  obtain T0 where T0: "test_init ''s'' ''FVT'' ''t'' None (Some ''host:1'') ''root'' ''-'' = Inr T0"
    by (simp add: test_init_def host_port_def parse_int_def strip_by_def is_space_def startswith_def is_digit_def
        of_digits_def Let_def)
  from finish_reports_every_verdict [OF T0] T0 show ?thesis by meson
qed

end
