(* ===== verification/TadaDb.thy ===== *)
theory TadaDb
  imports Effects Compare
begin

text \<open>
  The result database of \<open>TADA.py\<close>: the mapping \<open>SQLModel\<close> of objects to table rows, its two
  models, the connection table, and \<open>TADA_DB\<close>. The database engine is a parameter: a
  connection executes SQL texts with string parameters against the world.
\<close>

section \<open>Connections and statements\<close>

type_synonym row = "pval list"

record 'w conn =
  paramstyle :: string
  sql :: "string \<Rightarrow> string list \<Rightarrow> ('w, row list) io"
  commit_tx :: "('w, unit) io"

definition conn_qparam :: "'w conn \<Rightarrow> string" where
  "conn_qparam c = (if paramstyle c = ''qmark'' then ''?'' else ''%s'')"

record model =
  tbl :: string
  cols :: "(string \<times> string) list"
  ids :: "string list"

definition colnames :: "model \<Rightarrow> string list" where
  "colnames M = map fst (cols M)"

definition eqs :: "string \<Rightarrow> string list \<Rightarrow> string list" where
  "eqs q ks = map (\<lambda>k. k @ ''='' @ q) ks"

definition sql_create_statement :: "model \<Rightarrow> string" where
  "sql_create_statement M =
     ''CREATE TABLE IF NOT EXISTS '' @ tbl M @ '' ('' @
     join '','' (map (\<lambda>(n, t). n @ '' '' @ t) (cols M)) @
     (if ids M \<noteq> [] then '', PRIMARY KEY('' @ join '','' (ids M) @ '')'' else []) @ '')''"

definition sql_find :: "string \<Rightarrow> model \<Rightarrow> string list \<Rightarrow> string" where
  "sql_find q M ks =
     (let cond = join '' and '' (eqs q ks) in
      if cond \<noteq> [] then ''SELECT * FROM '' @ tbl M @ '' where '' @ cond else ''SELECT * FROM '' @ tbl M)"

definition sql_find_first :: "string \<Rightarrow> model \<Rightarrow> string list \<Rightarrow> string \<Rightarrow> string" where
  "sql_find_first q M ks order_by =
     ''SELECT * FROM '' @ tbl M @ '' '' @ (if ks \<noteq> [] then ''WHERE '' @ join '' and '' (eqs q ks) else []) @ '' '' @
     (if order_by \<noteq> [] then ''ORDER BY '' @ order_by else [])"

definition sql_insert_cols :: "string \<Rightarrow> model \<Rightarrow> string list \<Rightarrow> string" where
  "sql_insert_cols q M ks =
     ''INSERT INTO '' @ tbl M @ '' ('' @ join '','' ks @ '') VALUES ('' @ join '','' (replicate (length ks) q) @ '')''"

definition sql_insert_vals :: "string \<Rightarrow> model \<Rightarrow> nat \<Rightarrow> string" where
  "sql_insert_vals q M n = ''INSERT INTO '' @ tbl M @ '' VALUES ('' @ join '','' (replicate n q) @ '')''"

definition sql_update :: "string \<Rightarrow> model \<Rightarrow> string list \<Rightarrow> string list \<Rightarrow> string" where
  "sql_update q M sets ks =
     ''UPDATE '' @ tbl M @ '' SET '' @ join '', '' (eqs q sets) @ '' WHERE '' @ join '' and '' (eqs q ks)"

definition sql_delete :: "string \<Rightarrow> model \<Rightarrow> string list \<Rightarrow> string" where
  "sql_delete q M ks = ''DELETE FROM '' @ tbl M @ '' WHERE '' @ join '' and '' (eqs q ks)"

section \<open>Objects\<close>

record obj =
  o_model :: model
  o_attrs :: "pval dict"
  o_id :: "pval dict"

fun index_of :: "string list \<Rightarrow> string \<Rightarrow> nat res" where
  "index_of [] x = Inl (ValueError ''tuple.index(x): x not in tuple'')"
| "index_of (y # ys) x = (if y = x then Inr 0 else bindE (index_of ys x) (\<lambda>i. Inr (Suc i)))"

definition id_from_dict :: "model \<Rightarrow> pval dict \<Rightarrow> pval dict res" where
  "id_from_dict M d = mapE (\<lambda>k. bindE (dindex d k) (\<lambda>v. Inr (k, v))) (ids M)"

definition id_from_row :: "model \<Rightarrow> row \<Rightarrow> pval dict res" where
  "id_from_row M r =
     mapE (\<lambda>k. bindE (index_of (colnames M) k) (\<lambda>i. if i < length r then Inr (k, r ! i) else Inl IndexError)) (ids M)"

definition on_data_update :: "model \<Rightarrow> row \<Rightarrow> pval dict \<Rightarrow> pval dict" where
  "on_data_update M r a = dupdate a (zip (colnames M) r)"

definition new_obj_of :: "model \<Rightarrow> row \<Rightarrow> obj res" where
  "new_obj_of M r = bindE (id_from_row M r) (\<lambda>i. Inr \<lparr>o_model = M, o_attrs = on_data_update M r [], o_id = i\<rparr>)"

text \<open>Iteration: the columns with the attributes; \<open>as_tuple\<close>, \<open>as_list\<close>, \<open>as_dict\<close>.\<close>

definition o_items :: "obj \<Rightarrow> pval dict res" where
  "o_items x = mapE (\<lambda>k. case dget (o_attrs x) k of None \<Rightarrow> Inl (AttributeError k) | Some v \<Rightarrow> Inr (k, v))
     (colnames (o_model x))"

definition o_list :: "obj \<Rightarrow> pval list res" where
  "o_list x = bindE (o_items x) (\<lambda>d. Inr (map snd d))"

definition o_dict :: "obj \<Rightarrow> pval dict res" where
  "o_dict x = bindE (o_items x) (\<lambda>d. Inr (dupdate [] d))"

definition o_str :: "obj \<Rightarrow> string res" where
  "o_str x = bindE (o_items x) (\<lambda>d.
     Inr (''('' @ join '', '' (map (\<lambda>(k, v). k @ ''='' @ [CHR 0x27] @ py_str v @ [CHR 0x27]) d) @ '')''))"

text \<open>\<open><\<close> of two column values, and \<open>__cmp__\<close>.\<close>

definition pv_lt :: "pval \<Rightarrow> pval \<Rightarrow> bool res" where
  "pv_lt a b =
     (case (a, b) of
        (PInt i, PInt j) \<Rightarrow> Inr (i < j)
      | (PStr s, PStr t) \<Rightarrow> Inr (s < t)
      | _ \<Rightarrow> Inl (TypeError ''not supported between instances''))"

definition o_attr :: "obj \<Rightarrow> string \<Rightarrow> pval res" where
  "o_attr x k = (case dget (o_attrs x) k of None \<Rightarrow> Inl (AttributeError k) | Some v \<Rightarrow> Inr v)"

fun cmp_cols :: "string list \<Rightarrow> obj \<Rightarrow> obj \<Rightarrow> int res" where
  "cmp_cols [] x y = Inr 0"
| "cmp_cols (k # ks) x y =
     bindE (o_attr x k) (\<lambda>a0. bindE (o_attr y k) (\<lambda>a1.
       if a0 = PNone then (if a1 = PNone then cmp_cols ks x y else Inr (- 1))
       else if a1 = PNone then Inr 1
       else bindE (pv_lt a0 a1) (\<lambda>l. if l then Inr (- 1)
              else bindE (pv_lt a1 a0) (\<lambda>g. if g then Inr 1 else cmp_cols ks x y))))"

definition o_cmp :: "obj \<Rightarrow> obj \<Rightarrow> int res" where
  "o_cmp x y = cmp_cols (colnames (o_model x)) x y"

definition o_eq :: "obj \<Rightarrow> obj \<Rightarrow> bool res" where
  "o_eq x y = bindE (o_cmp x y) (\<lambda>c. Inr (c = 0))"

definition o_lt :: "obj \<Rightarrow> obj \<Rightarrow> bool res" where
  "o_lt x y = bindE (o_cmp x y) (\<lambda>c. Inr (c < 0))"

section \<open>Queries\<close>

definition params :: "pval dict \<Rightarrow> string list" where
  "params kw = map (\<lambda>p. py_str (snd p)) kw"

definition find_objs :: "'w conn \<Rightarrow> model \<Rightarrow> pval dict \<Rightarrow> ('w, obj list) io" where
  "find_objs c M kw =
     bindS (sql c (sql_find (conn_qparam c) M (dkeys kw)) (params kw)) (\<lambda>rows.
       liftE (mapE (new_obj_of M) rows))"

definition find_first :: "'w conn \<Rightarrow> model \<Rightarrow> string \<Rightarrow> pval dict \<Rightarrow> ('w, obj option) io" where
  "find_first c M order_by kw =
     bindS (sql c (sql_find_first (conn_qparam c) M (dkeys kw) order_by) (params kw)) (\<lambda>rows.
       case rows of [] \<Rightarrow> retS None
       | r # _ \<Rightarrow> if r = [] then retS None else liftE (bindE (new_obj_of M r) (\<lambda>x. Inr (Some x))))"

text \<open>The forms of the arguments of \<open>create\<close>: one dict, one list or several values, one other value.\<close>

datatype create_args = FromDict "pval dict" | FromList "pval list" | FromOther

text \<open>
  \<open>get\<close> and \<open>create\<close> call each other: \<open>create\<close> ends with a \<open>get\<close> of the new id, which would
  create again if the engine did not find the row; \<open>partial_function\<close> leaves such a run
  without a result.
\<close>

definition insert_obj :: "'w conn \<Rightarrow> model \<Rightarrow> create_args \<Rightarrow> ('w, pval dict) io" where
  "insert_obj c M args =
     (let q = conn_qparam c in
      case args of
        FromDict d \<Rightarrow>
          bindS (liftE (id_from_dict M d)) (\<lambda>i.
          bindS (sql c (sql_insert_cols q M (dkeys d)) (params d)) (\<lambda>_.
          seqS (commit_tx c) (retS i)))
      | FromList l \<Rightarrow>
          bindS (liftE (id_from_row M l)) (\<lambda>i.
          bindS (sql c (sql_insert_vals q M (length l)) (map py_str l)) (\<lambda>_.
          seqS (commit_tx c) (retS i)))
      | FromOther \<Rightarrow> raiseS (NameError ''sql''))"

partial_function (option) get_obj :: "'w conn \<Rightarrow> model \<Rightarrow> pval dict \<Rightarrow> ('w, obj) io" where
  "get_obj c M kw w =
     bindS (find_objs c M kw) (\<lambda>objs.
       if objs = [] then bindS (insert_obj c M (FromDict kw)) (\<lambda>i. get_obj c M i)
       else if length objs > 1 then raiseS (KeyError (PStr ''`get` results not unique''))
       else retS (hd objs)) w"

definition create_obj :: "'w conn \<Rightarrow> model \<Rightarrow> create_args \<Rightarrow> ('w, obj) io" where
  "create_obj c M args = bindS (insert_obj c M args) (\<lambda>i. get_obj c M i)"

definition query_obj :: "'w conn \<Rightarrow> obj \<Rightarrow> ('w, row option) io" where
  "query_obj c x =
     bindS (sql c (sql_find (conn_qparam c) (o_model x) (dkeys (o_id x))) (params (o_id x))) (\<lambda>rows.
       retS (case rows of [] \<Rightarrow> None | r # _ \<Rightarrow> Some r))"

text \<open>\<open>reload\<close>: iterating over the \<open>None\<close> of a vanished row raises.\<close>

definition reload_obj :: "'w conn \<Rightarrow> obj \<Rightarrow> ('w, obj) io" where
  "reload_obj c x =
     bindS (query_obj c x) (\<lambda>r. case r of
       None \<Rightarrow> raiseS (TypeError ''NoneType object is not iterable'')
     | Some d \<Rightarrow> retS (x\<lparr>o_attrs := on_data_update (o_model x) d (o_attrs x)\<rparr>))"

definition commit_obj :: "'w conn \<Rightarrow> obj \<Rightarrow> ('w, unit) io" where
  "commit_obj c x =
     bindS (liftE (o_items x)) (\<lambda>its.
     let vals = dupdate [] (filter (\<lambda>(k, v). k \<notin> set (dkeys (o_id x)) \<and> v \<noteq> PNone) its) in
     bindS (sql c (sql_update (conn_qparam c) (o_model x) (dkeys vals) (dkeys (o_id x))) (params vals @ params (o_id x)))
       (\<lambda>_. commit_tx c))"

definition delete_row :: "'w conn \<Rightarrow> obj \<Rightarrow> ('w, unit) io" where
  "delete_row c x =
     bindS (sql c (sql_delete (conn_qparam c) (o_model x) (dkeys (o_id x))) (params (o_id x))) (\<lambda>_. commit_tx c)"

section \<open>The two models\<close>

definition TADATestModel :: model where
  "TADATestModel = \<lparr>tbl = ''TADATest'',
     cols = [(''test_id'', ''VARCHAR(64)''), (''test_suite'', ''TEXT''), (''test_type'', ''TEXT''),
             (''test_name'', ''TEXT''), (''test_user'', ''TEXT''), (''commit_id'', ''TEXT''),
             (''test_desc'', ''TEXT''), (''test_start'', ''INTEGER''), (''test_finish'', ''INTEGER'')],
     ids = [''test_id'']\<rparr>"

definition TADAAssertionModel :: model where
  "TADAAssertionModel = \<lparr>tbl = ''TADAAssertion'',
     cols = [(''test_id'', ''VARCHAR(64)''), (''assert_id'', ''VARCHAR(64)''), (''assert_result'', ''TEXT''),
             (''assert_cond'', ''TEXT''), (''assert_desc'', ''TEXT'')],
     ids = [''test_id'', ''assert_id'']\<rparr>"

definition assertions_of :: "'w conn \<Rightarrow> obj \<Rightarrow> ('w, obj list) io" where
  "assertions_of c x =
     bindS (liftE (o_attr x ''test_id'')) (\<lambda>i.
     bindS (sql c (''SELECT * FROM '' @ tbl TADAAssertionModel @ '' WHERE test_id='' @ conn_qparam c) [py_str i]) (\<lambda>rows.
       liftE (mapE (new_obj_of TADAAssertionModel) rows)))"

definition get_assertion :: "'w conn \<Rightarrow> obj \<Rightarrow> pval \<Rightarrow> ('w, obj) io" where
  "get_assertion c x aid =
     bindS (liftE (o_attr x ''test_id'')) (\<lambda>i.
       get_obj c TADAAssertionModel [(''test_id'', i), (''assert_id'', aid)])"

definition delete_test :: "'w conn \<Rightarrow> obj \<Rightarrow> ('w, unit) io" where
  "delete_test c x = bindS (assertions_of c x) (\<lambda>as. seqS (forS as (delete_row c)) (delete_row c x))"

text \<open>\<open>equivalent\<close>: the function \<open>cmp\<close> that it calls does not exist in Python 3.\<close>

definition equivalent :: "obj \<Rightarrow> obj \<Rightarrow> bool res" where
  "equivalent x y = bindE (o_attr x ''test_suite'') (\<lambda>_. bindE (o_attr y ''test_suite'') (\<lambda>_. Inl (NameError ''cmp'')))"

section \<open>TADA_DB\<close>

definition db_loc :: "string \<Rightarrow> int option \<Rightarrow> string" where
  "db_loc host port = (case port of None \<Rightarrow> host | Some p \<Rightarrow> if p = 0 then host else host @ '':'' @ str_int p)"

definition DB_CONN_TBL :: "(string \<times> string) dict" where
  "DB_CONN_TBL = [(''sqlite'', ''sqlite_connect'', ''sqlite3''), (''mysql'', ''mysql_connect'', ''MySQLdb''),
     (''pgsql'', ''pgsql_connect'', ''psycopg2''), (''postgres'', ''pgsql_connect'', ''psycopg2''),
     (''postgresql'', ''pgsql_connect'', ''psycopg2'')]"

text \<open>The arguments that the connect functions pass on to the module.\<close>

definition connect_kwargs :: "string \<Rightarrow> pval dict \<Rightarrow> pval dict" where
  "connect_kwargs fn kw =
     (let g = (\<lambda>k d. dget_or kw k d); host = g ''db_host'' (PStr ''localhost'') in
      if fn = ''sqlite_connect'' then [(''database'', g ''db_path'' PNone)]
      else if fn = ''pgsql_connect'' then
        [(''host'', host), (''port'', g ''db_port'' PNone), (''user'', g ''db_user'' PNone),
         (''password'', g ''db_password'' PNone), (''database'', g ''db_database'' PNone)]
      else filter (\<lambda>(k, v). v \<noteq> PNone)
        [(''host'', host), (''port'', g ''db_port'' PNone), (''user'', g ''db_user'' PNone),
         (''passwd'', g ''db_password'' PNone), (''db'', g ''db_database'' PNone)])"

definition MODELS :: "model list" where
  "MODELS = [TADATestModel, TADAAssertionModel]"

definition init_tables :: "'w conn \<Rightarrow> ('w, unit) io" where
  "init_tables c = seqS (forS MODELS (\<lambda>M. bindS (sql c (sql_create_statement M) []) (\<lambda>_. retS ()))) (commit_tx c)"

definition drop_tables :: "'w conn \<Rightarrow> ('w, unit) io" where
  "drop_tables c =
     seqS (forS MODELS (\<lambda>M. bindS (sql c (''DROP TABLE IF EXISTS '' @ tbl M) []) (\<lambda>_. retS ()))) (commit_tx c)"

text \<open>The constructor; \<open>connect\<close> imports the module and opens the connection.\<close>

definition tada_db_init ::
  "(string \<Rightarrow> pval dict \<Rightarrow> ('w, 'w conn) io) \<Rightarrow> string \<Rightarrow> pval dict \<Rightarrow> ('w, 'w conn) io" where
  "tada_db_init connect driver kw =
     (case dget DB_CONN_TBL driver of
        None \<Rightarrow> raiseS (RuntimeError (''Unsupported driver: '' @ driver))
      | Some (fn, md) \<Rightarrow>
          if fn = ''sqlite_connect'' \<and> dget kw ''db_path'' = None
          then raiseS (TypeError ''missing 1 required positional argument: db_path'')
          else bindS (connect md (connect_kwargs fn kw)) (\<lambda>c. seqS (init_tables c) (retS c)))"

definition run_key :: "obj \<Rightarrow> pval list res" where
  "run_key x = mapE (o_attr x) [''test_suite'', ''test_type'', ''test_name'', ''test_user'', ''commit_id'']"

text \<open>The objects in the order of \<open>test_start\<close>; the last one of each combination stays.\<close>

definition start_lt :: "obj \<Rightarrow> obj \<Rightarrow> bool res" where
  "start_lt x y = bindE (o_attr x ''test_start'') (\<lambda>a. bindE (o_attr y ''test_start'') (\<lambda>b. pv_lt a b))"

definition latest_runs :: "obj list \<Rightarrow> obj list res" where
  "latest_runs objs =
     bindE (py_sort start_lt objs) (\<lambda>l.
     bindE (foldE (\<lambda>d x. bindE (run_key x) (\<lambda>k. Inr (AList.update k x d))) [] l) (\<lambda>d.
       Inr (map snd d)))"

definition find_tests :: "'w conn \<Rightarrow> bool \<Rightarrow> pval dict \<Rightarrow> ('w, obj list) io" where
  "find_tests c latest kw =
     bindS (find_objs c TADATestModel kw) (\<lambda>objs. if latest then liftE (latest_runs objs) else retS objs)"

text \<open>\<open>purgeOldTests\<close>: \<open>list.sort\<close> of Python 3 has no argument \<open>cmp\<close>.\<close>

definition purge_old_tests :: "'w conn \<Rightarrow> ('w, unit) io" where
  "purge_old_tests c =
     bindS (find_tests c False []) (\<lambda>objs. raiseS (TypeError ''cmp is an invalid keyword argument for sort()''))"

section \<open>Latest runs\<close>

definition st_of :: "obj \<Rightarrow> int" where
  "st_of x = (case dget (o_attrs x) ''test_start'' of Some (PInt t) \<Rightarrow> t | _ \<Rightarrow> 0)"

definition key_of :: "obj \<Rightarrow> pval list" where
  "key_of x = (case run_key x of Inr k \<Rightarrow> k | Inl _ \<Rightarrow> [])"

text \<open>A row of a test that was started: its attributes are there and the start is a number.\<close>

definition started :: "obj \<Rightarrow> bool" where
  "started x \<longleftrightarrow> dget (o_attrs x) ''test_start'' = Some (PInt (st_of x)) \<and> run_key x = Inr (key_of x)"

lemma insert_by_key:
  "(\<And>y. y \<in> set (x # ys) \<Longrightarrow> started y) \<Longrightarrow> insert_by start_lt x ys = Inr (insort_key st_of x ys)"
proof (induction ys)
  case (Cons y ys)
  have "start_lt y x = Inr (st_of y < st_of x)"
    using Cons.prems [of x] Cons.prems [of y] by (simp add: start_lt_def o_attr_def started_def pv_lt_def)
  moreover have "insert_by start_lt x ys = Inr (insort_key st_of x ys)"
    by (rule Cons.IH) (use Cons.prems in auto)
  ultimately show ?case by auto
qed simp

lemma py_sort_key:
  "(\<And>y. y \<in> set ys \<Longrightarrow> started y) \<Longrightarrow> py_sort start_lt ys = Inr (sort_key st_of ys)"
proof (induction ys)
  case (Cons y ys)
  have "insert_by start_lt y (sort_key st_of ys) = Inr (insort_key st_of y (sort_key st_of ys))"
    by (rule insert_by_key) (use Cons.prems in auto)
  with Cons show ?case by simp
qed simp

lemma keep_last:
  assumes "\<And>y. y \<in> set l \<Longrightarrow> started y" "distinct (map fst d0)"
  shows "\<exists>d. foldE (\<lambda>d x. bindE (run_key x) (\<lambda>k. Inr (AList.update k x d))) d0 l = Inr d \<and> distinct (map fst d) \<and>
    (\<forall>k. map_of d k = (case filter (\<lambda>x. key_of x = k) (rev l) of [] \<Rightarrow> map_of d0 k | x # _ \<Rightarrow> Some x))"
  using assms
proof (induction l arbitrary: d0)
  case (Cons x l)
  have x: "run_key x = Inr (key_of x)" using Cons.prems(1) [of x] by (simp add: started_def)
  have "distinct (map fst (AList.update (key_of x) x d0))" using Cons.prems(2) by (rule distinct_update)
  from Cons.IH [OF _ this] Cons.prems(1) obtain d where d:
    "foldE (\<lambda>d x. bindE (run_key x) (\<lambda>k. Inr (AList.update k x d))) (AList.update (key_of x) x d0) l = Inr d"
    "distinct (map fst d)"
    "\<forall>k. map_of d k = (case filter (\<lambda>x. key_of x = k) (rev l) of [] \<Rightarrow> map_of (AList.update (key_of x) x d0) k | x # _ \<Rightarrow> Some x)"
    by auto
  have "map_of d k = (case filter (\<lambda>x. key_of x = k) (rev (x # l)) of [] \<Rightarrow> map_of d0 k | x # _ \<Rightarrow> Some x)" for k
    using d(3) by (auto simp: update_conv' split: list.splits)
  with d x show ?case by auto
qed simp

lemma last_of_sorted:
  "sorted (map f l) \<Longrightarrow> filter P (rev l) = x # r \<Longrightarrow> y \<in> set l \<Longrightarrow> P y \<Longrightarrow> f y \<le> f x"
proof (induction l arbitrary: r rule: rev_induct)
  case (snoc z l)
  show ?case
  proof (cases "P z")
    case True
    with snoc.prems have "x = z" by simp
    with snoc.prems show ?thesis by (auto simp: sorted_append)
  next
    case False
    with snoc.prems have "filter P (rev l) = x # r" "y \<in> set l" "sorted (map f l)" by (auto simp: sorted_append)
    with snoc.IH snoc.prems(4) show ?thesis by blast
  qed
qed simp

section \<open>Get or create\<close>

definition row_matches :: "model \<Rightarrow> string list \<Rightarrow> row \<Rightarrow> bool" where
  "row_matches M ps r \<longleftrightarrow>
     list_all2 (\<lambda>k p. case index_of (colnames M) k of Inl _ \<Rightarrow> False
       | Inr i \<Rightarrow> r ! i \<noteq> PNone \<and> py_str (r ! i) = p) (ids M) ps"

definition new_row :: "model \<Rightarrow> string list \<Rightarrow> row" where
  "new_row M ps = map (\<lambda>(n, t). case map_of (zip (ids M) ps) n of None \<Rightarrow> PNone | Some p \<Rightarrow> PStr p) (cols M)"

text \<open>
  The documented behaviour of the engine that \<open>get\<close> relies on: a selection by the id columns
  returns the rows that match and changes nothing; an insertion of the id columns adds one
  row, whose other columns are null; a commit changes no row.
\<close>

definition engine_ok :: "'w conn \<Rightarrow> model \<Rightarrow> ('w \<Rightarrow> row list) \<Rightarrow> bool" where
  "engine_ok c M rows \<longleftrightarrow>
     (\<forall>ps w. length ps = length (ids M) \<longrightarrow>
        sql c (sql_find (conn_qparam c) M (ids M)) ps w = Some (Inr (filter (row_matches M ps) (rows w)), w)) \<and>
     (\<forall>ps w. length ps = length (ids M) \<longrightarrow>
        (\<exists>w'. sql c (sql_insert_cols (conn_qparam c) M (ids M)) ps w = Some (Inr [], w') \<and>
           rows w' = rows w @ [new_row M ps])) \<and>
     (\<forall>w. \<exists>w'. commit_tx c w = Some (Inr (), w') \<and> rows w' = rows w)"

definition model_ok :: "model \<Rightarrow> bool" where
  "model_ok M \<longleftrightarrow> distinct (colnames M) \<and> distinct (ids M) \<and> set (ids M) \<subseteq> set (colnames M)"

lemma index_of_nth: "x \<in> set ks \<Longrightarrow> \<exists>i. index_of ks x = Inr i \<and> i < length ks \<and> ks ! i = x"
  by (induction ks) auto

lemma new_row_id:
  assumes "model_ok M" "k \<in> set (ids M)" "length ps = length (ids M)" "map_of (zip (ids M) ps) k = Some p"
  shows "\<exists>i. index_of (colnames M) k = Inr i \<and> i < length (new_row M ps) \<and> new_row M ps ! i = PStr p"
proof -
  obtain i where i: "index_of (colnames M) k = Inr i" "i < length (colnames M)" "colnames M ! i = k"
    using index_of_nth [of k "colnames M"] assms(1,2) by (auto simp: model_ok_def)
  then have "fst (cols M ! i) = k" "i < length (cols M)" by (simp_all add: colnames_def)
  with i assms(4) show ?thesis by (auto simp: new_row_def case_prod_beta)
qed

lemma new_row_matches:
  assumes "model_ok M" "length ps = length (ids M)"
  shows "row_matches M ps (new_row M ps)"
  unfolding row_matches_def list_all2_conv_all_nth
proof (intro conjI allI impI)
  show "length (ids M) = length ps" using assms(2) by simp
  fix j assume j: "j < length (ids M)"
  have d: "distinct (ids M)" using assms(1) by (simp add: model_ok_def)
  have "map_of (zip (ids M) ps) (ids M ! j) = Some (ps ! j)"
    using map_of_zip_nth [OF assms(2) [symmetric] d] j assms(2) by simp
  from new_row_id [OF assms(1) _ assms(2) this] j
  show "case index_of (colnames M) (ids M ! j) of Inl _ \<Rightarrow> False
    | Inr i \<Rightarrow> new_row M ps ! i \<noteq> PNone \<and> py_str (new_row M ps ! i) = ps ! j"
    by auto
qed

lemma new_obj_total:
  assumes "model_ok M" "length r = length (cols M)"
  shows "\<exists>x. new_obj_of M r = Inr x"
proof -
  let ?f = "\<lambda>k. bindE (index_of (colnames M) k) (\<lambda>i. if i < length r then Inr (k, r ! i) else Inl IndexError)"
  have "\<forall>k \<in> set (ids M). \<exists>v. ?f k = Inr v"
  proof
    fix k assume "k \<in> set (ids M)"
    then have "k \<in> set (colnames M)" using assms(1) by (auto simp: model_ok_def)
    then obtain i where "index_of (colnames M) k = Inr i" "i < length (colnames M)" using index_of_nth by blast
    then show "\<exists>v. ?f k = Inr v" using assms(2) by (simp add: colnames_def)
  qed
  from bchoice [OF this] obtain f where f: "\<forall>k \<in> set (ids M). ?f k = Inr (f k)" by blast
  have "mapE ?f (ids M) = Inr (map f (ids M))" by (rule mapE_Inr_map) (use f in blast)
  then show ?thesis by (simp add: new_obj_of_def id_from_row_def)
qed

lemma id_from_dict_same: "dkeys kw = ids M \<Longrightarrow> distinct (ids M) \<Longrightarrow> id_from_dict M kw = Inr kw"
proof -
  assume k: "dkeys kw = ids M" and d: "distinct (ids M)"
  have "mapE (\<lambda>k. bindE (dindex kw k) (\<lambda>v. Inr (k, v))) (dkeys kw') = Inr kw'"
    if "\<forall>(k, v) \<in> set kw'. dget kw k = Some v" for kw'
    using that by (induction kw') (auto simp: dindex_def)
  moreover have "\<forall>(k, v) \<in> set kw. dget kw k = Some v" using k d by auto
  ultimately have "mapE (\<lambda>k. bindE (dindex kw k) (\<lambda>v. Inr (k, v))) (dkeys kw) = Inr kw" by blast
  then show ?thesis using k by (simp add: id_from_dict_def)
qed

section \<open>Properties\<close>

text \<open>
  C18: the latest run of every test. Over started tests, \<open>findTests(latest = True)\<close> keeps for
  each combination of suite, type, name, user and commit exactly one test, one of those
  found, and none of the same combination started later; every combination found is kept.
\<close>

theorem latest_runs_are_latest:
  assumes "\<forall>x \<in> set objs. started x"
  shows "\<exists>ys. latest_runs objs = Inr ys \<and> distinct (map key_of ys) \<and> key_of ` set ys = key_of ` set objs \<and>
    (\<forall>y \<in> set ys. y \<in> set objs \<and> (\<forall>x \<in> set objs. key_of x = key_of y \<longrightarrow> st_of x \<le> st_of y))"
proof -
  let ?l = "sort_key st_of objs"
  have so: "py_sort start_lt objs = Inr ?l" by (rule py_sort_key) (use assms in blast)
  obtain d where d: "foldE (\<lambda>d x. bindE (run_key x) (\<lambda>k. Inr (AList.update k x d))) [] ?l = Inr d"
    "distinct (map fst d)"
    "\<forall>k. map_of d k = (case filter (\<lambda>x. key_of x = k) (rev ?l) of [] \<Rightarrow> map_of [] k | x # _ \<Rightarrow> Some x)"
    using keep_last [of ?l "[]"] assms by auto
  have it: "key_of y = k \<and> y \<in> set objs \<and> (\<forall>x \<in> set objs. key_of x = k \<longrightarrow> st_of x \<le> st_of y)"
    if "(k, y) \<in> set d" for k y
  proof -
    have "map_of d k = Some y" using d(2) that by simp
    then obtain r where r: "filter (\<lambda>x. key_of x = k) (rev ?l) = y # r"
      using d(3) by (cases "filter (\<lambda>x. key_of x = k) (rev ?l)") auto
    then have "y \<in> set (filter (\<lambda>x. key_of x = k) (rev ?l))" by simp
    moreover have "st_of x \<le> st_of y" if "x \<in> set objs" "key_of x = k" for x
      using last_of_sorted [of st_of ?l "\<lambda>x. key_of x = k" y r x] r that by simp
    ultimately show ?thesis by auto
  qed
  have kd: "map fst d = map key_of (map snd d)" using it by auto
  have up: "key_of x \<in> fst ` set d" if "x \<in> set objs" for x
  proof -
    have "x \<in> set (filter (\<lambda>y. key_of y = key_of x) (rev ?l))" using that by simp
    then obtain z r where "filter (\<lambda>y. key_of y = key_of x) (rev ?l) = z # r"
      by (cases "filter (\<lambda>y. key_of y = key_of x) (rev ?l)") auto
    then have "map_of d (key_of x) = Some z" using d(3) by simp
    then show ?thesis by (auto dest: map_of_SomeD intro: rev_image_eqI)
  qed
  have "fst ` set d \<subseteq> key_of ` set objs"
  proof
    fix k assume "k \<in> fst ` set d"
    then obtain y where "(k, y) \<in> set d" by auto
    with it have "key_of y = k" "y \<in> set objs" by blast+
    then show "k \<in> key_of ` set objs" by blast
  qed
  with up have "fst ` set d = key_of ` set objs" by blast
  moreover have "key_of ` set (map snd d) = fst ` set d" using kd by (metis set_map)
  ultimately have ks: "key_of ` set (map snd d) = key_of ` set objs" by simp
  have ds: "distinct (map key_of (map snd d))" using d(2) kd by simp
  have "latest_runs objs = Inr (map snd d)" by (simp add: latest_runs_def so d(1))
  then show ?thesis using it ks ds by (intro exI [of _ "map snd d"]) auto
qed

definition demo_run :: "string \<Rightarrow> int \<Rightarrow> obj" where
  "demo_run i t = \<lparr>o_model = TADATestModel,
     o_attrs = [(''test_id'', PStr i), (''test_suite'', PStr ''s''), (''test_type'', PStr ''t''), (''test_name'', PStr ''n''),
       (''test_user'', PStr ''u''), (''commit_id'', PStr ''c''), (''test_start'', PInt t)],
     o_id = [(''test_id'', PStr i)]\<rparr>"

theorem latest_runs_are_latest_witness:
  "\<exists>ys. latest_runs [demo_run ''b'' 9, demo_run ''a'' 3] = Inr ys \<and>
    (\<forall>y \<in> set ys. y \<in> {demo_run ''b'' 9, demo_run ''a'' 3})"
proof -
  have "\<forall>x \<in> set [demo_run ''b'' 9, demo_run ''a'' 3]. started x"
    by (simp add: started_def demo_run_def st_of_def key_of_def run_key_def o_attr_def)
  from latest_runs_are_latest [OF this] show ?thesis by auto
qed

lemma get_creates:
  assumes "engine_ok c M rows" "model_ok M" "dkeys kw = ids M"
    "\<forall>r \<in> set (rows w). \<not> row_matches M (params kw) r"
  shows "\<exists>x w1. get_obj c M kw w = Some (Inr x, w1) \<and> rows w1 = rows w @ [new_row M (params kw)] \<and>
    get_obj c M kw w1 = Some (Inr x, w1) \<and> new_obj_of M (new_row M (params kw)) = Inr x \<and>
    insert_obj c M (FromDict kw) w = Some (Inr kw, w1)"
proof -
  let ?ps = "params kw" and ?q = "conn_qparam c"
  have len: "length ?ps = length (ids M)" using assms(3) by (metis length_map params_def)
  note E = assms(1) [unfolded engine_ok_def]
  have find: "find_objs c M kw v = Some (mapE (new_obj_of M) (filter (row_matches M ?ps) (rows v)), v)" for v
    using E len by (simp add: find_objs_def bindS_def liftE_def assms(3))
  have none: "filter (row_matches M ?ps) (rows w) = []" using assms(4) by (simp add: filter_empty_conv)
  obtain w1 where w1: "sql c (sql_insert_cols ?q M (ids M)) ?ps w = Some (Inr [], w1)" "rows w1 = rows w @ [new_row M ?ps]"
    using E len by blast
  obtain w2 where w2: "commit_tx c w1 = Some (Inr (), w2)" "rows w2 = rows w1" using E by blast
  have "distinct (ids M)" using assms(2) by (simp add: model_ok_def)
  then have idd: "id_from_dict M kw = Inr kw" using id_from_dict_same assms(3) by blast
  have ins: "insert_obj c M (FromDict kw) w = Some (Inr kw, w2)"
    using w1 w2 by (simp add: insert_obj_def Let_def idd assms(3) bindS_def liftE_def retS_def)
  obtain x where x: "new_obj_of M (new_row M ?ps) = Inr x"
  proof -
    have "length (new_row M ?ps) = length (cols M)" by (simp add: new_row_def)
    from new_obj_total [OF assms(2) this] that show ?thesis by blast
  qed
  have one: "get_obj c M kw w2 = Some (Inr x, w2)"
  proof -
    have "filter (row_matches M ?ps) (rows w2) = [new_row M ?ps]"
      using none w1(2) w2(2) new_row_matches [OF assms(2) len] by simp
    then have "find_objs c M kw w2 = Some (Inr [x], w2)" by (simp add: find x)
    then show ?thesis by (subst get_obj.simps) (simp add: bindS_def retS_def)
  qed
  have "find_objs c M kw w = Some (Inr [], w)" by (simp add: find none)
  then have "get_obj c M kw w = Some (Inr x, w2)"
    by (subst get_obj.simps) (simp add: bindS_def ins one)
  with one w1(2) w2(2) x ins show ?thesis by auto
qed

text \<open>
  Get or create. With an engine that behaves as documented, \<open>get\<close> by the id columns, when
  no row matches, adds exactly one row and returns its object; asking again returns the same
  object and changes nothing. So the messages of a test never create two rows.
\<close>

lemma get_creates_once:
  assumes "engine_ok c M rows" "model_ok M" "dkeys kw = ids M"
    "\<forall>r \<in> set (rows w). \<not> row_matches M (params kw) r"
  shows "\<exists>x w1. get_obj c M kw w = Some (Inr x, w1) \<and> rows w1 = rows w @ [new_row M (params kw)] \<and>
    get_obj c M kw w1 = Some (Inr x, w1)"
  using get_creates [OF assms] by blast

text \<open>An engine for the assertion table: the world is the list of rows.\<close>

definition demo_sql :: "string \<Rightarrow> string list \<Rightarrow> (row list, row list) io" where
  "demo_sql txt ps w =
     (if txt = sql_find ''?'' TADAAssertionModel (ids TADAAssertionModel)
      then Some (Inr (filter (row_matches TADAAssertionModel ps) w), w)
      else Some (Inr [], w @ [new_row TADAAssertionModel ps]))"

definition demo_conn :: "row list conn" where
  "demo_conn = \<lparr>paramstyle = ''qmark'', sql = demo_sql, commit_tx = retS ()\<rparr>"

lemma get_creates_once_instance:
  "\<exists>x w1. get_obj demo_conn TADAAssertionModel [(''test_id'', PStr ''ab''), (''assert_id'', PInt 1)] [] = Some (Inr x, w1) \<and>
    length w1 = 1"
proof -
  have "sql_insert_cols ''?'' TADAAssertionModel [''test_id'', ''assert_id''] \<noteq>
      sql_find ''?'' TADAAssertionModel [''test_id'', ''assert_id'']"
    by (simp add: sql_insert_cols_def sql_find_def TADAAssertionModel_def join_def eqs_def)
  then have e: "engine_ok demo_conn TADAAssertionModel (\<lambda>w. w)"
    by (simp add: engine_ok_def demo_conn_def demo_sql_def conn_qparam_def retS_def)
      (simp add: TADAAssertionModel_def)
  have m: "model_ok TADAAssertionModel"
    by (simp add: model_ok_def TADAAssertionModel_def colnames_def)
  have k: "dkeys [(''test_id'', PStr ''ab''), (''assert_id'', PInt 1)] = ids TADAAssertionModel"
    by (simp add: TADAAssertionModel_def)
  from get_creates_once [OF e m k, of "[]"] show ?thesis by auto
qed

text \<open>
  Purging never works. \<open>purgeOldTests\<close> raises for every content of the database, before
  anything is deleted, and \<open>equivalent\<close> never has an answer: both use the \<open>cmp\<close> of Python 2.
\<close>

lemma purge_never_works:
  "(\<forall>w w'. purge_old_tests c w \<noteq> Some (Inr (), w')) \<and> equivalent x y \<noteq> Inr b"
proof (intro conjI allI)
  fix w w'
  show "purge_old_tests c w \<noteq> Some (Inr (), w')"
  proof
    assume "purge_old_tests c w = Some (Inr (), w')"
    from bindS_Inr [THEN iffD1, OF this [unfolded purge_old_tests_def]] show False
      by (auto simp: raiseS_def)
  qed
  show "equivalent x y \<noteq> Inr b" by (auto simp: equivalent_def res_simps)
qed

end
