(* ===== verification/IPNet.thy ===== *)
theory IPNet
  imports Prelude "HOL-Library.Word"
begin

unbundle bit_operations_syntax

text \<open>
  Networks and addresses, as \<open>runtime/docker.py\<close> uses them: the texts and numbers of the
  \<open>ipaddress\<close> module (\<open>ip_network\<close>, \<open>str\<close>, \<open>hosts\<close>, the order of networks), the search
  \<open>attr_grep\<close> for the subnets in the attributes of the docker networks, with the list that its
  default argument is shared between calls, and the choice of the next free subnet.
\<close>

section \<open>Networks of the ipaddress module\<close>

text \<open>A network: its address as a number and the length of its prefix.\<close>

datatype ipnet = Net4 nat nat | Net6 nat nat

fun net_bits :: "ipnet \<Rightarrow> nat" where
  "net_bits (Net4 _ _) = 32"
| "net_bits (Net6 _ _) = 128"

fun network_address :: "ipnet \<Rightarrow> nat" where
  "network_address (Net4 a _) = a"
| "network_address (Net6 a _) = a"

fun prefixlen :: "ipnet \<Rightarrow> nat" where
  "prefixlen (Net4 _ p) = p"
| "prefixlen (Net6 _ p) = p"

fun is_v4 :: "ipnet \<Rightarrow> bool" where
  "is_v4 (Net4 _ _) = True"
| "is_v4 (Net6 _ _) = False"

definition hostmask :: "ipnet \<Rightarrow> nat" where
  "hostmask n = 2 ^ (net_bits n - prefixlen n) - 1"

definition broadcast_address :: "ipnet \<Rightarrow> nat" where
  "broadcast_address n = network_address n + hostmask n"

subsection \<open>Texts of addresses\<close>

definition str4 :: "nat \<Rightarrow> string" where
  "str4 a = join ''.'' (map (\<lambda>i. str_nat (a div 256 ^ i mod 256)) [3, 2, 1, 0])"

definition octet :: "string \<Rightarrow> nat option" where
  "octet s =
     (if s = [] \<or> \<not> list_all is_digit s \<or> 3 < length s \<or> (s \<noteq> ''0'' \<and> startswith ''0'' s) then None
      else let n = of_digits 10 s in if 255 < n then None else Some n)"

fun sequence :: "'a option list \<Rightarrow> 'a list option" where
  "sequence [] = Some []"
| "sequence (None # xs) = None"
| "sequence (Some x # xs) = (case sequence xs of None \<Rightarrow> None | Some ys \<Rightarrow> Some (x # ys))"

definition of_base :: "nat \<Rightarrow> nat list \<Rightarrow> nat" where
  "of_base b ds = foldl (\<lambda>n d. n * b + d) 0 ds"

definition parse4 :: "string \<Rightarrow> nat option" where
  "parse4 s =
     (let os = split_on CHR ''.'' s in
      if length os \<noteq> 4 then None
      else case sequence (map octet os) of None \<Rightarrow> None | Some ds \<Rightarrow> Some (of_base 256 ds))"

definition hextets :: "nat \<Rightarrow> nat list" where
  "hextets a = map (\<lambda>i. a div 65536 ^ i mod 65536) [7, 6, 5, 4, 3, 2, 1, 0]"

definition hex_lower :: "nat \<Rightarrow> string" where
  "hex_lower n = lower (digits_of 16 n)"

text \<open>
  \<open>_compress_hextets\<close>: the first of the longest runs of at least two zeros becomes one empty
  field, with another empty field at an end of the address that it reaches.
\<close>

fun zero_run :: "nat list \<Rightarrow> nat" where
  "zero_run [] = 0"
| "zero_run (x # xs) = (if x = 0 then Suc (zero_run xs) else 0)"

fun best_run :: "nat \<Rightarrow> nat list \<Rightarrow> nat \<times> nat" where
  "best_run i [] = (i, 0)"
| "best_run i (x # xs) =
     (let (j, l) = best_run (Suc i) xs in if l \<le> zero_run (x # xs) then (i, zero_run (x # xs)) else (j, l))"

definition compress :: "nat list \<Rightarrow> string list" where
  "compress hs =
     (let (i, l) = best_run 0 hs in
      if 1 < l then
        let hi = map hex_lower (take i hs); lo = map hex_lower (drop (i + l) hs)
        in (if hi = [] then [[]] else hi) @ [[]] @ (if lo = [] then [[]] else lo)
      else map hex_lower hs)"

definition str6 :: "nat \<Rightarrow> string" where
  "str6 a = join '':'' (compress (hextets a))"

definition hextet :: "string \<Rightarrow> nat option" where
  "hextet s = (if s = [] \<or> \<not> list_all is_hex s \<or> 4 < length s then None else Some (of_digits 16 s))"

text \<open>\<open>_ip_int_from_string\<close> of IPv6: a trailing dotted quad counts as two fields.\<close>

definition fields6 :: "string \<Rightarrow> string list option" where
  "fields6 s =
     (let ps = split_on CHR '':'' s in
      if length ps < 3 then None
      else if CHR ''.'' \<in> set (last ps)
      then (case parse4 (last ps) of
              None \<Rightarrow> None
            | Some v \<Rightarrow> Some (butlast ps @ [hex_lower (v div 65536 mod 65536), hex_lower (v mod 65536)]))
      else Some ps)"

definition hextets_of :: "string list \<Rightarrow> nat list option" where
  "hextets_of ps =
     (if 9 < length ps then None
      else case filter (\<lambda>i. ps ! i = []) [1..<length ps - 1] of
        [] \<Rightarrow> if length ps \<noteq> 8 then None else sequence (map hextet ps)
      | [i] \<Rightarrow>
          let hi = (if hd ps = [] then i - 1 else i);
              lo = (if last ps = [] then length ps - i - 2 else length ps - i - 1)
          in if (hd ps = [] \<and> 0 < hi) \<or> (last ps = [] \<and> 0 < lo) \<or> 7 < hi + lo then None
             else sequence (map hextet (take hi ps) @ replicate (8 - (hi + lo)) (Some 0) @
                            map hextet (drop (length ps - lo) ps))
      | _ \<Rightarrow> None)"

definition parse6 :: "string \<Rightarrow> nat option" where
  "parse6 s =
     (case fields6 s of
        None \<Rightarrow> None
      | Some ps \<Rightarrow> (case hextets_of ps of None \<Rightarrow> None | Some hs \<Rightarrow> Some (of_base 65536 hs)))"

subsection \<open>Networks\<close>

text \<open>
  \<open>_make_netmask\<close>: a number of bits, or (IPv4) a netmask or a host mask in dotted form. Then
  \<open>strict\<close> networks have no host bits.
\<close>

definition prefix_digits :: "nat \<Rightarrow> string \<Rightarrow> nat option" where
  "prefix_digits mx s =
     (if s = [] \<or> \<not> list_all is_digit s \<or> mx < of_digits 10 s then None else Some (of_digits 10 s))"

definition prefix4 :: "string \<Rightarrow> nat option" where
  "prefix4 s =
     (case prefix_digits 32 s of
        Some p \<Rightarrow> Some p
      | None \<Rightarrow> (case parse4 s of
          None \<Rightarrow> None
        | Some m \<Rightarrow>
            (case List.find (\<lambda>p. m = 2 ^ 32 - 2 ^ (32 - p)) [0..<33] of
               Some p \<Rightarrow> Some p
             | None \<Rightarrow> List.find (\<lambda>p. m = 2 ^ (32 - p) - 1) [0..<33])))"

definition split_net :: "string \<Rightarrow> (string \<times> string option) option" where
  "split_net s =
     (case split_on CHR ''/'' s of [a] \<Rightarrow> Some (a, None) | [a, p] \<Rightarrow> Some (a, Some p) | _ \<Rightarrow> None)"

definition strict_net :: "ipnet \<Rightarrow> ipnet res" where
  "strict_net n =
     (if network_address n mod 2 ^ (net_bits n - prefixlen n) = 0 then Inr n
      else Inl (ValueError ''has host bits set''))"

definition net_of :: "(string \<Rightarrow> nat option) \<Rightarrow> (string \<Rightarrow> nat option) \<Rightarrow> nat \<Rightarrow> string \<Rightarrow> (nat \<times> nat) option" where
  "net_of pa pp mx s =
     (case split_net s of
        None \<Rightarrow> None
      | Some (a, p) \<Rightarrow>
          (case (pa a, case p of None \<Rightarrow> Some mx | Some t \<Rightarrow> pp t) of
             (Some x, Some y) \<Rightarrow> Some (x, y)
           | _ \<Rightarrow> None))"

definition ip_network :: "string \<Rightarrow> ipnet res" where
  "ip_network s =
     (case net_of parse4 prefix4 32 s of
        Some (a, p) \<Rightarrow> strict_net (Net4 a p)
      | None \<Rightarrow>
          (case net_of parse6 (prefix_digits 128) 128 s of
             Some (a, p) \<Rightarrow> strict_net (Net6 a p)
           | None \<Rightarrow> Inl (ValueError (s @ '' does not appear to be an IPv4 or IPv6 network''))))"

text \<open>\<open>ip_network\<close> of a value of the attributes: numbers are addresses, anything else fails.\<close>

definition ip_network_of :: "pval \<Rightarrow> ipnet res" where
  "ip_network_of v =
     (let num = (\<lambda>i. if 0 \<le> i \<and> i < 2 ^ 32 then Inr (Net4 (nat i) 32)
                     else if 0 \<le> i \<and> i < 2 ^ 128 then Inr (Net6 (nat i) 128)
                     else Inl (ValueError ''does not appear to be an IPv4 or IPv6 network''))
      in case v of
        PStr s \<Rightarrow> ip_network s
      | PInt i \<Rightarrow> num (i :: int)
      | PBool b \<Rightarrow> num (if b then 1 else 0)
      | _ \<Rightarrow> Inl (ValueError ''does not appear to be an IPv4 or IPv6 network''))"

fun str_addr :: "ipnet \<Rightarrow> string" where
  "str_addr (Net4 a _) = str4 a"
| "str_addr (Net6 a _) = str6 a"

definition str_net :: "ipnet \<Rightarrow> string" where
  "str_net n = str_addr n @ ''/'' @ str_nat (prefixlen n)"

text \<open>
  \<open>net.hosts()\<close>: without the network address and, for IPv4, the broadcast address; both
  addresses of a network of two, and the address of a network of one.
\<close>

definition hosts :: "ipnet \<Rightarrow> nat list" where
  "hosts n =
     (let a = network_address n; b = broadcast_address n in
      if hostmask n = 0 then [a]
      else if hostmask n = 1 then [a, b]
      else if is_v4 n then [a + 1..<b] else [a + 1..<b + 1])"

section \<open>The subnets in use\<close>

text \<open>
  \<open>attr_grep(d, attr, lst)\<close> of \<open>docker.py\<close>: the values of the keys that contain the text, in
  the order of the document, added to \<open>lst\<close>. A value that matches is not searched, and a list
  only through the dicts in it.
\<close>

function attr_grep :: "pval \<Rightarrow> string \<Rightarrow> pval list \<Rightarrow> pval list res"
  and attr_grep_list :: "pval list \<Rightarrow> string \<Rightarrow> pval list \<Rightarrow> pval list res"
  and attr_grep_items :: "pval dict \<Rightarrow> string \<Rightarrow> pval list \<Rightarrow> pval list res" where
  "attr_grep d attr lst =
     (case d of
        PList l \<Rightarrow> attr_grep_list l attr lst
      | PDict kvs \<Rightarrow> attr_grep_items kvs attr lst
      | _ \<Rightarrow> Inl (AttributeError ''items''))"
| "attr_grep_list [] attr lst = Inr lst"
| "attr_grep_list (v # l) attr lst =
     (case v of
        PDict _ \<Rightarrow> bindE (attr_grep v attr lst) (attr_grep_list l attr)
      | _ \<Rightarrow> attr_grep_list l attr lst)"
| "attr_grep_items [] attr lst = Inr lst"
| "attr_grep_items ((k, v) # kvs) attr lst =
     (if contains (lower attr) (lower k) then attr_grep_items kvs attr (lst @ [v])
      else case v of
        PDict _ \<Rightarrow> bindE (attr_grep v attr lst) (attr_grep_items kvs attr)
      | PList _ \<Rightarrow> bindE (attr_grep v attr lst) (attr_grep_items kvs attr)
      | _ \<Rightarrow> attr_grep_items kvs attr lst)"
  by pat_completeness auto
termination
  by (relation "measure (\<lambda>x. case x of Inl (v, _) \<Rightarrow> 2 * size v
      | Inr (Inl (l, _)) \<Rightarrow> 2 * size_list size l + 1
      | Inr (Inr (d, _)) \<Rightarrow> 2 * size_list (size_prod (\<lambda>_. 0) size) d + 1)") auto

text \<open>
  The default \<open>lst = list()\<close> is evaluated once, when the function is defined: a call without
  \<open>lst\<close> adds to, and returns, the one list that all such calls share. It is the state \<open>st\<close> here.
\<close>

definition attr_grep_shared :: "pval \<Rightarrow> string \<Rightarrow> pval list \<Rightarrow> (pval list \<times> pval list) res" where
  "attr_grep_shared d attr st = bindE (attr_grep d attr st) (\<lambda>l. Inr (l, l))"

section \<open>The next subnet\<close>

definition next_subnet :: "ipnet \<Rightarrow> ipnet res" where
  "next_subnet n =
     (let a = network_address n + hostmask n + 1 in
      if 2 ^ net_bits n \<le> a then Inl (ValueError ''address is too large'')
      else ip_network ((case n of Net4 _ _ \<Rightarrow> str4 a | Net6 _ _ \<Rightarrow> str6 a) @ ''/'' @ str_nat (prefixlen n)))"

text \<open>\<open>sort()\<close> of networks of one version: by address, then by netmask.\<close>

definition sort_nets :: "ipnet list \<Rightarrow> ipnet list" where
  "sort_nets ns = sort_key (\<lambda>n. (network_address n, prefixlen n)) ns"

text \<open>\<open>attrs\<close>: the list of the attributes of all docker networks; \<open>st\<close>: the shared list.\<close>

definition grep_subnets :: "pval list \<Rightarrow> pval list \<Rightarrow> (ipnet list \<times> pval list) res" where
  "grep_subnets attrs st =
     bindE (attr_grep_shared (PList attrs) ''subnet'' st) (\<lambda>(l, st').
     bindE (mapE ip_network_of l) (\<lambda>ns. Inr (ns, st')))"

definition next_ipv6_subnet :: "pval list \<Rightarrow> pval list \<Rightarrow> (ipnet \<times> pval list) res" where
  "next_ipv6_subnet attrs st =
     bindE (grep_subnets attrs st) (\<lambda>(ns, st').
       let v6 = filter (\<lambda>n. \<not> is_v4 n) ns in
       bindE (if v6 = [] then ip_network ''fd00:0:0:1::/64'' else next_subnet (last (sort_nets v6)))
         (\<lambda>n. Inr (n, st')))"

definition next_ipv4_subnet :: "pval list \<Rightarrow> pval list \<Rightarrow> (ipnet \<times> pval list) res" where
  "next_ipv4_subnet attrs st =
     bindE (grep_subnets attrs st) (\<lambda>(ns, st').
       let v4 = filter (\<lambda>n. is_v4 n \<and> startswith ''172.'' (str_net n)) ns in
       bindE (if v4 = [] then ip_network ''172.172.0.0/24'' else next_subnet (last (sort_nets v4)))
         (\<lambda>n. Inr (n, st')))"

text \<open>The networks that \<open>Network.__init__\<close> remembers: the last one of each version wins.\<close>

definition pick_nets :: "pval list \<Rightarrow> (ipnet option \<times> ipnet option) res" where
  "pick_nets subnets =
     foldE (\<lambda>(net4, net6) s. bindE (ip_network_of s) (\<lambda>n. case n of
         Net4 a _ \<Rightarrow> bindE (ip_network (str4 a @ ''/24'')) (\<lambda>m. Inr (Some m, net6))
       | Net6 a _ \<Rightarrow> bindE (ip_network (str6 a @ ''/120'')) (\<lambda>m. Inr (net4, Some m))))
       (None, None) subnets"

definition network_nets :: "pval \<Rightarrow> pval list \<Rightarrow> ((ipnet option \<times> ipnet option) \<times> pval list) res" where
  "network_nets attrs st =
     bindE (attr_grep_shared attrs ''subnet'' st) (\<lambda>(l, st').
     bindE (pick_nets l) (\<lambda>r. Inr (r, st')))"

text \<open>
  The pool of \<open>Network.create\<close> with a subnet: the gateway is the last host, docker's own range
  the last four addresses (\<open>bc & ~3\<close>, on the width of the address).
\<close>

definition pool_range :: "ipnet \<Rightarrow> nat \<times> nat" where
  "pool_range n =
     (let bc = broadcast_address n in
      (bc - 1, if is_v4 n then unat ((word_of_nat bc :: 32 word) AND NOT 3)
               else unat ((word_of_nat bc :: 128 word) AND NOT 3)))"

section \<open>Texts and numbers\<close>

lemma sequence_map_Some: "(\<And>x. x \<in> set xs \<Longrightarrow> f x = Some (g x)) \<Longrightarrow> sequence (map f xs) = Some (map g xs)"
  by (induction xs) auto

lemma sequence_append: "sequence xs = Some a \<Longrightarrow> sequence ys = Some b \<Longrightarrow> sequence (xs @ ys) = Some (a @ b)"
proof (induction xs arbitrary: a)
  case (Cons x xs)
  then show ?case by (cases x) (auto split: option.splits)
qed simp

lemma sequence_Some: "sequence xs = Some ys \<Longrightarrow> xs = map Some ys"
proof (induction xs arbitrary: ys)
  case (Cons x xs)
  then show ?case by (cases x) (auto split: option.splits)
qed simp

lemma of_base_snoc: "of_base b (ds @ [d]) = of_base b ds * b + d"
  by (simp add: of_base_def)

lemma of_base_less: "(\<And>d. d \<in> set ds \<Longrightarrow> d < b) \<Longrightarrow> 0 < b \<Longrightarrow> of_base b ds < b ^ length ds"
proof (induction ds rule: rev_induct)
  case (snoc d ds)
  then have "of_base b ds + 1 \<le> b ^ length ds" by simp
  then have "(of_base b ds + 1) * b \<le> b ^ length ds * b" by (rule mult_le_mono1)
  with snoc.prems show ?case by (simp add: of_base_snoc algebra_simps) (metis add.commute less_le_trans nat_add_left_cancel_less)
qed (simp add: of_base_def)

lemma of_base_digits:
  "0 < b \<Longrightarrow> of_base b (map (\<lambda>i. a div b ^ i mod b) (rev [0..<k])) = a mod b ^ k"
proof (induction k arbitrary: a)
  case 0
  then show ?case by (simp add: of_base_def)
next
  case (Suc k)
  have "[0..<Suc k] = 0 # map Suc [0..<k]" by (simp add: upt_conv_Cons map_Suc_upt del: upt_Suc)
  then have "map (\<lambda>i. a div b ^ i mod b) (rev [0..<Suc k]) =
      map (\<lambda>i. (a div b) div b ^ i mod b) (rev [0..<k]) @ [a mod b]"
    by (simp add: rev_map div_mult2_eq del: upt_Suc)
  then show ?case using Suc
    by (simp only: of_base_snoc) (simp add: mod_mult2_eq mult.commute)
qed

lemma of_base_4: "a < 2 ^ 32 \<Longrightarrow> of_base 256 (map (\<lambda>i. a div 256 ^ i mod 256) [3, 2, 1, 0]) = a"
proof -
  assume a: "a < 2 ^ 32"
  have "rev [0..<4] = [3, 2, 1, 0]" by (simp add: upt_rec)
  with of_base_digits [of 256 a 4] a show ?thesis by simp
qed

lemma of_base_8: "a < 2 ^ 128 \<Longrightarrow> of_base 65536 (hextets a) = a"
proof -
  assume a: "a < 2 ^ 128"
  have r: "rev [0..<8] = [7, 6, 5, 4, 3, 2, 1, 0]" by (simp add: upt_rec)
  have "a mod 65536 ^ 8 = a" using a by simp
  with of_base_digits [of 65536 a 8] show ?thesis by (simp only: hextets_def r)
qed

lemma octet_str: "n < 256 \<Longrightarrow> octet (str_nat n) = Some n"
proof -
  assume n: "n < 256"
  have "length (digits_of 10 n) \<le> 3" using n by (intro digits_of_length) simp_all
  moreover have "digits_of 10 n = ''0'' \<or> \<not> startswith ''0'' (digits_of 10 n)"
    using digits_of_hd [of 10 n] by (cases "n = 0") (simp_all add: startswith_one digits_of_ne digits_of_small)
  ultimately show ?thesis using n
    by (auto simp: octet_def str_nat_def Let_def digits_of_ne of_digits_digits_of all_digits10)
qed

lemma prefix_digits_str: "p \<le> mx \<Longrightarrow> prefix_digits mx (str_nat p) = Some p"
  by (auto simp: prefix_digits_def str_nat_def digits_of_ne of_digits_digits_of all_digits10)

lemma of_digits_lower:
  assumes "\<And>c. c \<in> set s \<Longrightarrow> digit_val (lower_char c) = digit_val c"
  shows "of_digits b (lower s) = of_digits b s"
  using assms by (induction s rule: rev_induct) (simp_all add: of_digits_snoc)

lemma hex_lower_char: "c \<in> set (hex_lower n) \<Longrightarrow> \<exists>d < 16. c = lower_char (digit_char d)"
  using digits_of_digit [of 16] by (fastforce simp: hex_lower_def)

lemma hextet_str: "n < 65536 \<Longrightarrow> hextet (hex_lower n) = Some n"
proof -
  assume n: "n < 65536"
  have "length (digits_of 16 n) \<le> 4" using n by (intro digits_of_length) simp_all
  moreover have "list_all is_hex (hex_lower n)"
    using hex_lower_char [of _ n] digit_val_lower by (fastforce simp: list_all_iff is_hex_def)
  moreover have "of_digits 16 (hex_lower n) = n"
    using of_digits_lower [of "digits_of 16 n" 16] digits_of_digit [of 16 _ n]
    by (fastforce simp: hex_lower_def digit_val_lower digit_val_char of_digits_digits_of)
  ultimately show ?thesis by (auto simp: hextet_def hex_lower_def digits_of_ne)
qed

lemma hex_lower_no: "c \<in> {CHR '':'', CHR ''.'', CHR ''/''} \<Longrightarrow> c \<notin> set (hex_lower n)"
proof
  assume c: "c \<in> {CHR '':'', CHR ''.'', CHR ''/''}" "c \<in> set (hex_lower n)"
  from hex_lower_char [OF c(2)] obtain d where "d < 16" "c = lower_char (digit_char d)" by blast
  with digit_val_lower have "digit_val c \<noteq> None" by simp
  moreover have "digit_val CHR '':'' = None" "digit_val CHR ''.'' = None" "digit_val CHR ''/'' = None"
    by code_simp+
  ultimately show False using c(1) by auto
qed

lemma str_nat_no: "c \<in> {CHR ''.'', CHR ''/'', CHR '':''} \<Longrightarrow> c \<notin> set (str_nat n)"
  using digits_of_digit10 [of c n] by (auto simp: str_nat_def is_digit_def)

section \<open>Printing and parsing networks\<close>

lemma join_chars: "c \<in> set (join sep ss) \<Longrightarrow> c \<in> set sep \<or> (\<exists>s \<in> set ss. c \<in> set s)"
  by (cases ss) (auto simp: join_def split: if_splits)

lemma str4_no: "CHR ''/'' \<notin> set (str4 a)" "CHR '':'' \<notin> set (str4 a)"
  using join_chars [of _ "''.''"] str_nat_no by (fastforce simp: str4_def)+

lemma parse4_str4: "a < 2 ^ 32 \<Longrightarrow> parse4 (str4 a) = Some a"
proof -
  assume a: "a < 2 ^ 32"
  let ?ds = "map (\<lambda>i. a div 256 ^ i mod 256) [3, 2, 1, 0]"
  have "split_on CHR ''.'' (str4 a) = map str_nat ?ds"
  proof -
    have e: "str4 a = join ''.'' (map str_nat ?ds)" by (simp add: str4_def)
    show ?thesis unfolding e by (rule split_on_join) (use str_nat_no in auto)
  qed
  moreover have "sequence (map octet (map str_nat ?ds)) = Some ?ds"
    using sequence_map_Some [of ?ds "octet \<circ> str_nat" id] octet_str by (simp add: comp_def)
  ultimately show ?thesis using of_base_4 [OF a] by (simp add: parse4_def Let_def)
qed

lemma zero_run_take: "i < zero_run xs \<Longrightarrow> xs ! i = 0"
  by (induction xs arbitrary: i) (auto simp: nth_Cons less_Suc_eq_0_disj split: if_splits nat.splits)

lemma zero_run_length: "zero_run xs \<le> length xs"
  by (induction xs) auto

lemma best_run_zeros:
  "best_run k xs = (i, l) \<Longrightarrow> k \<le> i \<and> (i - k) + l \<le> length xs \<and> take l (drop (i - k) xs) = replicate l 0"
proof (induction k xs arbitrary: i l rule: best_run.induct)
  case (2 k x xs)
  obtain j m where r: "best_run (Suc k) xs = (j, m)" by force
  note IH = "2.IH" [OF r]
  show ?case
  proof (cases "m \<le> zero_run (x # xs)")
    case True
    with "2.prems" r have il: "i = k" "l = zero_run (x # xs)" by (simp_all del: zero_run.simps)
    moreover have "take l (x # xs) = replicate l 0"
      using zero_run_take [of _ "x # xs"] zero_run_length [of "x # xs"] il(2)
      by (auto intro!: nth_equalityI simp del: zero_run.simps)
    ultimately show ?thesis using zero_run_length [of "x # xs"] by simp
  next
    case False
    with "2.prems" r have "i = j" "l = m" by (simp_all del: zero_run.simps)
    with IH show ?thesis by (auto simp: Suc_diff_le drop_Cons')
  qed
qed simp

lemma filter_empty_field:
  assumes "A \<noteq> []" "B \<noteq> []" "\<And>x. x \<in> set (tl A) \<Longrightarrow> x \<noteq> []" "\<And>x. x \<in> set (butlast B) \<Longrightarrow> x \<noteq> []"
  shows "filter (\<lambda>i. (A @ [] # B) ! i = []) [1..<length (A @ [] # B) - 1] = [length A]"
proof -
  let ?n = "length A"
  have "[1..<length (A @ [] # B) - 1] = [1..<?n] @ ?n # [Suc ?n..<?n + length B]"
  proof -
    have "[1..<length (A @ [] # B) - 1] = [1..<?n + length B]" by simp
    also have "\<dots> = [1..<?n] @ [?n..<?n + length B]"
      using assms(1) by (intro upt_add_eq_append) (cases A, simp_all)
    also have "[?n..<?n + length B] = ?n # [Suc ?n..<?n + length B]"
      using assms(2) by (intro upt_conv_Cons) simp
    finally show ?thesis .
  qed
  moreover have "filter (\<lambda>i. (A @ [] # B) ! i = []) [1..<?n] = []"
  proof -
    have "(A @ [] # B) ! i \<noteq> []" if "1 \<le> i" "i < ?n" for i
    proof -
      have "tl A ! (i - 1) \<in> set (tl A)" using that by (intro nth_mem) simp
      with assms(3) that show ?thesis by (simp add: nth_append nth_tl)
    qed
    then show ?thesis by (auto simp: filter_empty_conv)
  qed
  moreover have "filter (\<lambda>i. (A @ [] # B) ! i = []) [Suc ?n..<?n + length B] = []"
  proof -
    have "(A @ [] # B) ! i \<noteq> []" if i: "Suc ?n \<le> i" "i < ?n + length B" for i
    proof -
      have j: "i - Suc ?n < length (butlast B)" using i by simp
      have "(A @ [] # B) ! i = butlast B ! (i - Suc ?n)"
        using i j by (simp add: nth_append nth_butlast nth_Cons')
      with assms(4) [of "butlast B ! (i - Suc ?n)"] j show ?thesis by (metis nth_mem)
    qed
    then show ?thesis by (auto simp: filter_empty_conv)
  qed
  ultimately show ?thesis by (simp add: nth_append)
qed

lemma hextets_of_run:
  assumes "length hi + length lo < 7" "\<forall>x \<in> set (hi @ lo). x < 65536"
  shows "hextets_of ((if hi = [] then [[]] else map hex_lower hi) @ [[]] @ (if lo = [] then [[]] else map hex_lower lo))
    = Some (hi @ replicate (8 - (length hi + length lo)) 0 @ lo)"
proof -
  let ?A = "if hi = [] then [[]] else map hex_lower hi" and ?B = "if lo = [] then [[]] else map hex_lower lo"
  have ne: "hex_lower x \<noteq> []" for x by (simp add: hex_lower_def digits_of_ne)
  have A: "?A \<noteq> []" "\<And>x. x \<in> set (tl ?A) \<Longrightarrow> x \<noteq> []"
    using ne by (auto simp: map_tl [symmetric] split: if_splits)
  have B: "?B \<noteq> []" "\<And>x. x \<in> set (butlast ?B) \<Longrightarrow> x \<noteq> []"
    using ne by (auto simp: map_butlast [symmetric] split: if_splits)
  have f: "filter (\<lambda>i. (?A @ [] # ?B) ! i = []) [1..<length (?A @ [] # ?B) - 1] = [length ?A]"
    by (rule filter_empty_field) (use A B in auto)
  have len: "length (?A @ [] # ?B) \<le> 9"
    using assms(1) by (cases hi; cases lo) simp_all
  have hd: "hd (?A @ [] # ?B) = [] \<longleftrightarrow> hi = []" using ne by (cases hi) simp_all
  have la: "last (?A @ [] # ?B) = [] \<longleftrightarrow> lo = []" using ne by (auto simp: last_map)
  have hi: "(if hi = [] then length ?A - 1 else length ?A) = length hi" by simp
  have lo: "(if lo = [] then length (?A @ [] # ?B) - length ?A - 2 else length (?A @ [] # ?B) - length ?A - 1) = length lo"
    by simp
  have th: "map hextet (take (length hi) (?A @ [] # ?B)) = map Some hi"
    using assms(2) by (auto simp: hextet_str)
  have tl: "map hextet (drop (length (?A @ [] # ?B) - length lo) (?A @ [] # ?B)) = map Some lo"
    using assms(2) by (auto simp: hextet_str)
  have q: "sequence (map Some hi @ replicate n (Some 0) @ map Some lo) = Some (hi @ replicate n 0 @ lo)" for n
    by (metis map_append map_replicate sequence_map_Some list.map_id0 id_apply map_idI)
  show ?thesis
    unfolding hextets_of_def append_Cons append_Nil f list.case Let_def hd la hi lo th tl q
    using len assms(1) by auto
qed

lemma hextets_less: "x \<in> set (hextets a) \<Longrightarrow> x < 65536"
  by (auto simp: hextets_def)

lemma hextets_of_compress:
  assumes "length hs = 8" "\<forall>x \<in> set hs. x < 65536"
  shows "hextets_of (compress hs) = Some hs \<and> 3 \<le> length (compress hs) \<and> (\<forall>f \<in> set (compress hs). f = [] \<or> f \<in> range hex_lower)"
proof -
  obtain i l where r: "best_run 0 hs = (i, l)" by force
  show ?thesis
  proof (cases "1 < l")
    case True
    let ?hi = "take i hs" and ?lo = "drop (i + l) hs"
    from best_run_zeros [OF r] have il: "i + l \<le> 8" and z: "take l (drop i hs) = replicate l 0"
      using assms(1) by simp_all
    have hs: "?hi @ replicate l 0 @ ?lo = hs"
      unfolding z [symmetric] using append_take_drop_id [of l "drop i hs"] by (simp add: add.commute)
    have "length ?hi + length ?lo < 7" and l: "8 - (length ?hi + length ?lo) = l"
      using True il assms(1) by simp_all
    moreover have "\<forall>x \<in> set (?hi @ ?lo). x < 65536"
      using assms(2) by (auto dest: in_set_takeD in_set_dropD)
    ultimately have "hextets_of (compress hs) = Some hs"
      using hextets_of_run [of ?hi ?lo] hs True r unfolding compress_def Let_def l by simp
    moreover have "3 \<le> length (compress hs)"
      using True r il assms(1) by (auto simp: compress_def Let_def)
    moreover have "\<forall>f \<in> set (compress hs). f = [] \<or> f \<in> range hex_lower"
      using True r by (auto simp: compress_def Let_def)
    ultimately show ?thesis by blast
  next
    case False
    with r have c: "compress hs = map hex_lower hs" by (simp add: compress_def)
    have "filter (\<lambda>i. map hex_lower hs ! i = []) [1..<length (map hex_lower hs) - 1] = []"
      by (auto simp: filter_empty_conv hex_lower_def digits_of_ne)
    moreover have "sequence (map hextet (map hex_lower hs)) = Some hs"
      using sequence_map_Some [of hs "hextet \<circ> hex_lower" id] assms(2) hextet_str by simp
    ultimately have "hextets_of (compress hs) = Some hs"
      unfolding c hextets_of_def using assms(1) by simp
    with c assms(1) show ?thesis by auto
  qed
qed

lemma compress_hextets:
  "hextets_of (compress (hextets a)) = Some (hextets a)" "3 \<le> length (compress (hextets a))"
  "f \<in> set (compress (hextets a)) \<Longrightarrow> c \<in> {CHR '':'', CHR ''.'', CHR ''/''} \<Longrightarrow> c \<notin> set f"
proof -
  have len: "length (hextets a) = 8" by (simp add: hextets_def)
  from hextets_of_compress [OF len] hextets_less
  have c: "hextets_of (compress (hextets a)) = Some (hextets a)" "3 \<le> length (compress (hextets a))"
    "\<forall>f \<in> set (compress (hextets a)). f = [] \<or> f \<in> range hex_lower" by blast+
  then show "hextets_of (compress (hextets a)) = Some (hextets a)" "3 \<le> length (compress (hextets a))" by blast+
  assume "f \<in> set (compress (hextets a))" "c \<in> {CHR '':'', CHR ''.'', CHR ''/''}"
  with c(3) hex_lower_no [of c] show "c \<notin> set f" by auto
qed

lemma str6_no: "CHR ''/'' \<notin> set (str6 a)" "CHR ''.'' \<notin> set (str6 a)"
  unfolding str6_def by (auto dest!: join_chars dest: compress_hextets(3))

lemma parse6_str6: "a < 2 ^ 128 \<Longrightarrow> parse6 (str6 a) = Some a"
proof -
  assume a: "a < 2 ^ 128"
  let ?c = "compress (hextets a)"
  have ne: "?c \<noteq> []" using compress_hextets(2) [of a] by auto
  have "split_on CHR '':'' (str6 a) = ?c"
    unfolding str6_def by (rule split_on_join [OF ne]) (rule compress_hextets(3), simp_all)
  moreover have "CHR ''.'' \<notin> set (last ?c)"
    by (rule compress_hextets(3) [of _ a]) (use ne in simp_all)
  ultimately have "fields6 (str6 a) = Some ?c" using compress_hextets(2) [of a] by (simp add: fields6_def Let_def)
  with compress_hextets(1) of_base_8 [OF a] show ?thesis by (simp add: parse6_def)
qed

text \<open>A network as \<open>ip_network\<close> accepts it.\<close>

definition net_ok :: "ipnet \<Rightarrow> bool" where
  "net_ok n \<longleftrightarrow> network_address n < 2 ^ net_bits n \<and> prefixlen n \<le> net_bits n \<and>
     network_address n mod 2 ^ (net_bits n - prefixlen n) = 0"

lemma split_net_str: "CHR ''/'' \<notin> set s \<Longrightarrow> split_net (s @ ''/'' @ str_nat p) = Some (s, Some (str_nat p))"
  using split_on_append [of "CHR ''/''" s "str_nat p"] str_nat_no [of "CHR ''/''" p]
  by (simp add: split_net_def split_on_no_sep)

lemma parse4_str6: "parse4 (str6 a) = None"
  by (simp add: parse4_def split_on_no_sep str6_no)

lemma ip_network_str: "net_ok n \<Longrightarrow> ip_network (str_net n) = Inr n"
proof (cases n)
  case (Net4 a p)
  assume "net_ok n"
  with Net4 show ?thesis
    by (simp add: net_ok_def str_net_def ip_network_def net_of_def split_net_str [simplified] str4_no parse4_str4 prefix4_def
        prefix_digits_str strict_net_def)
next
  case (Net6 a p)
  assume "net_ok n"
  with Net6 show ?thesis
    by (simp add: net_ok_def str_net_def ip_network_def net_of_def split_net_str [simplified] str6_no parse4_str6
        parse6_str6 prefix_digits_str strict_net_def)
qed

lemma of_digits_less:
  "2 \<le> b \<Longrightarrow> (\<And>c. c \<in> set s \<Longrightarrow> \<exists>d < b. digit_val c = Some d) \<Longrightarrow> of_digits b s < b ^ length s"
proof (induction s rule: rev_induct)
  case (snoc c s)
  then obtain d where d: "d < b" "digit_val c = Some d" by auto
  from snoc have "of_digits b s + 1 \<le> b ^ length s" by (simp add: Suc_le_eq)
  then have "(of_digits b s + 1) * b \<le> b ^ length s * b" by (rule mult_le_mono1)
  with d show ?case by (simp add: of_digits_snoc algebra_simps)
qed (simp add: of_digits_def)

lemma hextet_less: "hextet s = Some v \<Longrightarrow> v < 65536"
proof -
  assume h: "hextet s = Some v"
  then have s: "list_all is_hex s" "length s \<le> 4" "v = of_digits 16 s"
    by (auto simp: hextet_def split: if_splits)
  have d: "\<exists>d < 16. digit_val c = Some d" if "is_hex c" for c
    using that by (auto simp: is_hex_def digit_val_def Let_def split: if_splits)
  then have "v < 16 ^ length s"
    using of_digits_less [of 16 s] s(1,3) by (auto simp: list_all_iff)
  also have "\<dots> \<le> 16 ^ 4" using s(2) by (intro power_increasing) simp_all
  finally show ?thesis by simp
qed

lemma parse4_less: "parse4 s = Some a \<Longrightarrow> a < 2 ^ 32"
proof -
  assume "parse4 s = Some a"
  then obtain ds where ds: "length (split_on CHR ''.'' s) = 4" "sequence (map octet (split_on CHR ''.'' s)) = Some ds"
    "a = of_base 256 ds"
    by (auto simp: parse4_def Let_def split: if_splits option.splits)
  have m: "map octet (split_on CHR ''.'' s) = map Some ds" by (rule sequence_Some [OF ds(2)])
  have l: "length ds = 4" using arg_cong [OF m, of length] ds(1) by simp
  have "d < 256" if "d \<in> set ds" for d
  proof -
    from that have "Some d \<in> set (map octet (split_on CHR ''.'' s))" unfolding m by simp
    then obtain t where "octet t = Some d" by auto
    then show ?thesis by (auto simp: octet_def Let_def split: if_splits)
  qed
  then have "of_base 256 ds < 256 ^ length ds" by (intro of_base_less) simp_all
  with l ds(3) show ?thesis by simp
qed

lemma sequence_below:
  assumes "sequence xs = Some hs" "\<And>v. Some v \<in> set xs \<Longrightarrow> v < b"
  shows "length hs = length xs \<and> (\<forall>x \<in> set hs. x < b)"
  using sequence_Some [OF assms(1)] assms(2) by auto

lemma hextets_of_ok:
  assumes "hextets_of ps = Some hs"
  shows "length hs = 8 \<and> (\<forall>x \<in> set hs. x < 65536)"
proof -
  let ?f = "filter (\<lambda>i. ps ! i = []) [1..<length ps - 1]"
  consider (none) "?f = []" | (one) i where "?f = [i]" | (more) i j r where "?f = i # j # r"
    by (metis neq_Nil_conv)
  then show ?thesis
  proof cases
    case none
    with assms have "length ps = 8" "sequence (map hextet ps) = Some hs"
      by (simp_all add: hextets_of_def split: if_splits)
    moreover have "v < 65536" if "Some v \<in> set (map hextet ps)" for v
    proof -
      from that obtain t where "hextet t = Some v" by auto
      then show ?thesis by (rule hextet_less)
    qed
    ultimately show ?thesis using sequence_below [of "map hextet ps" hs 65536] by simp
  next
    case (one i)
    then have "i \<in> set ?f" by simp
    then have i: "1 \<le> i" "i < length ps - 1" by simp_all
    define hi where "hi = (if hd ps = [] then i - 1 else i)"
    define lo where "lo = (if last ps = [] then length ps - i - 2 else length ps - i - 1)"
    let ?xs = "map hextet (take hi ps) @ replicate (8 - (hi + lo)) (Some 0) @ map hextet (drop (length ps - lo) ps)"
    have "hextets_of ps = (if 9 < length ps \<or> (hd ps = [] \<and> 0 < hi) \<or> (last ps = [] \<and> 0 < lo) \<or> 7 < hi + lo then None
        else sequence ?xs)"
      unfolding hextets_of_def one hi_def [symmetric] lo_def [symmetric] Let_def list.case by simp
    with assms have q: "sequence ?xs = Some hs" and le: "hi + lo \<le> 7"
      by (simp_all only: if_splits) (auto split: if_splits)
    have "hi \<le> length ps" "lo \<le> length ps" using i unfolding hi_def lo_def by auto
    then have "length ?xs = 8" using le by simp
    moreover have "v < 65536" if "Some v \<in> set ?xs" for v
    proof -
      from that have "v = 0 \<or> (\<exists>t. hextet t = Some v)" by auto
      then show ?thesis using hextet_less by auto
    qed
    ultimately show ?thesis using sequence_below [OF q, of 65536] by simp
  next
    case more
    with assms show ?thesis by (simp add: hextets_of_def split: if_splits)
  qed
qed

lemma parse6_less: "parse6 s = Some a \<Longrightarrow> a < 2 ^ 128"
proof -
  assume "parse6 s = Some a"
  then obtain ps hs where "hextets_of ps = Some hs" "a = of_base 65536 hs"
    by (auto simp: parse6_def split: option.splits)
  with hextets_of_ok [of ps hs] of_base_less [of hs 65536] show ?thesis by auto
qed

lemma prefix4_le: "prefix4 s = Some p \<Longrightarrow> p \<le> 32"
  by (auto simp: prefix4_def prefix_digits_def List.find_Some_iff split: option.splits if_splits)

lemma prefix_digits_le: "prefix_digits mx s = Some p \<Longrightarrow> p \<le> mx"
  by (auto simp: prefix_digits_def split: if_splits)

lemma strict_net_ok: "strict_net n = Inr m \<Longrightarrow> m = n \<and> network_address n mod 2 ^ (net_bits n - prefixlen n) = 0"
  by (auto simp: strict_net_def split: if_splits)

lemma net_of_Some: "net_of pa pp mx s = Some (a, p) \<Longrightarrow> \<exists>t. pa t = Some a \<and> (p = mx \<or> (\<exists>u. pp u = Some p))"
  by (auto simp: net_of_def split: option.splits)

lemma ip_network_ok: "ip_network s = Inr n \<Longrightarrow> net_ok n"
proof -
  assume n: "ip_network s = Inr n"
  show ?thesis
  proof (cases "net_of parse4 prefix4 32 s")
    case (Some x)
    obtain a p where x: "x = (a, p)" by force
    with Some n have "strict_net (Net4 a p) = Inr n" by (simp add: ip_network_def)
    with strict_net_ok [OF this] net_of_Some [OF Some [unfolded x]] show ?thesis
      by (auto simp: net_ok_def dest: parse4_less prefix4_le)
  next
    case None
    with n obtain a p where ap: "net_of parse6 (prefix_digits 128) 128 s = Some (a, p)" "strict_net (Net6 a p) = Inr n"
      by (auto simp: ip_network_def split: option.splits)
    with strict_net_ok [OF ap(2)] net_of_Some [OF ap(1)] show ?thesis
      by (auto simp: net_ok_def dest: parse6_less prefix_digits_le)
  qed
qed

lemma ip_network_of_ok: "ip_network_of v = Inr n \<Longrightarrow> net_ok n"
  by (cases v) (auto simp: ip_network_of_def Let_def net_ok_def dest: ip_network_ok split: if_splits)

section \<open>The next subnet\<close>

definition net_addrs :: "ipnet \<Rightarrow> nat set" where
  "net_addrs n = {network_address n..broadcast_address n}"

definition overlap :: "ipnet \<Rightarrow> ipnet \<Rightarrow> bool" where
  "overlap m n \<longleftrightarrow> is_v4 m = is_v4 n \<and> net_addrs m \<inter> net_addrs n \<noteq> {}"

fun with_addr :: "ipnet \<Rightarrow> nat \<Rightarrow> ipnet" where
  "with_addr (Net4 _ p) a = Net4 a p"
| "with_addr (Net6 _ p) a = Net6 a p"

lemma with_addr_simps [simp]:
  "network_address (with_addr n a) = a" "prefixlen (with_addr n a) = prefixlen n"
  "net_bits (with_addr n a) = net_bits n" "is_v4 (with_addr n a) = is_v4 n" "hostmask (with_addr n a) = hostmask n"
  by (cases n; simp add: hostmask_def)+

lemma next_subnet_eq:
  assumes "net_ok n" "broadcast_address n + 1 < 2 ^ net_bits n"
  shows "next_subnet n = Inr (with_addr n (broadcast_address n + 1))" "net_ok (with_addr n (broadcast_address n + 1))"
proof -
  let ?k = "2 ^ (net_bits n - prefixlen n) :: nat"
  have "broadcast_address n + 1 = network_address n + ?k" by (simp add: broadcast_address_def hostmask_def)
  then show ok: "net_ok (with_addr n (broadcast_address n + 1))"
    using assms unfolding net_ok_def by simp
  have "str_net (with_addr n (broadcast_address n + 1)) =
      (case n of Net4 _ _ \<Rightarrow> str4 (broadcast_address n + 1) | Net6 _ _ \<Rightarrow> str6 (broadcast_address n + 1)) @
      ''/'' @ str_nat (prefixlen n)"
    by (cases n) (simp_all add: str_net_def)
  with ip_network_str [OF ok] assms(2) show "next_subnet n = Inr (with_addr n (broadcast_address n + 1))"
    unfolding next_subnet_def broadcast_address_def Let_def by simp
qed

lemma next_subnet_end:
  "net_ok n \<Longrightarrow> \<not> broadcast_address n + 1 < 2 ^ net_bits n \<Longrightarrow> next_subnet n = Inl (ValueError ''address is too large'')"
  by (simp add: next_subnet_def broadcast_address_def Let_def)

lemma str_net_172:
  assumes "net_ok n" "is_v4 n" "startswith ''172.'' (str_net n)"
  shows "network_address n div 2 ^ 24 = 172"
proof -
  obtain a p where n: "n = Net4 a p" using assms(2) by (cases n) auto
  let ?x = "a div 2 ^ 24"
  have x: "?x < 256" using assms(1) n by (auto simp: net_ok_def less_mult_imp_div_less)
  obtain r where r: "str_net n = str_nat ?x @ CHR ''.'' # r"
    using x by (simp add: n str_net_def str4_def str_simps)
  obtain q where q: "str_net n = ''172.'' @ q"
  proof -
    have "take 4 (str_net n) = ''172.''" using assms(3) by (simp add: startswith_def eval_nat_numeral)
    with append_take_drop_id [of 4 "str_net n"] that show ?thesis by metis
  qed
  have "takeWhile (\<lambda>c. c \<noteq> CHR ''.'') (str_net n) = str_nat ?x"
    unfolding r using str_nat_no [of "CHR ''.''" ?x] by (auto simp: takeWhile_append)
  moreover have "takeWhile (\<lambda>c. c \<noteq> CHR ''.'') (str_net n) = ''172''"
    unfolding q by simp
  ultimately have "of_digits 10 (str_nat ?x) = of_digits 10 ''172''" by simp
  moreover have "of_digits 10 ''172'' = 172" by code_simp
  ultimately show ?thesis using n by (simp add: str_nat_def of_digits_digits_of)
qed

lemma net_172_end:
  assumes "net_ok n" "is_v4 n" "network_address n div 2 ^ 24 = 172"
  shows "broadcast_address n + 1 < 2 ^ 32"
proof -
  obtain a p where n: "n = Net4 a p" using assms(2) by (cases n) auto
  have p: "p \<le> 32" and m: "a mod 2 ^ (32 - p) = 0" and a: "a div 2 ^ 24 = 172"
    using assms n by (simp_all add: net_ok_def)
  have "32 - p \<le> 26"
  proof (rule ccontr)
    assume "\<not> 32 - p \<le> 26"
    then have "(2::nat) ^ 27 dvd 2 ^ (32 - p)" by (intro le_imp_power_dvd) simp
    moreover have "2 ^ (32 - p) dvd a" using m by (rule mod_0_imp_dvd)
    ultimately have "2 ^ 27 dvd a" by (rule dvd_trans)
    then obtain c where "a = 2 ^ 27 * c" by (rule dvdE)
    with a have "c * 8 = 172" by simp
    then show False by presburger
  qed
  then have "(2::nat) ^ (32 - p) \<le> 2 ^ 26" by (intro power_increasing) simp_all
  moreover have "a < 173 * 2 ^ 24" using a dividend_less_times_div [of "2 ^ 24" a] by simp
  moreover have "broadcast_address n + 1 = a + 2 ^ (32 - p)" using n by (simp add: broadcast_address_def hostmask_def)
  ultimately show ?thesis by simp
qed

lemma sorted_last: "sorted ys \<Longrightarrow> y \<in> set ys \<Longrightarrow> y \<le> last ys"
  by (induction ys) auto

lemma last_sort_nets:
  assumes "ns \<noteq> []" "n \<in> set ns"
  shows "last (sort_nets ns) \<in> set ns \<and> network_address n \<le> network_address (last (sort_nets ns))"
proof -
  let ?f = "\<lambda>n. (network_address n, prefixlen n)"
  have ne: "sort_nets ns \<noteq> []" using assms(1) length_sort [of ?f ns] unfolding sort_nets_def by force
  have set: "set (sort_nets ns) = set ns" by (simp add: sort_nets_def)
  have "?f n \<le> last (map ?f (sort_nets ns))"
    by (rule sorted_last) (use assms(2) set in \<open>simp_all add: sort_nets_def\<close>)
  then have "?f n \<le> ?f (last (sort_nets ns))" unfolding last_map [OF ne] .
  with last_in_set [OF ne] set show ?thesis unfolding less_eq_prod_def by fastforce
qed

lemma overlap_order:
  assumes "net_ok m" "\<not> overlap m n" "is_v4 m = is_v4 n" "network_address m \<le> network_address n"
  shows "broadcast_address m < network_address n"
proof (rule ccontr)
  assume "\<not> ?thesis"
  with assms(4) have "network_address n \<in> net_addrs m \<inter> net_addrs n"
    by (simp add: net_addrs_def broadcast_address_def)
  with assms(2,3) show False by (auto simp: overlap_def)
qed

lemma next_free:
  assumes "ns \<noteq> []" "\<forall>n \<in> set ns. net_ok n \<and> is_v4 n = v" "\<forall>m \<in> set ns. \<forall>n \<in> set ns. m = n \<or> \<not> overlap m n"
    and "next_subnet (last (sort_nets ns)) = Inr r" "n \<in> set ns"
  shows "\<not> overlap r n \<and> is_v4 r = v"
proof -
  let ?l = "last (sort_nets ns)"
  have l: "?l \<in> set ns" "network_address n \<le> network_address ?l" using last_sort_nets [OF assms(1,5)] by blast+
  have ok: "net_ok ?l" "is_v4 ?l = v" "net_ok n" "is_v4 n = v" using assms(2,5) l(1) by blast+
  have "broadcast_address ?l + 1 < 2 ^ net_bits ?l"
    using assms(4) next_subnet_end [OF ok(1)] by fastforce
  from next_subnet_eq(1) [OF ok(1) this] assms(4) have r: "r = with_addr ?l (broadcast_address ?l + 1)" by simp
  have "broadcast_address n \<le> broadcast_address ?l"
  proof (cases "n = ?l")
    case False
    then have "broadcast_address n < network_address ?l"
      using overlap_order [OF ok(3)] assms(3,5) l ok by blast
    then show ?thesis by (simp add: broadcast_address_def)
  qed simp
  then have "net_addrs r \<inter> net_addrs n = {}" by (auto simp: r net_addrs_def)
  with r ok show ?thesis by (simp add: overlap_def)
qed

section \<open>Searching the attributes\<close>

declare attr_grep.simps [simp del]

lemma attr_grep_simps [simp]:
  "attr_grep (PList l) a lst = attr_grep_list l a lst" "attr_grep (PDict d) a lst = attr_grep_items d a lst"
  by (simp_all add: attr_grep.simps)

lemma attr_grep_acc:
  "attr_grep d a (x @ lst) = bindE (attr_grep d a lst) (\<lambda>l. Inr (x @ l))"
  "attr_grep_list vs a (x @ lst) = bindE (attr_grep_list vs a lst) (\<lambda>l. Inr (x @ l))"
  "attr_grep_items kvs a (x @ lst) = bindE (attr_grep_items kvs a lst) (\<lambda>l. Inr (x @ l))"
proof (induction d a lst and vs a lst and kvs a lst rule: attr_grep_attr_grep_list_attr_grep_items.induct)
  case (1 d attr lst)
  then show ?case by (cases d) (simp_all add: attr_grep.simps)
next
  case (3 v l attr lst)
  show ?case
  proof (cases v)
    case (PDict d)
    with 3 show ?thesis by (cases "attr_grep_items d attr lst") simp_all
  qed (use 3 in simp_all)
next
  case (5 k v kvs attr lst)
  show ?case
  proof (cases "contains (lower attr) (lower k)")
    case True
    with 5(1) [OF True] show ?thesis by simp
  next
    case False
    show ?thesis
    proof (cases v)
      case (PDict d)
      with 5 False show ?thesis by (cases "attr_grep_items d attr lst") simp_all
    next
      case (PList d)
      with 5 False show ?thesis by (cases "attr_grep_list d attr lst") simp_all
    qed (use 5 False in simp_all)
  qed
qed simp_all

lemma attr_grep_shared_eq: "attr_grep d a st = bindE (attr_grep d a []) (\<lambda>l. Inr (st @ l))"
  using attr_grep_acc(1) [of d a st "[]"] by simp

text \<open>\<open>pick_nets\<close> keeps, for each version, what the last subnet of this version gives.\<close>

definition pick_step :: "ipnet option \<times> ipnet option \<Rightarrow> pval \<Rightarrow> (ipnet option \<times> ipnet option) res" where
  "pick_step = (\<lambda>(net4, net6) s. bindE (ip_network_of s) (\<lambda>n. case n of
       Net4 a _ \<Rightarrow> bindE (ip_network (str4 a @ ''/24'')) (\<lambda>m. Inr (Some m, net6))
     | Net6 a _ \<Rightarrow> bindE (ip_network (str6 a @ ''/120'')) (\<lambda>m. Inr (net4, Some m))))"

lemma pick_nets_fold: "pick_nets xs = foldE pick_step (None, None) xs"
  by (simp add: pick_nets_def pick_step_def)

lemma pick_step_start:
  "pick_step (x4, x6) s = bindE (pick_step (None, None) s)
     (\<lambda>(y4, y6). Inr (if y4 = None then x4 else y4, if y6 = None then x6 else y6))"
  by (auto simp: pick_step_def bindE_def split: sum.splits ipnet.splits)

lemma foldE_pick_start:
  "foldE pick_step (x4, x6) xs = bindE (foldE pick_step (None, None) xs)
     (\<lambda>(y4, y6). Inr (if y4 = None then x4 else y4, if y6 = None then x6 else y6))"
proof (induction xs arbitrary: x4 x6)
  case (Cons s xs)
  show ?case
  proof (cases "pick_step (None, None) s")
    case (Inl e)
    then show ?thesis using pick_step_start [of x4 x6 s] by simp
  next
    case (Inr r)
    obtain y4 y6 where r: "r = (y4, y6)" by force
    have "pick_step (x4, x6) s = Inr (if y4 = None then x4 else y4, if y6 = None then x6 else y6)"
      using pick_step_start [of x4 x6 s] Inr r by simp
    then show ?thesis
      using Inr r Cons.IH [of "if y4 = None then x4 else y4" "if y6 = None then x6 else y6"] Cons.IH [of y4 y6]
      by (cases "foldE pick_step (None, None) xs") auto
  qed
qed simp

section \<open>Properties\<close>

text \<open>
  C25: the network after a network. For every network without host bits, IPv4 or IPv6, the next
  subnet is the one with the same prefix that begins right after its last address, and it is
  a valid network again, although it is built by printing an address and parsing the text;
  at the end of the address space the call raises instead of wrapping around.
\<close>

theorem next_subnet_adjacent:
  assumes "net_ok n"
  shows "next_subnet n = (if broadcast_address n + 1 < 2 ^ net_bits n
      then Inr (with_addr n (broadcast_address n + 1)) else Inl (ValueError ''address is too large'')) \<and>
    (\<forall>m. next_subnet n = Inr m \<longrightarrow> net_ok m \<and> net_addrs m \<inter> net_addrs n = {} \<and> hostmask m = hostmask n)"
proof (cases "broadcast_address n + 1 < 2 ^ net_bits n")
  case True
  note e = next_subnet_eq [OF assms True]
  have "net_addrs (with_addr n (broadcast_address n + 1)) \<inter> net_addrs n = {}"
    by (auto simp: net_addrs_def)
  with e True show ?thesis by simp
next
  case False
  with next_subnet_end [OF assms False] show ?thesis by simp
qed

theorem next_subnet_adjacent_witness:
  "next_subnet (Net4 (172 * 2 ^ 24 + 5 * 2 ^ 16) 16) = Inr (Net4 (172 * 2 ^ 24 + 6 * 2 ^ 16) 16) \<and>
   next_subnet (Net6 (2 ^ 128 - 2 ^ 64) 64) = Inl (ValueError ''address is too large'')"
proof
  have "net_ok (Net4 (172 * 2 ^ 24 + 5 * 2 ^ 16) 16)" by (simp add: net_ok_def)
  from next_subnet_adjacent [OF this]
  show "next_subnet (Net4 (172 * 2 ^ 24 + 5 * 2 ^ 16) 16) = Inr (Net4 (172 * 2 ^ 24 + 6 * 2 ^ 16) 16)"
    by (simp add: broadcast_address_def hostmask_def)
next
  have "net_ok (Net6 (2 ^ 128 - 2 ^ 64) 64)" by (simp add: net_ok_def)
  from next_subnet_adjacent [OF this]
  show "next_subnet (Net6 (2 ^ 128 - 2 ^ 64) 64) = Inl (ValueError ''address is too large'')"
    by (simp add: broadcast_address_def hostmask_def)
qed

text \<open>
  C22: a new network gets a free IPv4 subnet. When the subnets that docker reports do not overlap
  each other, the choice always succeeds and overlaps none of the subnets 172.* in use, and
  with none in use it is 172.172.0.0/24.
\<close>

theorem next_ipv4_subnet_free:
  assumes "grep_subnets attrs st = Inr (ns, st')"
    and "\<forall>m \<in> set ns. \<forall>n \<in> set ns. m = n \<or> \<not> overlap m n"
  shows "\<exists>r. next_ipv4_subnet attrs st = Inr (r, st') \<and> is_v4 r \<and>
    (\<forall>n \<in> set ns. is_v4 n \<and> startswith ''172.'' (str_net n) \<longrightarrow> \<not> overlap r n) \<and>
    (filter is_v4 ns = [] \<longrightarrow> str_net r = ''172.172.0.0/24'')"
proof -
  let ?v4 = "filter (\<lambda>n. is_v4 n \<and> startswith ''172.'' (str_net n)) ns"
  from assms(1) obtain l where l: "mapE ip_network_of l = Inr ns"
    by (auto simp: grep_subnets_def res_simps)
  have okns: "net_ok n" if "n \<in> set ns" for n
  proof -
    from l have "list_all2 (\<lambda>x y. ip_network_of x = Inr y) l ns" by (simp add: mapE_Inr)
    with that obtain v where "ip_network_of v = Inr n"
      by (auto simp: list_all2_conv_all_nth in_set_conv_nth)
    then show ?thesis by (rule ip_network_of_ok)
  qed
  have d: "str_net (Net4 2896953344 24) = ''172.172.0.0/24''" "net_ok (Net4 2896953344 24)"
    by (simp_all add: str_net_def str4_def join_def str_nat_def digits_of.simps net_ok_def)
  show ?thesis
  proof (cases "?v4 = []")
    case True
    have "next_ipv4_subnet attrs st = Inr (Net4 2896953344 24, st')"
      using ip_network_str [OF d(2)] unfolding next_ipv4_subnet_def assms(1) d(1) Let_def using True by simp
    with True d(1) show ?thesis by (auto simp: filter_empty_conv)
  next
    case False
    have v4: "\<forall>n \<in> set ?v4. net_ok n \<and> is_v4 n = True" using okns by simp
    have dj: "\<forall>m \<in> set ?v4. \<forall>n \<in> set ?v4. m = n \<or> \<not> overlap m n" using assms(2) by simp
    let ?l = "last (sort_nets ?v4)"
    obtain n0 where "n0 \<in> set ?v4" using False by (meson last_in_set)
    then have l: "?l \<in> set ?v4" using last_sort_nets [OF False] by blast
    with okns have lok: "net_ok ?l" "is_v4 ?l" "startswith ''172.'' (str_net ?l)" by auto
    have "broadcast_address ?l + 1 < 2 ^ net_bits ?l"
      using net_172_end [OF lok(1,2) str_net_172 [OF lok]] lok(2) by (cases ?l) simp_all
    from next_subnet_eq [OF lok(1) this] obtain r where r: "next_subnet ?l = Inr r" by blast
    then have e: "next_ipv4_subnet attrs st = Inr (r, st')"
      unfolding next_ipv4_subnet_def assms(1) Let_def using False by simp
    have "filter is_v4 ns \<noteq> []" using False by (auto simp: filter_empty_conv)
    with e next_free [OF False v4 dj r] \<open>n0 \<in> set ?v4\<close> show ?thesis by simp
  qed
qed

theorem next_ipv4_subnet_free_witness:
  "\<exists>r. next_ipv4_subnet [PDict [(''IPAM'', PDict [(''Config'', PList [PDict [(''Subnet'', PInt 2886729729)]])])]] [] =
      Inr (r, [PInt 2886729729]) \<and> is_v4 r \<and>
    (\<forall>n \<in> set [Net4 2886729729 32]. is_v4 n \<and> startswith ''172.'' (str_net n) \<longrightarrow> \<not> overlap r n) \<and>
    (filter is_v4 [Net4 2886729729 32] = [] \<longrightarrow> str_net r = ''172.172.0.0/24'')"
proof (rule next_ipv4_subnet_free)
  have "attr_grep (PList [PDict [(''IPAM'', PDict [(''Config'', PList [PDict [(''Subnet'', PInt 2886729729)]])])]]) ''subnet'' [] =
      Inr [PInt 2886729729]"
    by code_simp
  then show "grep_subnets [PDict [(''IPAM'', PDict [(''Config'', PList [PDict [(''Subnet'', PInt 2886729729)]])])]] [] =
      Inr ([Net4 2886729729 32], [PInt 2886729729])"
    unfolding grep_subnets_def attr_grep_shared_def by (simp add: ip_network_of_def)
qed simp

text \<open>
  The subnets of other networks leak into a network. \<open>attr_grep\<close> without its third argument
  returns everything that earlier calls found, followed by what it finds; so a network that has
  no subnet of one version of IP is given the last one of this version that was seen anywhere.
\<close>

lemma stale_subnets:
  assumes "attr_grep attrs ''subnet'' [] = Inr own" "pick_nets own = Inr (o4, o6)" "pick_nets st = Inr (s4, s6)"
  shows "attr_grep_shared attrs ''subnet'' st = Inr (st @ own, st @ own) \<and>
    network_nets attrs st = Inr ((if o4 = None then s4 else o4, if o6 = None then s6 else o6), st @ own)"
proof -
  have g: "attr_grep_shared attrs ''subnet'' st = Inr (st @ own, st @ own)"
    using attr_grep_shared_eq [of attrs "''subnet''" st] assms(1) by (simp add: attr_grep_shared_def)
  have "pick_nets (st @ own) = Inr (if o4 = None then s4 else o4, if o6 = None then s6 else o6)"
    using assms(2,3) foldE_pick_start [of s4 s6 own] by (simp add: pick_nets_fold foldE_append)
  with g show ?thesis by (simp add: network_nets_def)
qed

lemma stale_subnets_instance:
  "network_nets (PDict [(''Subnet'', PInt 2886729728)]) [PInt (2 ^ 127)] =
    Inr ((Some (Net4 2886729728 24), Some (Net6 (2 ^ 127) 120)), [PInt (2 ^ 127), PInt 2886729728])"
proof -
  have g: "attr_grep (PDict [(''Subnet'', PInt 2886729728)]) ''subnet'' [] = Inr [PInt 2886729728]"
    by code_simp
  have n4: "ip_network (str4 2886729728 @ ''/24'') = Inr (Net4 2886729728 24)"
    using ip_network_str [of "Net4 2886729728 24"]
    by (simp add: net_ok_def str_net_def str_nat_def digits_of.simps [of _ 24] digits_of_small)
  have n6: "ip_network (str6 (2 ^ 127) @ ''/120'') = Inr (Net6 (2 ^ 127) 120)"
    using ip_network_str [of "Net6 (2 ^ 127) 120"]
    by (simp add: net_ok_def str_net_def str_nat_def digits_of.simps [of _ 120] digits_of.simps [of _ 12] digits_of_small)
  have o: "pick_nets [PInt 2886729728] = Inr (Some (Net4 2886729728 24), None)"
    using n4 by (simp add: pick_nets_def ip_network_of_def)
  have s: "pick_nets [PInt (2 ^ 127)] = Inr (None, Some (Net6 (2 ^ 127) 120))"
    using n6 by (simp add: pick_nets_def ip_network_of_def)
  show ?thesis using stale_subnets [OF g o s] by simp
qed

end
