(* ===== verification/Json.thy ===== *)
theory Json
  imports Prelude
begin

text \<open>
  \<open>json.dumps\<close> and \<open>json.loads\<close> on the values of the specifications. The clusters keep their
  whole description as JSON texts (labels of the docker network, files of the singularity
  containers), so what is read back is the cluster's state. Characters are those up to U+00FF;
  \<open>fl\<close> gives the \<open>repr\<close> of the float that a number text denotes.
\<close>

section \<open>Printing\<close>

definition hex4 :: "nat \<Rightarrow> string" where
  "hex4 n = map (\<lambda>i. lower_char (digit_char (n div 16 ^ i mod 16))) [3, 2, 1, 0]"

definition esc :: "char \<Rightarrow> string" where
  "esc c =
     (if c = CHR 0x22 then [CHR 0x5C, CHR 0x22]
      else if c = CHR 0x5C then [CHR 0x5C, CHR 0x5C]
      else if c = CHR 0x0A then [CHR 0x5C, CHR ''n'']
      else if c = CHR 0x0D then [CHR 0x5C, CHR ''r'']
      else if c = CHR 0x09 then [CHR 0x5C, CHR ''t'']
      else if c = CHR 0x0C then [CHR 0x5C, CHR ''f'']
      else if c = CHR 0x08 then [CHR 0x5C, CHR ''b'']
      else if 32 \<le> (of_char c :: nat) \<and> (of_char c :: nat) \<le> 126 then [c]
      else CHR 0x5C # CHR ''u'' # hex4 (of_char c))"

definition json_str :: "string \<Rightarrow> string" where
  "json_str s = CHR 0x22 # concat (map esc s) @ [CHR 0x22]"

fun dumps :: "pval \<Rightarrow> string" where
  "dumps PNone = ''null''"
| "dumps (PBool b) = (if b then ''true'' else ''false'')"
| "dumps (PInt i) = str_int i"
| "dumps (PFloat r) = (if r = ''nan'' then ''NaN'' else if r = ''inf'' then ''Infinity'' else if r = ''-inf'' then ''-Infinity'' else r)"
| "dumps (PStr s) = json_str s"
| "dumps (PList xs) = ''['' @ join '', '' (map dumps xs) @ '']''"
| "dumps (PTuple xs) = ''['' @ join '', '' (map dumps xs) @ '']''"
| "dumps (PDict d) = ''{'' @ join '', '' (map (\<lambda>(k, v). json_str k @ '': '' @ dumps v) d) @ ''}''"

text \<open>\<open>indent=n\<close>: every item on a line of its own, indented by its depth.\<close>

definition pad :: "nat \<Rightarrow> nat \<Rightarrow> string" where
  "pad n l = CHR 0x0A # replicate (n * l) CHR 0x20"

fun dumps_ind :: "nat \<Rightarrow> nat \<Rightarrow> pval \<Rightarrow> string" where
  "dumps_ind n l (PList xs) =
     (if xs = [] then ''[]''
      else ''['' @ pad n (Suc l) @ join ('','' @ pad n (Suc l)) (map (dumps_ind n (Suc l)) xs) @ pad n l @ '']'')"
| "dumps_ind n l (PTuple xs) =
     (if xs = [] then ''[]''
      else ''['' @ pad n (Suc l) @ join ('','' @ pad n (Suc l)) (map (dumps_ind n (Suc l)) xs) @ pad n l @ '']'')"
| "dumps_ind n l (PDict d) =
     (if d = [] then ''{}''
      else ''{'' @ pad n (Suc l) @ join ('','' @ pad n (Suc l)) (map (\<lambda>(k, v). json_str k @ '': '' @ dumps_ind n (Suc l) v) d) @
        pad n l @ ''}'')"
| "dumps_ind n l v = dumps v"

section \<open>Parsing\<close>

definition json_ws :: "char \<Rightarrow> bool" where
  "json_ws c \<longleftrightarrow> c \<in> {CHR 0x20, CHR 0x09, CHR 0x0A, CHR 0x0D}"

abbreviation skip_ws :: "string \<Rightarrow> string" where
  "skip_ws s \<equiv> dropWhile json_ws s"

definition jerr :: "'a res" where
  "jerr = Inl (ValueError ''JSONDecodeError'')"

fun hex_digits :: "string \<Rightarrow> nat option" where
  "hex_digits s = (if list_all is_hex s then Some (of_digits 16 s) else None)"

text \<open>The part of a string after its opening quote.\<close>

fun string_body :: "string \<Rightarrow> (string \<times> string) res" where
  "string_body [] = jerr"
| "string_body (c # s) =
     (if c = CHR 0x22 then Inr ([], s)
      else if c = CHR 0x5C then
        (case s of
           [] \<Rightarrow> jerr
         | e # r \<Rightarrow>
             if e = CHR ''u'' then
               (case r of
                  a # b # x # y # r' \<Rightarrow>
                    (case hex_digits [a, b, x, y] of
                       Some n \<Rightarrow> if n < 256 then bindE (string_body r') (\<lambda>(t, u). Inr (char_of n # t, u)) else jerr
                     | None \<Rightarrow> jerr)
                | _ \<Rightarrow> jerr)
             else
               (case map_of [(CHR 0x22, CHR 0x22), (CHR 0x5C, CHR 0x5C), (CHR ''/'', CHR ''/''), (CHR ''b'', CHR 0x08),
                   (CHR ''f'', CHR 0x0C), (CHR ''n'', CHR 0x0A), (CHR ''r'', CHR 0x0D), (CHR ''t'', CHR 0x09)] e of
                  Some x \<Rightarrow> bindE (string_body r) (\<lambda>(t, u). Inr (x # t, u))
                | None \<Rightarrow> jerr))
      else if (of_char c :: nat) < 32 then jerr
      else bindE (string_body s) (\<lambda>(t, u). Inr (c # t, u)))"

text \<open>A number: the integer part, and the fraction and the exponent if they are complete.\<close>

definition digits_part :: "string \<Rightarrow> string \<Rightarrow> (string \<times> string) option" where
  "digits_part sg t =
     (case t of
        [] \<Rightarrow> None
      | c # r \<Rightarrow>
          if c = CHR ''0'' then Some (sg @ ''0'', r)
          else if is_digit c then Some (sg @ takeWhile is_digit t, dropWhile is_digit t)
          else None)"

definition int_part :: "string \<Rightarrow> (string \<times> string) option" where
  "int_part s =
     (case s of
        [] \<Rightarrow> None
      | c # t \<Rightarrow> if c = CHR ''-'' then digits_part ''-'' t else digits_part [] s)"

definition frac_part :: "string \<Rightarrow> string \<times> string" where
  "frac_part s =
     (case s of
        c # r \<Rightarrow> if c = CHR ''.'' \<and> takeWhile is_digit r \<noteq> []
                 then (c # takeWhile is_digit r, dropWhile is_digit r) else ([], s)
      | [] \<Rightarrow> ([], s))"

definition exp_part :: "string \<Rightarrow> string \<times> string" where
  "exp_part s =
     (case s of
        c # r \<Rightarrow>
          if c = CHR ''e'' \<or> c = CHR ''E'' then
            let sg = (case r of d # _ \<Rightarrow> if d = CHR ''+'' \<or> d = CHR ''-'' then [d] else [] | [] \<Rightarrow> []);
                t = drop (length sg) r
            in if takeWhile is_digit t = [] then ([], s) else (c # sg @ takeWhile is_digit t, dropWhile is_digit t)
          else ([], s)
      | [] \<Rightarrow> ([], s))"

definition json_number :: "(string \<Rightarrow> string) \<Rightarrow> string \<Rightarrow> (pval \<times> string) option" where
  "json_number fl s =
     (case int_part s of
        None \<Rightarrow> None
      | Some (i, r) \<Rightarrow>
          let (f, r1) = frac_part r; (e, r2) = exp_part r1 in
          if f = [] \<and> e = []
          then Some (PInt ((if startswith ''-'' i then - 1 else 1) *
                 int (of_digits 10 (if startswith ''-'' i then tl i else i))), r)
          else Some (PFloat (fl (i @ f @ e)), r2))"

definition keyword_of :: "string \<Rightarrow> (pval \<times> string) option" where
  "keyword_of s =
     (if startswith ''null'' s then Some (PNone, drop 4 s)
      else if startswith ''true'' s then Some (PBool True, drop 4 s)
      else if startswith ''false'' s then Some (PBool False, drop 5 s)
      else if startswith ''NaN'' s then Some (PFloat ''nan'', drop 3 s)
      else if startswith ''Infinity'' s then Some (PFloat ''inf'', drop 8 s)
      else if startswith ''-Infinity'' s then Some (PFloat ''-inf'', drop 9 s)
      else None)"

text \<open>
  The recursive descent. \<open>pv\<close> parses a value; \<open>elems\<close> reads the rest of a list after an
  element and \<open>members\<close> the rest of an object after a member, both from the text after white
  space and with a fuel that the length of the text bounds. The fuel of \<open>val\<close> bounds the depth.
\<close>

type_synonym 'a parser = "string \<Rightarrow> ('a \<times> string) res"

fun elems :: "pval parser \<Rightarrow> nat \<Rightarrow> pval list parser" where
  "elems pv 0 s = jerr"
| "elems pv (Suc k) [] = jerr"
| "elems pv (Suc k) (c # r) =
     (if c = CHR '']'' then Inr ([], r)
      else if c = CHR '','' then
        bindE (pv (skip_ws r)) (\<lambda>(v, u). bindE (elems pv k (skip_ws u)) (\<lambda>(vs, u2). Inr (v # vs, u2)))
      else jerr)"

definition member :: "pval parser \<Rightarrow> (string \<times> pval) parser" where
  "member pv s =
     (case s of
        [] \<Rightarrow> jerr
      | c # r \<Rightarrow>
          if c \<noteq> CHR 0x22 then jerr
          else bindE (string_body r) (\<lambda>(k, u).
               case skip_ws u of
                 [] \<Rightarrow> jerr
               | e # u1 \<Rightarrow> if e \<noteq> CHR '':'' then jerr
                          else bindE (pv (skip_ws u1)) (\<lambda>(v, u2). Inr ((k, v), u2))))"

fun members :: "pval parser \<Rightarrow> nat \<Rightarrow> (string \<times> pval) list parser" where
  "members pv 0 s = jerr"
| "members pv (Suc k) [] = jerr"
| "members pv (Suc k) (c # r) =
     (if c = CHR 0x7D then Inr ([], r)
      else if c = CHR '','' then
        bindE (member pv (skip_ws r)) (\<lambda>(m, u). bindE (members pv k (skip_ws u)) (\<lambda>(ms, u2). Inr (m # ms, u2)))
      else jerr)"

definition json_list :: "pval parser \<Rightarrow> pval parser" where
  "json_list pv s =
     (case skip_ws s of
        [] \<Rightarrow> jerr
      | d # u \<Rightarrow> if d = CHR '']'' then Inr (PList [], u)
                 else bindE (pv (d # u)) (\<lambda>(v, u1).
                      bindE (elems pv (length s) (skip_ws u1)) (\<lambda>(vs, u2). Inr (PList (v # vs), u2))))"

definition json_dict :: "pval parser \<Rightarrow> pval parser" where
  "json_dict pv s =
     (case skip_ws s of
        [] \<Rightarrow> jerr
      | d # u \<Rightarrow> if d = CHR 0x7D then Inr (PDict [], u)
                 else bindE (member pv (d # u)) (\<lambda>(m, u1).
                      bindE (members pv (length s) (skip_ws u1)) (\<lambda>(ms, u2). Inr (PDict (dupdate [] (m # ms)), u2))))"

primrec val :: "(string \<Rightarrow> string) \<Rightarrow> nat \<Rightarrow> pval parser" where
  "val fl 0 s = jerr"
| "val fl (Suc n) s =
     (case s of
        [] \<Rightarrow> jerr
      | c # r \<Rightarrow>
          if c = CHR 0x22 then bindE (string_body r) (\<lambda>(t, u). Inr (PStr t, u))
          else if c = CHR ''['' then json_list (val fl n) r
          else if c = CHR 0x7B then json_dict (val fl n) r
          else (case keyword_of s of
              Some (v, u) \<Rightarrow> Inr (v, u)
            | None \<Rightarrow> (case json_number fl s of Some (v, u) \<Rightarrow> Inr (v, u) | None \<Rightarrow> jerr)))"

definition loads :: "(string \<Rightarrow> string) \<Rightarrow> string \<Rightarrow> pval res" where
  "loads fl s =
     bindE (val fl (length s + 1) (skip_ws s)) (\<lambda>(v, r). if skip_ws r = [] then Inr v else jerr)"

section \<open>Printing and parsing back\<close>

definition delim :: "string \<Rightarrow> bool" where
  "delim u \<longleftrightarrow> u = [] \<or> hd u \<in> {CHR '','', CHR '']'', CHR 0x7D, CHR 0x0A}"

definition is_float_text :: "string \<Rightarrow> bool" where
  "is_float_text r \<longleftrightarrow>
     (case int_part r of
        None \<Rightarrow> False
      | Some (i, r1) \<Rightarrow>
          (case frac_part r1 of (f, r2) \<Rightarrow> (case exp_part r2 of (e, r3) \<Rightarrow> r3 = [] \<and> (f \<noteq> [] \<or> e \<noteq> []))))"

text \<open>Values that JSON keeps: no tuples (they become lists), dicts without repeated keys, floats as \<open>repr\<close> writes them.\<close>

fun json_ok :: "(string \<Rightarrow> string) \<Rightarrow> pval \<Rightarrow> bool" where
  "json_ok fl (PFloat r) = (r \<in> {''nan'', ''inf'', ''-inf''} \<or> (is_float_text r \<and> fl r = r))"
| "json_ok fl (PList xs) = (\<forall>x \<in> set xs. json_ok fl x)"
| "json_ok fl (PTuple xs) = False"
| "json_ok fl (PDict d) = (distinct (dkeys d) \<and> (\<forall>(k, v) \<in> set d. json_ok fl v))"
| "json_ok fl _ = True"

fun jdepth :: "pval \<Rightarrow> nat" where
  "jdepth (PList xs) = Suc (foldr (\<lambda>x m. max (jdepth x) m) xs 0)"
| "jdepth (PTuple xs) = Suc (foldr (\<lambda>x m. max (jdepth x) m) xs 0)"
| "jdepth (PDict d) = Suc (foldr (\<lambda>(k, v) m. max (jdepth v) m) d 0)"
| "jdepth _ = 0"

lemma hex4_digits: "n < 256 \<Longrightarrow> \<exists>a b x y. hex4 n = [a, b, x, y] \<and> hex_digits [a, b, x, y] = Some n"
proof -
  assume n: "n < 256"
  have d: "digit_val (lower_char (digit_char (n div 16 ^ i mod 16))) = Some (n div 16 ^ i mod 16)" for i
    by (rule digit_val_lower) simp
  have e: "of_digits 16 (hex4 n) = n"
    using n d [of 0] d [of 1] d [of 2] d [of 3] by (simp add: hex4_def of_digits_def)
  have h: "list_all is_hex (hex4 n)"
    using d [of 0] d [of 1] d [of 2] d [of 3] by (simp add: hex4_def is_hex_def)
  have "hex4 n = [lower_char (digit_char (n div 16 ^ 3 mod 16)), lower_char (digit_char (n div 16 ^ 2 mod 16)),
      lower_char (digit_char (n div 16 ^ 1 mod 16)), lower_char (digit_char (n div 16 ^ 0 mod 16))]"
    by (simp add: hex4_def)
  with e h show ?thesis by (metis hex_digits.elims)
qed

lemma string_body_esc: "string_body (esc c @ t) = bindE (string_body t) (\<lambda>(x, u). Inr (c # x, u))"
proof -
  have lt: "(of_char c :: nat) < 256" using of_char_mod_256 [of c] mod_less_divisor [of 256 "of_char c :: nat"] by simp
  from hex4_digits [OF this] obtain a b x y where h: "hex4 (of_char c) = [a, b, x, y]"
    "hex_digits [a, b, x, y] = Some (of_char c)" by blast
  show ?thesis
  proof (cases "c \<in> {CHR 0x22, CHR 0x5C, CHR 0x0A, CHR 0x0D, CHR 0x09, CHR 0x0C, CHR 0x08}")
    case True
    then show ?thesis by (auto simp: esc_def)
  next
    case False
    show ?thesis
    proof (cases "32 \<le> (of_char c :: nat) \<and> (of_char c :: nat) \<le> 126")
      case True
      with False show ?thesis by (simp add: esc_def)
    next
      case nonprint: False
      with False have "esc c = CHR 0x5C # CHR ''u'' # hex4 (of_char c)" by (simp add: esc_def)
      with h lt show ?thesis by (simp del: hex_digits.simps)
    qed
  qed
qed

lemma string_body_str: "string_body (concat (map esc s) @ CHR 0x22 # u) = Inr (s, u)"
  by (induction s) (simp_all add: string_body_esc)

lemma takeWhile_digits:
  "(u = [] \<or> \<not> is_digit (hd u)) \<Longrightarrow> takeWhile is_digit (t @ u) = takeWhile is_digit t"
  "(u = [] \<or> \<not> is_digit (hd u)) \<Longrightarrow> dropWhile is_digit (t @ u) = dropWhile is_digit t @ u"
  by (induction t; cases u; simp)+

lemma delim_no_digit: "delim u \<Longrightarrow> u = [] \<or> \<not> is_digit (hd u) \<and> hd u \<notin> {CHR ''.'', CHR ''e'', CHR ''E'', CHR ''+'', CHR ''-''}"
  by (auto simp: delim_def is_digit_def)

lemma digits_part_append:
  assumes t: "digits_part sg t = Some (i, r)" and u: "r = [] \<longrightarrow> (u = [] \<or> \<not> is_digit (hd u))"
  shows "digits_part sg (t @ u) = Some (i, r @ u)"
proof (cases t)
  case (Cons c t')
  show ?thesis
  proof (cases "c = CHR ''0''")
    case True
    with t Cons show ?thesis by (simp add: digits_part_def)
  next
    case False
    with t Cons have c: "is_digit c" "i = sg @ takeWhile is_digit t" "r = dropWhile is_digit t"
      by (simp_all add: digits_part_def split: if_splits)
    have "takeWhile is_digit (t @ u) = takeWhile is_digit t \<and> dropWhile is_digit (t @ u) = dropWhile is_digit t @ u"
    proof (cases "dropWhile is_digit t")
      case Nil
      with u c(3) have "u = [] \<or> \<not> is_digit (hd u)" by simp
      then show ?thesis using takeWhile_digits by blast
    next
      case (Cons y ys)
      then have "\<not> is_digit y" by (metis hd_dropWhile list.discI list.sel(1))
      moreover have "y \<in> set t" using Cons by (metis list.set_intros(1) set_dropWhileD)
      ultimately show ?thesis by (auto simp: dropWhile_append1 takeWhile_append1)
    qed
    with Cons False c show ?thesis by (simp add: digits_part_def)
  qed
qed (use t in \<open>simp add: digits_part_def\<close>)

lemma int_part_append:
  assumes "int_part s = Some (i, r)" "r = [] \<longrightarrow> (u = [] \<or> \<not> is_digit (hd u))"
  shows "int_part (s @ u) = Some (i, r @ u)"
  using assms digits_part_append [of _ s i r u] digits_part_append [of _ "tl s" i r u]
  by (cases s) (auto simp: int_part_def split: if_splits)

lemma frac_part_append:
  assumes "frac_part s = (f, r)" "delim u"
  shows "frac_part (s @ u) = (f, r @ u)"
proof (cases s)
  case Nil
  with assms show ?thesis using delim_no_digit [OF assms(2)] by (cases u) (auto simp: frac_part_def)
next
  case (Cons c t)
  have d: "u = [] \<or> \<not> is_digit (hd u)" using delim_no_digit [OF assms(2)] by blast
  from assms(1) Cons show ?thesis by (auto simp: frac_part_def takeWhile_digits [OF d] split: if_splits)
qed

lemma exp_part_append:
  assumes "exp_part s = (e, r)" "delim u"
  shows "exp_part (s @ u) = (e, r @ u)"
proof (cases s)
  case Nil
  with assms show ?thesis using delim_no_digit [OF assms(2)] by (cases u) (auto simp: exp_part_def)
next
  case (Cons c t)
  note d = delim_no_digit [OF assms(2)]
  then have dd: "u = [] \<or> \<not> is_digit (hd u)" by blast
  show ?thesis
  proof (cases t)
    case Nil
    with assms(1) Cons d show ?thesis by (cases u) (auto simp: exp_part_def)
  next
    case (Cons x t')
    with assms(1) \<open>s = c # t\<close> show ?thesis
      by (auto simp: exp_part_def Let_def takeWhile_digits [OF dd] takeWhile_digits [OF dd, of "x # t'", simplified] split: if_splits)
  qed
qed

lemma int_part_start: "int_part s = Some (i, r) \<Longrightarrow> \<exists>c t. s = c # t \<and> (is_digit c \<or> (c = CHR ''-'' \<and> t \<noteq> [] \<and> is_digit (hd t)))"
  by (auto simp: int_part_def digits_part_def is_digit_def split: list.splits if_splits)

lemma startswith_Cons: "startswith (p # ps) (c # s) \<longleftrightarrow> p = c \<and> startswith ps s"
  by (auto simp: startswith_def)

lemma keyword_number: "int_part s = Some (i, r) \<Longrightarrow> keyword_of s = None"
proof -
  assume "int_part s = Some (i, r)"
  from int_part_start [OF this] obtain c t where s: "s = c # t"
    "is_digit c \<or> (c = CHR ''-'' \<and> t \<noteq> [] \<and> is_digit (hd t))" by blast
  have dg: "is_digit d \<Longrightarrow> d \<notin> {CHR ''n'', CHR ''t'', CHR ''f'', CHR ''N'', CHR ''I'', CHR ''-''}" for d
    by (auto simp: is_digit_def)
  from s(2) show ?thesis
  proof
    assume "is_digit c"
    from dg [OF this] s(1) show ?thesis by (auto simp: keyword_of_def startswith_Cons)
  next
    assume "c = CHR ''-'' \<and> t \<noteq> [] \<and> is_digit (hd t)"
    with dg [of "hd t"] s(1) show ?thesis by (cases t) (auto simp: keyword_of_def startswith_Cons)
  qed
qed

lemma json_number_float:
  assumes "is_float_text s" "delim u"
  shows "json_number fl (s @ u) = Some (PFloat (fl s), u)"
proof -
  obtain i r1 where i: "int_part s = Some (i, r1)" using assms(1) by (auto simp: is_float_text_def split: option.splits)
  obtain f r2 where f: "frac_part r1 = (f, r2)" by force
  obtain e where e: "exp_part r2 = (e, [])" "f \<noteq> [] \<or> e \<noteq> []"
    using assms(1) i f by (auto simp: is_float_text_def split: prod.splits)
  have d: "u = [] \<or> \<not> is_digit (hd u)" using delim_no_digit [OF assms(2)] by blast
  have fr: "r1 = f @ r2" using f by (auto simp: frac_part_def split: list.splits if_splits)
  have er: "r2 = e" using e(1)
    by (auto simp: exp_part_def Let_def split: list.splits if_splits intro: takeWhile_eq_all_conv [THEN iffD2, symmetric])
  have is': "s = i @ r1"
    using i by (auto simp: int_part_def digits_part_def split: list.splits if_splits)
  have "int_part (s @ u) = Some (i, r1 @ u)" using int_part_append [OF i] d by blast
  moreover have "frac_part (r1 @ u) = (f, r2 @ u)" by (rule frac_part_append [OF f assms(2)])
  moreover have "exp_part (r2 @ u) = (e, u)" using exp_part_append [OF e(1) assms(2)] by simp
  ultimately show ?thesis using e(2) fr er is' by (auto simp: json_number_def)
qed

lemma digits_part_str: "digits_part sg (str_nat n) = Some (sg @ str_nat n, [])"
proof (cases "n = 0")
  case True
  then show ?thesis by (simp add: digits_part_def str_nat_def digits_of_small)
next
  case False
  obtain c t where ct: "digits_of 10 n = c # t" using digits_of_ne [of 10 n] by (cases "digits_of 10 n") auto
  have "c \<noteq> CHR ''0''" using digits_of_hd [of 10 n] False ct by simp
  moreover have "\<forall>x \<in> set (c # t). is_digit x" using all_digits10 [of n] ct by (simp add: list_all_iff)
  ultimately show ?thesis
    using ct by (auto simp: digits_part_def str_nat_def takeWhile_eq_all_conv dropWhile_eq_Nil_conv)
qed

lemma int_part_str: "int_part (str_int j) = Some (str_int j, [])"
proof -
  have "hd (str_nat n) \<noteq> CHR ''-''" for n
    using all_digits10 [of n] digits_of_ne [of 10 n] by (cases "digits_of 10 n") (auto simp: str_nat_def is_digit_def)
  moreover obtain c t where "str_nat (nat j) = c # t"
    using digits_of_ne [of 10 "nat j"] by (cases "str_nat (nat j)") (auto simp: str_nat_def)
  moreover have "c \<noteq> CHR ''-''" using calculation by (metis list.sel(1))
  ultimately show ?thesis
    using digits_part_str [of "''-''" "nat (- j)"] digits_part_str [of "[]" "nat j"]
    by (auto simp: int_part_def str_int_def)
qed

lemma json_number_int:
  assumes "delim u"
  shows "json_number fl (str_int j @ u) = Some (PInt j, u)"
proof -
  note d = delim_no_digit [OF assms]
  then have "int_part (str_int j @ u) = Some (str_int j, u)"
    using int_part_append [OF int_part_str] by (metis append_Nil)
  moreover have "frac_part u = ([], u)" "exp_part u = ([], u)"
    using d by (auto simp: frac_part_def exp_part_def split: list.splits)
  moreover have "startswith ''-'' (str_int j) \<longleftrightarrow> j < 0"
  proof -
    have "hd (str_nat (nat j)) \<noteq> CHR ''-'' \<and> str_nat (nat j) \<noteq> []"
      using all_digits10 [of "nat j"] digits_of_ne [of 10 "nat j"]
      by (cases "digits_of 10 (nat j)") (auto simp: str_nat_def is_digit_def)
    then show ?thesis by (auto simp: str_int_def startswith_one)
  qed
  ultimately show ?thesis
    by (auto simp: json_number_def str_int_def str_nat_def of_digits_digits_of)
qed

section \<open>Round trip\<close>

lemma skip_ws_id: "s = [] \<or> \<not> json_ws (hd s) \<Longrightarrow> skip_ws s = s"
  by (cases s) auto

lemma skip_ws_space: "skip_ws (CHR 0x20 # s) = skip_ws s"
  by (simp add: json_ws_def)

text \<open>The first character of a value.\<close>

lemma dumps_hd:
  assumes "json_ok fl v"
  shows "dumps v \<noteq> [] \<and> \<not> json_ws (hd (dumps v)) \<and> hd (dumps v) \<notin> {CHR '']'', CHR 0x7D, CHR '',''}"
proof (cases v)
  case (PInt i)
  obtain c t where "str_int i = c # t" "is_digit c \<or> c = CHR ''-''" using int_part_start [OF int_part_str [of i]] by blast
  with PInt show ?thesis by (auto simp: json_ws_def is_digit_def)
next
  case (PFloat r)
  show ?thesis
  proof (cases "r \<in> {''nan'', ''inf'', ''-inf''}")
    case True
    with PFloat show ?thesis by (auto simp: json_ws_def)
  next
    case False
    with PFloat assms obtain i q where "int_part r = Some (i, q)" by (auto simp: is_float_text_def split: option.splits)
    from int_part_start [OF this] obtain c t where "r = c # t" "is_digit c \<or> c = CHR ''-''" by blast
    with PFloat False show ?thesis by (auto simp: json_ws_def is_digit_def)
  qed
qed (use assms in \<open>auto simp: json_ws_def json_str_def\<close>)

lemma elems_ok:
  assumes "\<forall>v \<in> set vs. \<forall>u. delim u \<longrightarrow> pv (dumps v @ u) = Inr (v, u)" "\<forall>v \<in> set vs. json_ok fl v" "length vs < k"
  shows "elems pv k (concat (map (\<lambda>v. '', '' @ dumps v) vs) @ CHR '']'' # u) = Inr (vs, u)"
  using assms
proof (induction vs arbitrary: k)
  case Nil
  then show ?case by (cases k) simp_all
next
  case (Cons v vs)
  obtain j where k: "k = Suc j" using Cons.prems(3) by (cases k) simp_all
  let ?rest = "concat (map (\<lambda>v. '', '' @ dumps v) vs) @ CHR '']'' # u"
  have ws: "skip_ws (CHR 0x20 # dumps v @ ?rest) = dumps v @ ?rest"
    using dumps_hd [of fl v] Cons.prems(2) by (simp only: skip_ws_space) (simp add: skip_ws_id)
  have dl: "delim ?rest" by (cases vs) (simp_all add: delim_def)
  have ws2: "skip_ws ?rest = ?rest" by (rule skip_ws_id) (cases vs, simp_all add: json_ws_def)
  have pv: "pv (dumps v @ ?rest) = Inr (v, ?rest)" using Cons.prems(1) dl by simp
  have el: "elems pv j ?rest = Inr (vs, u)" using Cons.prems k by (intro Cons.IH) simp_all
  have "elems pv k (CHR '','' # CHR 0x20 # dumps v @ ?rest) = Inr (v # vs, u)"
    unfolding k elems.simps ws pv bindE_simps prod.case ws2 el by simp
  then show ?case by simp
qed

abbreviation item_text :: "string \<times> pval \<Rightarrow> string" where
  "item_text m \<equiv> (case m of (k, v) \<Rightarrow> json_str k @ '': '' @ dumps v)"

lemma member_ok:
  assumes "\<forall>u. delim u \<longrightarrow> pv (dumps v @ u) = Inr (v, u)" "json_ok fl v" "delim u"
  shows "member pv (item_text (k, v) @ u) = Inr ((k, v), u)"
proof -
  have ws: "skip_ws (CHR 0x20 # dumps v @ u) = dumps v @ u"
    using dumps_hd [OF assms(2)] by (simp only: skip_ws_space) (simp add: skip_ws_id)
  have c: "skip_ws (CHR '':'' # t) = CHR '':'' # t" for t by (rule skip_ws_id) (simp add: json_ws_def)
  have s: "string_body (concat (map esc k) @ CHR 0x22 # CHR '':'' # CHR 0x20 # dumps v @ u) =
      Inr (k, CHR '':'' # CHR 0x20 # dumps v @ u)" by (rule string_body_str)
  show ?thesis
    using assms(1,3) by (simp add: member_def json_str_def s c ws del: dropWhile.simps)
qed

lemma members_ok:
  assumes "\<forall>(j, v) \<in> set ms. \<forall>u. delim u \<longrightarrow> pv (dumps v @ u) = Inr (v, u)" "\<forall>(j, v) \<in> set ms. json_ok fl v" "length ms < k"
  shows "members pv k (concat (map (\<lambda>m. '', '' @ item_text m) ms) @ CHR 0x7D # u) = Inr (ms, u)"
  using assms
proof (induction ms arbitrary: k)
  case Nil
  then show ?case by (cases k) simp_all
next
  case (Cons m ms)
  obtain a v where m: "m = (a, v)" by force
  obtain j where k: "k = Suc j" using Cons.prems(3) by (cases k) simp_all
  let ?rest = "concat (map (\<lambda>m. '', '' @ item_text m) ms) @ CHR 0x7D # u"
  have ws: "skip_ws (CHR 0x20 # item_text m @ ?rest) = item_text m @ ?rest"
    unfolding skip_ws_space by (rule skip_ws_id) (simp add: m json_str_def json_ws_def)
  have dl: "delim ?rest" by (cases ms) (simp_all add: delim_def)
  have ws2: "skip_ws ?rest = ?rest" by (rule skip_ws_id) (cases ms, simp_all add: json_ws_def)
  have pv: "member pv (item_text m @ ?rest) = Inr (m, ?rest)"
    unfolding m by (rule member_ok [of _ _ fl]) (use Cons.prems(1,2) dl m in auto)
  have el: "members pv j ?rest = Inr (ms, u)" using Cons.prems k by (intro Cons.IH) simp_all
  have "members pv k (CHR '','' # CHR 0x20 # item_text m @ ?rest) = Inr (m # ms, u)"
    unfolding k members.simps ws pv bindE_simps prod.case ws2 el by simp
  then show ?case by simp
qed

lemma join_comma: "join '', '' (x # xs) = x @ concat (map (\<lambda>y. '', '' @ y) xs)"
  by (simp only: join_def list.case concat.simps)

lemma jdepth_elem:
  "x \<in> set xs \<Longrightarrow> jdepth x \<le> foldr (\<lambda>x m. max (jdepth x) m) xs 0"
  "(k, v) \<in> set d \<Longrightarrow> jdepth v \<le> foldr (\<lambda>(k, v) m. max (jdepth v) m) d 0"
proof -
  show "x \<in> set xs \<Longrightarrow> jdepth x \<le> foldr (\<lambda>x m. max (jdepth x) m) xs 0" by (induction xs) auto
  show "(k, v) \<in> set d \<Longrightarrow> jdepth v \<le> foldr (\<lambda>(k, v) m. max (jdepth v) m) d 0" by (induction d) auto
qed

lemma concat_length: "length xs \<le> length (concat (map (\<lambda>x. '', '' @ f x) xs))"
  by (induction xs) auto

lemma startswith_Nil: "startswith [] s"
  by (simp add: startswith_def)

lemma val_const:
  "val fl (Suc m) (''null'' @ u) = Inr (PNone, u)" "val fl (Suc m) (''true'' @ u) = Inr (PBool True, u)"
  "val fl (Suc m) (''false'' @ u) = Inr (PBool False, u)" "val fl (Suc m) (''NaN'' @ u) = Inr (PFloat ''nan'', u)"
  "val fl (Suc m) (''Infinity'' @ u) = Inr (PFloat ''inf'', u)" "val fl (Suc m) (''-Infinity'' @ u) = Inr (PFloat ''-inf'', u)"
  by (simp_all add: keyword_of_def startswith_Cons startswith_Nil)

lemma val_number:
  assumes "int_part s = Some (i, r)" "json_number fl (s @ u) = Some (v, u)" "delim u"
  shows "val fl (Suc m) (s @ u) = Inr (v, u)"
proof -
  obtain c t where ct: "s = c # t" "is_digit c \<or> c = CHR ''-''" using int_part_start [OF assms(1)] by blast
  have "c \<noteq> CHR 0x22 \<and> c \<noteq> CHR ''['' \<and> c \<noteq> CHR 0x7B" using ct(2) by (auto simp: is_digit_def)
  moreover have "keyword_of (s @ u) = None"
    by (rule keyword_number, rule int_part_append [OF assms(1)]) (use delim_no_digit [OF assms(3)] in blast)
  ultimately show ?thesis using ct(1) assms(2) by simp
qed

lemma val_list:
  assumes "\<forall>y \<in> set xs. \<forall>w. delim w \<longrightarrow> val fl m (dumps y @ w) = Inr (y, w)" "\<forall>y \<in> set xs. json_ok fl y" "delim u"
  shows "val fl (Suc m) (dumps (PList xs) @ u) = Inr (PList xs, u)"
proof (cases xs)
  case Nil
  then show ?thesis by (simp add: json_list_def json_ws_def join_simps)
next
  case (Cons x ys)
  let ?rest = "concat (map (\<lambda>v. '', '' @ dumps v) ys) @ CHR '']'' # u"
  have "json_ok fl x" using assms(2) Cons by simp
  from dumps_hd [OF this] obtain c t where ct: "dumps x = c # t" "\<not> json_ws c" "c \<noteq> CHR '']''"
    by (cases "dumps x") auto
  have dl: "delim ?rest" by (cases ys) (simp_all add: delim_def)
  have ws2: "skip_ws ?rest = ?rest" by (rule skip_ws_id) (cases ys, simp_all add: json_ws_def)
  have el: "elems (val fl m) k ?rest = Inr (ys, u)" if "length ys < k" for k
    by (rule elems_ok [of _ _ fl]) (use assms(1,2) Cons that in auto)
  have le: "length ys < length (dumps x @ ?rest)" using concat_length [of ys dumps] by simp
  have sk: "skip_ws (dumps x @ ?rest) = c # t @ ?rest" using ct by simp
  have vx: "val fl m (c # t @ ?rest) = Inr (x, ?rest)" using assms(1) dl Cons ct(1) by (metis append_Cons list.set_intros(1))
  have "json_list (val fl m) (dumps x @ ?rest) = Inr (PList (x # ys), u)"
    unfolding json_list_def sk list.case vx bindE_simps prod.case ws2 el [OF le] using ct(3) by simp
  then show ?thesis using Cons by (simp add: join_comma comp_def)
qed

lemma val_dict:
  assumes "\<forall>(k, y) \<in> set d. \<forall>w. delim w \<longrightarrow> val fl m (dumps y @ w) = Inr (y, w)" "\<forall>(k, y) \<in> set d. json_ok fl y"
    "distinct (dkeys d)" "delim u"
  shows "val fl (Suc m) (dumps (PDict d) @ u) = Inr (PDict d, u)"
proof (cases d)
  case Nil
  then show ?thesis by (simp add: json_dict_def json_ws_def join_simps)
next
  case (Cons x ys)
  obtain a b where x: "x = (a, b)" by force
  let ?rest = "concat (map (\<lambda>m. '', '' @ item_text m) ys) @ CHR 0x7D # u"
  have dl: "delim ?rest" by (cases ys) (simp_all add: delim_def)
  have ws2: "skip_ws ?rest = ?rest" by (rule skip_ws_id) (cases ys, simp_all add: json_ws_def)
  have el: "members (val fl m) k ?rest = Inr (ys, u)" if "length ys < k" for k
    by (rule members_ok [of _ _ fl]) (use assms(1,2) Cons that in auto)
  have le: "length ys < length (item_text x @ ?rest)" using concat_length [of ys item_text] by simp
  have mx: "member (val fl m) (item_text x @ ?rest) = Inr (x, ?rest)"
    unfolding x by (rule member_ok [of _ _ fl]) (use assms(1,2) dl Cons x in auto)
  have it: "item_text x @ ?rest = CHR 0x22 # tl (item_text x @ ?rest)" by (simp add: x json_str_def)
  have sk: "skip_ws (item_text x @ ?rest) = CHR 0x22 # tl (item_text x @ ?rest)"
    unfolding it [symmetric] by (rule skip_ws_id) (subst it, simp add: json_ws_def)
  have "json_dict (val fl m) (item_text x @ ?rest) = Inr (PDict (dupdate [] (x # ys)), u)"
    unfolding json_dict_def sk list.case unfolding it [symmetric] mx bindE_simps prod.case ws2 el [OF le] by simp
  moreover have "dupdate [] (x # ys) = d" using dupdate_Nil_id [of d] assms(3) Cons by simp
  ultimately show ?thesis using Cons by (simp add: join_comma comp_def)
qed

lemma val_dumps: "json_ok fl v \<Longrightarrow> jdepth v < n \<Longrightarrow> delim u \<Longrightarrow> val fl n (dumps v @ u) = Inr (v, u)"
proof (induction v arbitrary: n u rule: dumps.induct)
  case 1
  then show ?case using val_const(1) by (cases n) simp_all
next
  case (2 b)
  then show ?case using val_const(2,3) by (cases n; cases b) (simp_all del: val.simps)
next
  case (3 i)
  then obtain m where n: "n = Suc m" by (cases n) simp_all
  show ?case unfolding n dumps.simps by (rule val_number [OF int_part_str json_number_int [OF 3(3)] 3(3)])
next
  case (4 r)
  then obtain m where n: "n = Suc m" by (cases n) simp_all
  show ?case
  proof (cases "r \<in> {''nan'', ''inf'', ''-inf''}")
    case True
    with n val_const(4-6) show ?thesis by (auto simp del: val.simps)
  next
    case False
    with 4(1) have r: "is_float_text r" "fl r = r" by auto
    then obtain i q where iq: "int_part r = Some (i, q)" by (auto simp: is_float_text_def split: option.splits)
    have "json_number fl (r @ u) = Some (PFloat r, u)" using json_number_float [OF r(1) 4(3), of fl] r(2) by simp
    from val_number [OF iq this 4(3)] n False show ?thesis by (simp del: val.simps)
  qed
next
  case (5 s)
  then obtain m where n: "n = Suc m" by (cases n) simp_all
  show ?case by (simp add: n json_str_def string_body_str)
next
  case (6 xs)
  then obtain m where n: "n = Suc m" "foldr (\<lambda>x m. max (jdepth x) m) xs 0 < m" by (cases n) simp_all
  have "\<forall>y \<in> set xs. \<forall>w. delim w \<longrightarrow> val fl m (dumps y @ w) = Inr (y, w)"
    using "6.IH" 6(2) jdepth_elem(1) n(2) by (metis json_ok.simps(2) order.strict_trans1)
  then show ?case unfolding n(1) by (rule val_list) (use 6 in auto)
next
  case (7 xs)
  then show ?case by simp
next
  case (8 d)
  then obtain m where n: "n = Suc m" "foldr (\<lambda>(k, v) m. max (jdepth v) m) d 0 < m" by (cases n) simp_all
  have "val fl m (dumps y @ w) = Inr (y, w)" if "(k, y) \<in> set d" "delim w" for k y w
  proof (rule "8.IH" [OF that(1) refl _ _ that(2)])
    show "json_ok fl y" using 8(2) that(1) by auto
    show "jdepth y < m" using jdepth_elem(2) [OF that(1)] n(2) by simp
  qed
  then have "\<forall>(k, y) \<in> set d. \<forall>w. delim w \<longrightarrow> val fl m (dumps y @ w) = Inr (y, w)" by blast
  then show ?case unfolding n(1) by (rule val_dict) (use 8 in auto)
qed

lemma join_length: "x \<in> set xs \<Longrightarrow> length (f x) \<le> length (join sep (map f xs))"
proof (induction xs)
  case (Cons y ys)
  have "length (join sep (map f ys)) \<le> length (join sep (map f (y # ys)))"
    by (cases ys) (simp_all add: join_simps)
  moreover have "length (f y) \<le> length (join sep (map f (y # ys)))"
    by (cases ys) (simp_all add: join_simps)
  ultimately show ?case using Cons by fastforce
qed simp

lemma jdepth_le: "jdepth v \<le> length (dumps v)"
proof (induction v rule: dumps.induct)
  case (6 xs)
  have "foldr (\<lambda>x m. max (jdepth x) m) ys 0 \<le> length (join '', '' (map dumps xs))" if "set ys \<subseteq> set xs" for ys
    using that 6 join_length [of _ xs dumps "'', ''"] by (induction ys) (auto intro: order_trans)
  from this [of xs] show ?case by simp
next
  case (7 xs)
  have "foldr (\<lambda>x m. max (jdepth x) m) ys 0 \<le> length (join '', '' (map dumps xs))" if "set ys \<subseteq> set xs" for ys
    using that 7 join_length [of _ xs dumps "'', ''"] by (induction ys) (auto intro: order_trans)
  from this [of xs] show ?case by simp
next
  case (8 d)
  have "foldr (\<lambda>(k, v) m. max (jdepth v) m) e 0 \<le> length (join '', '' (map item_text d))" if "set e \<subseteq> set d" for e
    using that
  proof (induction e)
    case (Cons x e)
    obtain a b where x: "x = (a, b)" by force
    have "x \<in> set d" using Cons.prems by simp
    from 8 [OF this] have "jdepth b \<le> length (dumps b)" using x by blast
    also have "\<dots> \<le> length (item_text x)" by (simp add: x)
    also have "\<dots> \<le> length (join '', '' (map item_text d))" using Cons.prems by (intro join_length) simp
    finally have "jdepth b \<le> length (join '', '' (map item_text d))" .
    moreover have "foldr (\<lambda>(k, v) m. max (jdepth v) m) e 0 \<le> length (join '', '' (map item_text d))"
      by (rule Cons.IH) (use Cons.prems in simp)
    ultimately show ?case unfolding x by (simp only: foldr.simps o_def prod.case max.bounded_iff)
  qed simp
  from this [of d] show ?case by simp
qed simp_all

lemma loads_dumps: "json_ok fl v \<Longrightarrow> loads fl (dumps v) = Inr v"
proof -
  assume v: "json_ok fl v"
  have s: "skip_ws (dumps v) = dumps v" using dumps_hd [OF v] by (intro skip_ws_id) blast
  have d: "jdepth v < length (dumps v) + 1" using jdepth_le [of v] by linarith
  have "delim []" by (simp add: delim_def)
  from val_dumps [OF v d this] have "val fl (length (dumps v) + 1) (dumps v) = Inr (v, [])"
    unfolding append_Nil2 .
  then show ?thesis unfolding loads_def s by (simp only: bindE_simps prod.case dropWhile.simps simp_thms if_True)
qed

section \<open>Indented tables\<close>

text \<open>A dict of numbers, printed with an indentation, is read back.\<close>

lemma skip_ws_pad: "skip_ws (pad n l @ u) = skip_ws u"
proof -
  have "dropWhile json_ws (replicate k CHR 0x20 @ u) = dropWhile json_ws u" for k
    by (induction k) (simp_all add: json_ws_def)
  then show ?thesis by (simp add: pad_def json_ws_def)
qed

lemma join_sep: "join sep (x # xs) = x @ concat (map (\<lambda>y. sep @ y) xs)"
  by (simp only: join_def list.case concat.simps)

lemma skip_ws_item: "skip_ws (item_text m @ u) = item_text m @ u"
  by (rule skip_ws_id) (cases m, simp add: json_str_def json_ws_def)

lemma members_ind:
  assumes "\<forall>(j, v) \<in> set ms. \<forall>u. delim u \<longrightarrow> pv (dumps v @ u) = Inr (v, u)" "\<forall>(j, v) \<in> set ms. json_ok fl v" "length ms < k"
  shows "members pv k (skip_ws (concat (map (\<lambda>m. ('','' @ pad n l) @ item_text m) ms) @ pad n i @ CHR 0x7D # u)) = Inr (ms, u)"
  using assms
proof (induction ms arbitrary: k)
  case Nil
  have "skip_ws (CHR 0x7D # u) = CHR 0x7D # u" by (rule skip_ws_id) (simp add: json_ws_def)
  with Nil show ?case by (cases k) (simp_all only: concat.simps list.map append_Nil skip_ws_pad members.simps, simp_all)
next
  case (Cons m ms)
  obtain a v where m: "m = (a, v)" by force
  obtain j where k: "k = Suc j" using Cons.prems(3) by (cases k) simp_all
  let ?rest = "concat (map (\<lambda>m. ('','' @ pad n l) @ item_text m) ms) @ pad n i @ CHR 0x7D # u"
  have dl: "delim ?rest" by (cases ms) (simp_all add: delim_def pad_def)
  have pv: "member pv (item_text m @ ?rest) = Inr (m, ?rest)"
    unfolding m by (rule member_ok [of _ _ fl]) (use Cons.prems(1,2) dl m in auto)
  have el: "members pv j (skip_ws ?rest) = Inr (ms, u)" using Cons.prems k by (intro Cons.IH) simp_all
  have t: "concat (map (\<lambda>m. ('','' @ pad n l) @ item_text m) (m # ms)) @ pad n i @ CHR 0x7D # u =
      CHR '','' # pad n l @ item_text m @ ?rest" by simp
  have c: "skip_ws (CHR '','' # w) = CHR '','' # w" for w by (rule skip_ws_id) (simp add: json_ws_def)
  have "members pv k (CHR '','' # pad n l @ item_text m @ ?rest) = Inr (m # ms, u)"
    unfolding k members.simps skip_ws_pad skip_ws_item pv bindE_simps prod.case el by simp
  then show ?case unfolding t c .
qed

lemma concat_length_sep: "length xs \<le> length (concat (map (\<lambda>x. ('','' @ p) @ f x) xs))"
  by (induction xs) auto

lemma loads_table:
  assumes "distinct (dkeys d)"
  shows "loads fl (dumps_ind n 0 (PDict (map (\<lambda>(k, i). (k, PInt i)) d))) = Inr (PDict (map (\<lambda>(k, i). (k, PInt i)) d))"
proof (cases d)
  case Nil
  then show ?thesis by (simp add: loads_def json_dict_def json_ws_def)
next
  case (Cons x ys)
  let ?f = "\<lambda>(k, i). (k, PInt i)" and ?g = "\<lambda>m. ('','' @ pad n 1) @ item_text m"
  let ?rest = "concat (map ?g (map ?f ys)) @ pad n 0 @ ''}''"
  have it: "json_str k @ '': '' @ dumps_ind n (Suc 0) (PInt i) = item_text (k, PInt i)" for k i by simp
  have tx: "dumps_ind n 0 (PDict (map ?f d)) = ''{'' @ pad n 1 @ item_text (?f x) @ ?rest"
    unfolding Cons by (simp add: join_sep comp_def split_def)
  have pv: "val fl (Suc m) (dumps (PInt i) @ u) = Inr (PInt i, u)" if "delim u" for m i u
    using val_number [OF int_part_str json_number_int [OF that] that] by (simp del: val.simps)
  have "length (dumps_ind n 0 (PDict (map ?f d))) \<noteq> 0" unfolding tx by simp
  then obtain m where lm: "length (dumps_ind n 0 (PDict (map ?f d))) = Suc m" by (cases "length (dumps_ind n 0 (PDict (map ?f d)))") blast+
  have pvs: "\<forall>(j, v) \<in> set (map ?f d). \<forall>u. delim u \<longrightarrow> val fl (Suc m) (dumps v @ u) = Inr (v, u)"
    using pv by (auto simp del: val.simps)
  have dl: "delim ?rest" by (cases ys) (simp_all add: delim_def pad_def)
  obtain a b where x: "x = (a, b)" by force
  have fx: "?f x = (a, PInt b)" by (simp add: x)
  have mx: "member (val fl (Suc m)) (item_text (?f x) @ ?rest) = Inr (?f x, ?rest)"
    unfolding fx by (rule member_ok [of _ _ fl]) (use pv [of _ m] dl in \<open>auto simp del: val.simps\<close>)
  have le: "length (map ?f ys) < length (pad n 1 @ item_text (?f x) @ ?rest)"
    using concat_length_sep [of "map ?f ys" "pad n 1" item_text] by simp
  have el: "members (val fl (Suc m)) k (skip_ws ?rest) = Inr (map ?f ys, [])" if "length (map ?f ys) < k" for k
    by (rule members_ind [of _ _ fl]) (use pvs Cons that in auto)
  have sk: "skip_ws (pad n 1 @ item_text (?f x) @ ?rest) = item_text (?f x) @ ?rest"
    by (simp only: skip_ws_pad skip_ws_item)
  have hd: "\<exists>c r. item_text (?f x) @ ?rest = c # r \<and> c \<noteq> CHR 0x7D" by (cases x) (simp add: json_str_def)
  have jd: "json_dict (val fl (Suc m)) (pad n 1 @ item_text (?f x) @ ?rest) = Inr (PDict (dupdate [] (map ?f d)), [])"
  proof -
    from hd obtain c r where cr: "item_text (?f x) @ ?rest = c # r" "c \<noteq> CHR 0x7D" by blast
    show ?thesis
      unfolding json_dict_def sk unfolding cr(1) list.case if_not_P [OF cr(2)]
      unfolding cr(1) [symmetric] mx bindE_simps prod.case el [OF le] Cons list.map by (rule refl)
  qed
  have dd: "dupdate [] (map ?f d) = map ?f d"
    by (rule dupdate_Nil_id) (use assms in \<open>simp add: comp_def split_def\<close>)
  have s0: "skip_ws (''{'' @ w) = ''{'' @ w" for w by (rule skip_ws_id) (simp add: json_ws_def)
  have v: "val fl (Suc (Suc m)) (''{'' @ w) = json_dict (val fl (Suc m)) w" for w
    by (subst val.simps(2)) (simp del: val.simps)
  have l: "length (dumps_ind n 0 (PDict (map ?f d))) + 1 = Suc (Suc m)" by (simp only: lm Suc_eq_plus1)
  show ?thesis
    unfolding loads_def l unfolding tx s0 v jd dd bindE_simps prod.case by simp
qed

end
