(* ===== verification/DockerAlloc.thy ===== *)
theory DockerAlloc
  imports Config IPNet Json
begin

text \<open>
  The planning part of \<open>DockerCluster\<close> in \<open>runtime/docker.py\<close>: the parameters that
  \<open>spec_to_kwargs\<close> derives from a cluster specification, the time zone of the host, the
  distribution of the containers over the docker hosts (\<open>__create\<close>), and the parameters of
  each container with the settings that its node overrides.
\<close>

section \<open>The time zone of the host\<close>

text \<open>
  \<open>tz\<close>: the variable TZ; \<open>timezone\<close>: the content of /etc/timezone; \<open>localtime\<close>: the target of
  the link /etc/localtime; each None when it cannot be read.
\<close>

definition get_host_tz :: "string option \<Rightarrow> string option \<Rightarrow> string option \<Rightarrow> string" where
  "get_host_tz tz timezone localtime =
     (case tz of
        Some t \<Rightarrow> t
      | None \<Rightarrow>
          (case map_option (strip_by is_space) timezone of
             Some (c # t) \<Rightarrow> c # t
           | _ \<Rightarrow>
               (case localtime of
                  Some l \<Rightarrow> (let ps = split_on CHR ''/'' l in join ''/'' (drop (length ps - 2) ps))
                | None \<Rightarrow> ''Etc/UTC'')))"

section \<open>From the specification to the arguments of create\<close>

record create_args =
  k_name :: string
  k_image :: pval
  k_mounts :: "pval list"
  k_nodes :: "string list"
  k_env :: "pval dict"
  k_labels :: "pval dict"
  k_aliases :: "pval dict"
  k_cap_add :: pval
  k_cap_drop :: pval
  k_subnet :: pval
  k_binds :: "pval dict"

text \<open>\<open>s.replace(old, new, 1)\<close>.\<close>

fun replace1 :: "string \<Rightarrow> string \<Rightarrow> string \<Rightarrow> string" where
  "replace1 old new [] = (if old = [] then new else [])"
| "replace1 old new (c # s) =
     (if startswith old (c # s) then new @ drop (length old) (c # s) else c # replace1 old new s)"

definition OVIS_ENV :: "string dict" where
  "OVIS_ENV =
     [(''PATH'', join '':'' [''/opt/ovis/bin'', ''/opt/ovis/sbin'', ''/usr/local/bin'', ''/usr/local/sbin'',
        ''/usr/bin'', ''/usr/sbin'', ''/bin'', ''/sbin'']),
      (''LD_LIBRARY_PATH'', ''/opt/ovis/lib:/opt/ovis/lib64''),
      (''ZAP_LIBPATH'', ''/opt/ovis/lib/ovis-ldms:/opt/ovis/lib64/ovis-ldms:/opt/ovis/lib/ovis-lib:/opt/ovis/lib64/ovis-lib''),
      (''LDMSD_PLUGIN_LIBPATH'', ''/opt/ovis/lib/ovis-ldms:/opt/ovis/lib64/ovis-ldms'')]"

text \<open>\<open>{ node["hostname"]: f(node) for node in nodes if cond }\<close>; hostnames are texts.\<close>

definition hostname_of :: "pval \<Rightarrow> string res" where
  "hostname_of node = bindE (p_index node ''hostname'') p_string"

definition by_hostname :: "string \<Rightarrow> pval list \<Rightarrow> pval dict res" where
  "by_hostname k nodes =
     foldE (\<lambda>d node. bindE (p_get node k PNone) (\<lambda>v.
         if truthy v then bindE (hostname_of node) (\<lambda>h. Inr (dset h v d)) else Inr d)) [] nodes"

text \<open>\<open>glob\<close> lists the paths that match a pattern.\<close>

definition python_path :: "(string \<Rightarrow> string list) \<Rightarrow> string \<Rightarrow> string" where
  "python_path glob prefix =
     join '':'' (map (replace1 prefix ''/opt/ovis'') (glob (prefix @ ''/lib*/python*/*-packages'')))"

definition spec_to_kwargs :: "(string \<Rightarrow> string list) \<Rightarrow> pval dict \<Rightarrow> create_args res" where
  "spec_to_kwargs glob spec =
     bindE (bindE (dindex spec ''name'') p_string) (\<lambda>name.
     bindE (bindE (dindex spec ''nodes'') p_iter) (\<lambda>nodes.
     let prefix = dget_or spec ''ovis_prefix'' PNone in
     bindE (if truthy prefix then bindE (p_string prefix) (\<lambda>p.
              Inr ([PStr (p @ '':/opt/ovis:ro'')], python_path glob p)) else Inr ([], [])) (\<lambda>(m0, pp).
     bindE (p_iter (dget_or spec ''mounts'' (PList []))) (\<lambda>ms.
     bindE (mapE hostname_of nodes) (\<lambda>hosts.
     bindE (by_hostname ''binds'' nodes) (\<lambda>binds.
     bindE (by_hostname ''aliases'' nodes) (\<lambda>aliases.
     bindE (env_dict (dget_or spec ''env'' (PDict []))) (\<lambda>e.
     Inr \<lparr>k_name = name, k_image = dget_or spec ''image'' (PStr ''ovis-centos-build''), k_mounts = m0 @ ms,
          k_nodes = hosts,
          k_env = dupdate (map (\<lambda>(k, v). (k, PStr v)) (OVIS_ENV @ [(''PYTHONPATH'',
            if pp = [] then ''/opt/ovis/lib/python3.6/site-packages:/opt/ovis/lib64/python3.6/site-packages'' else pp)])) e,
          k_labels = [(''LDMSDCluster.spec'', PStr (dumps (PDict spec)))],
          k_aliases = aliases,
          k_cap_add = dget_or spec ''cap_add'' (PList []), k_cap_drop = dget_or spec ''cap_drop'' (PList []),
          k_subnet = dget_or spec ''subnet'' PNone, k_binds = binds\<rparr>))))))))"

section \<open>How many containers on which host\<close>

text \<open>An entry \<open>[current load, allocation, client]\<close> of the table in \<open>__create\<close>.\<close>

type_synonym 'c ent = "nat \<times> nat \<times> 'c"

abbreviation load_of :: "'c ent \<Rightarrow> nat" where
  "load_of e \<equiv> fst e"

abbreviation alloc_of :: "'c ent \<Rightarrow> nat" where
  "alloc_of e \<equiv> fst (snd e)"

text \<open>First loop: fill the differences to the largest load, from the least loaded host on.\<close>

fun fill :: "nat \<Rightarrow> nat \<Rightarrow> 'c ent list \<Rightarrow> nat \<times> 'c ent list" where
  "fill mx n [] = (n, [])"
| "fill mx n ((l, a, c) # es) =
     (if mx - l = 0 then (n, (l, a, c) # es)
      else let d = (if mx - l < n then mx - l else n) in
           if n - d = 0 then (n - d, (l, d, c) # es)
           else let (m, r) = fill mx (n - d) es in (m, (l, d, c) # r))"

text \<open>Second loop: the rest evenly, then one more for each of the first hosts.\<close>

definition spread :: "nat \<Rightarrow> 'c ent list \<Rightarrow> 'c ent list" where
  "spread n es =
     (let q = n div length es; r = n mod length es in
      map (\<lambda>(i, (l, a, c)). (l, a + q + (if i < r then 1 else 0), c)) (enumerate 0 es))"

definition allocate :: "(nat \<times> 'c) list \<Rightarrow> nat \<Rightarrow> 'c ent list res" where
  "allocate clients n =
     (let tbl = sort_key fst (map (\<lambda>(l, c). (l, 0, c)) clients) in
      if tbl = [] then Inl IndexError
      else let (m, tbl') = fill (load_of (last tbl)) n tbl in Inr (spread m tbl'))"

section \<open>The parameters of the containers\<close>

text \<open>
  \<open>{ src: {"bind": dst, "mode": mo} for src, dst, mo in map(split(':'), mounts) }\<close>.
\<close>

definition volumes_of :: "pval list \<Rightarrow> pval dict res" where
  "volumes_of mounts =
     foldE (\<lambda>d m. case m of
         PStr s \<Rightarrow> (case split_on CHR '':'' s of
             [src, dst, mo] \<Rightarrow> Inr (dset src (PDict [(''bind'', PStr dst), (''mode'', PStr mo)]) d)
           | _ \<Rightarrow> Inl (ValueError ''values to unpack (expected 3)''))
       | _ \<Rightarrow> Inl (AttributeError ''split'')) [] mounts"

record cset =
  cs_tmpfs :: pval
  cs_image :: pval
  cs_volumes :: pval
  cs_env :: "pval dict"
  cs_atstart :: pval

text \<open>
  \<open>d.update(v)\<close> with the part that is done when it raises: items of a sequence are taken one
  by one, each has to be a sequence of length two. (A key that is not a text ends the model of
  the update like a wrong item.)
\<close>

definition pair_of :: "pval \<Rightarrow> (string \<times> pval) option" where
  "pair_of v =
     (case v of
        PStr [a, b] \<Rightarrow> Some ([a], PStr [b])
      | PList [PStr k, x] \<Rightarrow> Some (k, x)
      | PTuple [PStr k, x] \<Rightarrow> Some (k, x)
      | _ \<Rightarrow> None)"

fun update_items :: "pval dict \<Rightarrow> pval list \<Rightarrow> pval dict \<times> bool" where
  "update_items d [] = (d, True)"
| "update_items d (v # vs) =
     (case pair_of v of None \<Rightarrow> (d, False) | Some (k, x) \<Rightarrow> update_items (dset k x d) vs)"

definition py_update :: "pval dict \<Rightarrow> pval \<Rightarrow> pval dict \<times> bool" where
  "py_update d v =
     (case v of
        PDict e \<Rightarrow> (dupdate d e, True)
      | _ \<Rightarrow> (case p_iter v of Inr l \<Rightarrow> update_items d l | Inl _ \<Rightarrow> (d, False)))"

text \<open>
  The \<open>try\<close> block that looks for the node of a container: every exception ends it silently,
  with the settings made so far.
\<close>

definition override :: "pval dict \<Rightarrow> pval \<Rightarrow> pval \<Rightarrow> pval dict \<Rightarrow> cset \<Rightarrow> cset" where
  "override nd img volumes env s =
     (let s1 = s\<lparr>cs_tmpfs := dget_or nd ''tmpfs'' PNone, cs_image := dget_or nd ''image'' img,
                 cs_volumes := dget_or nd ''mounts'' volumes\<rparr>;
          (e, fine) = py_update (cs_env s) (dget_or nd ''env'' (PDict env));
          s2 = s1\<lparr>cs_env := e\<rparr>
      in if fine then s2\<lparr>cs_atstart := dget_or nd ''atstart'' (cs_atstart s)\<rparr> else s2)"

fun find_node :: "string \<Rightarrow> pval list \<Rightarrow> pval dict option" where
  "find_node h [] = None"
| "find_node h (v # vs) =
     (case v of
        PDict nd \<Rightarrow> (case dget nd ''hostname'' of
            None \<Rightarrow> None
          | Some x \<Rightarrow> if x = PStr h then Some nd else find_node h vs)
      | _ \<Rightarrow> None)"

definition node_settings :: "pval dict option \<Rightarrow> string \<Rightarrow> pval \<Rightarrow> pval \<Rightarrow> pval dict \<Rightarrow> cset \<Rightarrow> cset" where
  "node_settings spec h img volumes env s =
     (case map_option (\<lambda>sp. bindE (dindex sp ''nodes'') p_iter) spec of
        Some (Inr nodes) \<Rightarrow>
          (case find_node h nodes of Some nd \<Rightarrow> override nd img volumes env s | None \<Rightarrow> s)
      | _ \<Rightarrow> s)"

definition cont_param :: "create_args \<Rightarrow> string \<Rightarrow> cset \<Rightarrow> pval dict" where
  "cont_param a h s =
     [(''image'', cs_image s), (''name'', PStr (k_name a @ ''-'' @ h)), (''entrypoint'', PList [PStr ''/bin/bash'']),
      (''tty'', PBool True), (''detach'', PBool True), (''environment'', PDict (cs_env s)), (''volumes'', cs_volumes s),
      (''cap_add'', k_cap_add a), (''cap_drop'', k_cap_drop a), (''hostname'', PStr h),
      (''ulimits'', PList [PDict [(''Name'', PStr ''nofile''), (''Soft'', PInt 1000000), (''Hard'', PInt 1000000)]]),
      (''tmpfs'', cs_tmpfs s), (''atstart'', cs_atstart s)] @
     (let b = dget_or (k_binds a) h PNone in if truthy b then [(''ports'', b)] else [])"

text \<open>The nodes are taken in order, \<open>n\<close> for each entry of the table; \<open>nodes[idx]\<close> may run out.\<close>

fun assign :: "'c ent list \<Rightarrow> 'n list \<Rightarrow> ('c \<times> 'n) list res" where
  "assign [] nodes = Inr []"
| "assign ((l, n, c) # es) nodes =
     (if length nodes < n then Inl IndexError
      else bindE (assign es (drop n nodes)) (\<lambda>r. Inr (map (\<lambda>x. (c, x)) (take n nodes) @ r)))"

record plan =
  pl_labels :: "pval dict"
  pl_conts :: "(nat \<times> pval dict) list"

text \<open>
  Everything \<open>__create\<close> decides before it creates anything: \<open>infos\<close> has the number of running
  containers and the name of each docker host, \<open>atstart\<close> is the configured start script.
\<close>

definition create_plan :: "string \<Rightarrow> pval \<Rightarrow> (nat \<times> string) list \<Rightarrow> create_args \<Rightarrow> pval dict option \<Rightarrow> plan res" where
  "create_plan tz atstart infos a spec =
     (let env = dsetdefault ''TZ'' (PStr tz) (k_env a);
          cfg = PDict [(''name'', PStr (k_name a)), (''image'', k_image a), (''env'', PDict env),
                  (''nodes'', PList (map PStr (k_nodes a))), (''mounts'', PList (k_mounts a)),
                  (''cap_add'', k_cap_add a), (''cap_drop'', k_cap_drop a)];
          lbl = dupdate (k_labels a) [(''node_aliases'', PStr (dumps (PDict (k_aliases a)))), (''DockerCluster'', PStr (dumps cfg))]
      in
      bindE (allocate (map (\<lambda>(i, l, _). (l, i)) (enumerate 0 infos)) (length (k_nodes a))) (\<lambda>tbl.
      bindE (volumes_of (k_mounts a)) (\<lambda>vols.
      bindE (assign tbl (k_nodes a)) (\<lambda>asg.
      let conts = map (\<lambda>(c, h). (c, cont_param a h
            (node_settings spec h (k_image a) (PDict vols) env
              \<lparr>cs_tmpfs = PNone, cs_image = k_image a, cs_volumes = PDict vols, cs_env = env, cs_atstart = atstart\<rparr>))) asg
      in Inr \<lparr>pl_labels = dset ''cont_build''
                (PStr (dumps (PList (map (\<lambda>(c, p). PList [PStr (snd (infos ! c)), PDict p]) conts)))) lbl,
              pl_conts = conts\<rparr>))))"

section \<open>The table of allocations\<close>

abbreviation total :: "'c ent list \<Rightarrow> nat" where
  "total es \<equiv> sum_list (map alloc_of es)"

abbreviation ident :: "'c ent \<Rightarrow> nat \<times> 'c" where
  "ident e \<equiv> (load_of e, snd (snd e))"

abbreviation busy :: "'c ent \<Rightarrow> nat" where
  "busy e \<equiv> load_of e + alloc_of e"

lemma fill_spec:
  assumes "sorted (map load_of es)" "\<forall>e \<in> set es. load_of e \<le> mx \<and> alloc_of e = 0" "fill mx n es = (m, es')"
  shows "map ident es' = map ident es \<and> m + total es' = n \<and> (\<forall>e \<in> set es'. busy e \<le> mx) \<and>
    (0 < m \<longrightarrow> (\<forall>e \<in> set es'. busy e = mx)) \<and> m = n - sum_list (map (\<lambda>e. mx - load_of e) es)"
  using assms
proof (induction mx n es arbitrary: m es' rule: fill.induct)
  case (1 mx n)
  then show ?case by simp
next
  case (2 mx n l a c es)
  from 2(3) have a: "a = 0" "l \<le> mx" by simp_all
  show ?case
  proof (cases "mx - l = 0")
    case True
    with 2(4) have e: "m = n" "es' = (l, a, c) # es" by simp_all
    have "load_of e = mx" if "e \<in> set ((l, a, c) # es)" for e
      using 2(2,3) that True by fastforce
    then have all: "\<forall>e \<in> set ((l, a, c) # es). load_of e = mx" by blast
    then have "sum_list (map (\<lambda>e. mx - load_of e) ((l, a, c) # es)) = 0" unfolding sum_list_eq_0_iff by auto
    then have z: "sum_list (map (\<lambda>e. mx - load_of e) es) = 0" by simp
    show ?thesis using e a 2(3) all by (simp add: z)
  next
    case False
    let ?d = "if mx - l < n then mx - l else n"
    show ?thesis
    proof (cases "n - ?d = 0")
      case True
      with 2(4) False have e: "m = 0" "es' = (l, ?d, c) # es" by simp_all
      have "total es = 0" using 2(3) by simp
      moreover have "n \<le> mx - l" using True by (simp split: if_splits)
      ultimately show ?thesis using e a 2(3) by auto
    next
      case nz: False
      obtain m' r where r: "fill mx (n - ?d) es = (m', r)" by force
      with 2(4) False nz have e: "m = m'" "es' = (l, ?d, c) # r" by simp_all
      have d: "?d = mx - l" using nz by (simp split: if_splits)
      have "sorted (map load_of es)" "\<forall>e \<in> set es. load_of e \<le> mx \<and> alloc_of e = 0" using 2(2,3) by simp_all
      from 2(1) [OF False refl nz this r] e a d nz show ?thesis by auto
    qed
  qed
qed

lemma spread_nth:
  "spread n es = map (\<lambda>i. (load_of (es ! i), alloc_of (es ! i) + n div length es + (if i < n mod length es then 1 else 0),
     snd (snd (es ! i)))) [0..<length es]"
  by (rule nth_equalityI) (simp_all add: spread_def Let_def nth_enumerate_eq split: prod.split)

lemma sum_indicator: "sum_list (map (\<lambda>i. if i < r then 1 else 0) [0..<k]) = (min r k :: nat)"
  by (induction k) auto

lemma map_index: "map (\<lambda>i. f (es ! i)) [0..<length es] = map f es"
  by (rule nth_equalityI) simp_all

lemma spread_total:
  assumes "es \<noteq> []"
  shows "total (spread n es) = total es + n" "map ident (spread n es) = map ident es"
proof -
  let ?k = "length es"
  have "total (spread n es) = (\<Sum>i\<leftarrow>[0..<?k]. alloc_of (es ! i) + n div ?k + (if i < n mod ?k then 1 else 0))"
    unfolding spread_nth by (simp only: map_map comp_def fst_conv snd_conv)
  also have "\<dots> = (\<Sum>i\<leftarrow>[0..<?k]. alloc_of (es ! i)) + (\<Sum>i\<leftarrow>[0..<?k]. n div ?k) + (\<Sum>i\<leftarrow>[0..<?k]. if i < n mod ?k then 1 else 0)"
    by (simp only: sum_list_addf)
  also have "\<dots> = total es + ?k * (n div ?k) + min (n mod ?k) ?k"
    unfolding sum_indicator map_index [of alloc_of es] by (simp add: sum_list_triv)
  also have "\<dots> = total es + n"
    using assms mod_less_divisor [of ?k n] by (simp add: min_absorb1 less_imp_le del: mod_less_divisor)
  finally show "total (spread n es) = total es + n" .
  show "map ident (spread n es) = map ident es"
    by (rule nth_equalityI) (simp_all add: spread_nth)
qed

lemma spread_busy:
  assumes "e \<in> set (spread n es)" "\<forall>e \<in> set es. busy e = mx"
  shows "busy e = mx + n div length es \<or> busy e = mx + n div length es + 1"
  using assms by (auto simp: spread_nth)

lemma spread_zero: "spread 0 es = es"
  by (rule nth_equalityI) (simp_all add: spread_nth)

lemma sum_list_mset: "mset xs = mset ys \<Longrightarrow> sum_list (map f xs) = (sum_list (map f ys) :: nat)"
  by (metis mset_map sum_mset_sum_list)

lemma allocate_spec:
  assumes "clients \<noteq> []"
  defines "mx \<equiv> Max (fst ` set clients)"
  shows "\<exists>tbl. allocate clients n = Inr tbl \<and> mset (map ident tbl) = mset clients \<and> total tbl = n \<and>
    (if n \<le> sum_list (map (\<lambda>(l, c). mx - l) clients) then \<forall>e \<in> set tbl. busy e \<le> mx
     else \<forall>e \<in> set tbl. \<forall>e' \<in> set tbl. mx \<le> busy e' \<and> busy e \<le> busy e' + 1)"
proof -
  let ?t = "sort_key fst (map (\<lambda>(l, c). (l, 0::nat, c)) clients)"
  have ne: "?t \<noteq> []" using assms(1) by (metis length_map length_sort length_0_conv)
  have srt: "sorted (map load_of ?t)" by (rule sorted_sort_key)
  have st: "set ?t = (\<lambda>(l, c). (l, 0, c)) ` set clients" by simp
  have le: "load_of e \<le> load_of (last ?t)" if "e \<in> set ?t" for e
    using sorted_last [OF srt, of "load_of e"] that last_map [OF ne, of load_of] by simp
  have mx: "load_of (last ?t) = mx"
    unfolding mx_def
  proof (rule Max_eqI [symmetric])
    show "load_of (last ?t) \<in> fst ` set clients" using last_in_set [OF ne] unfolding st by force
    show "y \<le> load_of (last ?t)" if "y \<in> fst ` set clients" for y
    proof -
      from that obtain c where "(y, 0, c) \<in> set ?t" unfolding st by force
      from le [OF this] show ?thesis by simp
    qed
  qed simp
  have a0: "\<forall>e \<in> set ?t. load_of e \<le> mx \<and> alloc_of e = 0" using le mx st by auto
  obtain m t' where f: "fill mx n ?t = (m, t')" by force
  note F = fill_spec [OF srt a0 f]
  have id': "map ident t' = map ident ?t" using F by blast
  have len: "t' \<noteq> []" using arg_cong [OF id', of length] ne unfolding length_map by auto
  have "mset (map ident ?t) = mset (map ident (map (\<lambda>(l, c). (l, 0::nat, c)) clients))"
    by (simp only: mset_map mset_sort)
  also have "map ident (map (\<lambda>(l, c). (l, 0::nat, c)) clients) = clients" by (induction clients) auto
  finally have ms: "mset (map ident ?t) = mset clients" .
  have "sum_list (map (\<lambda>e. mx - load_of e) ?t) = sum_list (map (\<lambda>p. mx - fst p) (map ident ?t))"
    by (simp only: map_map comp_def fst_conv)
  also have "\<dots> = sum_list (map (\<lambda>p. mx - fst p) clients)" by (rule sum_list_mset [OF ms])
  also have "\<dots> = sum_list (map (\<lambda>(l, c). mx - l) clients)" by (simp only: case_prod_unfold)
  finally have def: "m = n - sum_list (map (\<lambda>(l, c). mx - l) clients)" using F by simp
  have al: "allocate clients n = Inr (spread m t')" using ne mx f by (simp add: allocate_def Let_def)
  have "(if n \<le> sum_list (map (\<lambda>(l, c). mx - l) clients) then \<forall>e \<in> set (spread m t'). busy e \<le> mx
     else \<forall>e \<in> set (spread m t'). \<forall>e' \<in> set (spread m t'). mx \<le> busy e' \<and> busy e \<le> busy e' + 1)"
  proof (cases "n \<le> sum_list (map (\<lambda>(l, c). mx - l) clients)")
    case True
    with def F show ?thesis by (simp add: spread_zero)
  next
    case False
    with def F have full: "\<forall>e \<in> set t'. busy e = mx" by simp
    have "mx \<le> busy e' \<and> busy e \<le> busy e' + 1" if "e \<in> set (spread m t')" "e' \<in> set (spread m t')" for e e'
      using spread_busy [OF that(1) full] spread_busy [OF that(2) full] by linarith
    with False show ?thesis by simp
  qed
  moreover have "total (spread m t') = n" using spread_total(1) [OF len, of m] F by simp
  moreover have "mset (map ident (spread m t')) = mset clients" using spread_total(2) [OF len, of m] id' ms by simp
  ultimately show ?thesis using al by blast
qed

section \<open>Placing the nodes\<close>

lemma assign_ok: "total es = length nodes \<Longrightarrow> \<exists>r. assign es nodes = Inr r \<and> map snd r = nodes"
proof (induction es arbitrary: nodes)
  case (Cons e es)
  obtain l n c where e: "e = (l, n, c)" by (cases e) auto
  from Cons.prems e have "total es = length (drop n nodes)" "n \<le> length nodes" by simp_all
  from Cons.IH [OF this(1)] obtain r where r: "assign es (drop n nodes) = Inr r" "map snd r = drop n nodes" by blast
  have "map snd (map (\<lambda>x. (c, x)) (take n nodes) @ r) = nodes" using r(2) by (simp add: comp_def)
  with r(1) e \<open>n \<le> length nodes\<close> show ?case by (simp add: not_less [symmetric])
qed simp

lemma assign_client:
  "assign es nodes = Inr r \<Longrightarrow> (c, x) \<in> set r \<Longrightarrow> \<exists>e \<in> set es. snd (snd e) = c"
proof (induction es arbitrary: nodes r)
  case (Cons e es)
  obtain l n d where e: "e = (l, n, d)" by (cases e) auto
  from Cons.prems(1) e obtain q where q: "assign es (drop n nodes) = Inr q" "r = map (\<lambda>x. (d, x)) (take n nodes) @ q"
    by (auto simp: res_simps split: if_splits)
  with Cons.prems(2) Cons.IH [OF q(1)] e show ?case by auto
qed simp

lemma cont_param_get:
  "dget (cont_param a h s) ''hostname'' = Some (PStr h)" "dget (cont_param a h s) ''name'' = Some (PStr (k_name a @ ''-'' @ h))"
  "dget (cont_param a h s) ''environment'' = Some (PDict (cs_env s))"
  by (simp_all add: cont_param_def)

section \<open>Properties\<close>

text \<open>
  C5: the containers are spread over the docker hosts by load. With at least one host, exactly
  the requested number of containers is allocated, over all the hosts and with their loads
  unchanged; as long as the containers fit under the load of the busiest host, no host gets
  busier than that; and otherwise the loads afterwards differ by at most one.
\<close>

theorem allocation_balances:
  assumes "clients \<noteq> []"
  shows "\<exists>tbl. allocate clients n = Inr tbl \<and> mset (map ident tbl) = mset clients \<and> total tbl = n \<and>
    (if n \<le> sum_list (map (\<lambda>(l, c). Max (fst ` set clients) - l) clients)
     then \<forall>e \<in> set tbl. busy e \<le> Max (fst ` set clients)
     else \<forall>e \<in> set tbl. \<forall>e' \<in> set tbl. Max (fst ` set clients) \<le> busy e' \<and> busy e \<le> busy e' + 1)"
  using allocate_spec [OF assms, of n] .

theorem allocation_balances_witness:
  "allocate [(5, ''a''), (2, ''b''), (4, ''c'')] 9 = Inr [(2, 5, ''b''), (4, 3, ''c''), (5, 1, ''a'')] \<and>
   (\<exists>tbl. allocate [(5, ''a''), (2, ''b''), (4, ''c'')] 9 = Inr tbl \<and> total tbl = 9)"
proof
  show "allocate [(5, ''a''), (2, ''b''), (4, ''c'')] 9 = Inr [(2, 5, ''b''), (4, 3, ''c''), (5, 1, ''a'')]"
    by code_simp
  show "\<exists>tbl. allocate [(5, ''a''), (2, ''b''), (4, ''c'')] 9 = Inr tbl \<and> total tbl = 9"
    using allocation_balances [of "[(5, ''a''), (2, ''b''), (4, ''c'')]" 9] by blast
qed

text \<open>
  C21: every node gets its container. Whenever \<open>__create\<close> has a plan, the containers are those of
  the nodes, one each and in order, under the name of the cluster and the node, on docker hosts
  that exist; and with a host and well-formed mounts there is always a plan.
\<close>

theorem plan_covers_nodes:
  assumes "infos \<noteq> []" "volumes_of (k_mounts a) = Inr vols"
  shows "\<exists>p. create_plan tz atstart infos a spec = Inr p \<and>
    map (\<lambda>(c, q). (dget q ''hostname'', dget q ''name'')) (pl_conts p) =
      map (\<lambda>h. (Some (PStr h), Some (PStr (k_name a @ ''-'' @ h)))) (k_nodes a) \<and>
    (\<forall>(c, q) \<in> set (pl_conts p). c < length infos)"
proof -
  let ?cl = "map (\<lambda>(i, l, _). (l, i)) (enumerate 0 infos)"
  have "?cl \<noteq> []" using assms(1) by (cases infos) auto
  from allocate_spec [OF this, of "length (k_nodes a)"] obtain tbl where
    t: "allocate ?cl (length (k_nodes a)) = Inr tbl" "mset (map ident tbl) = mset ?cl" "total tbl = length (k_nodes a)"
    by blast
  from assign_ok [OF t(3)] obtain asg where g: "assign tbl (k_nodes a) = Inr asg" "map snd asg = k_nodes a" by blast
  have c: "c < length infos" if "(c, x) \<in> set asg" for c x
  proof -
    from assign_client [OF g(1) that] obtain l n where "(l, n, c) \<in> set tbl" by auto
    then have "(l, c) \<in> set (map ident tbl)" by force
    then have "(l, c) \<in> set ?cl" using mset_eq_setD [OF t(2)] by simp
    then show ?thesis by (auto simp: in_set_enumerate_eq)
  qed
  have m: "map (\<lambda>(c, q). (dget q ''hostname'', dget q ''name'')) (map (\<lambda>(c, h). (c, cont_param a h (s h))) asg) =
      map (\<lambda>h. (Some (PStr h), Some (PStr (k_name a @ ''-'' @ h)))) (k_nodes a)" for s
    unfolding g(2) [symmetric] map_map by (rule map_cong [OF refl]) (simp add: cont_param_get case_prod_beta)
  show ?thesis
    unfolding create_plan_def Let_def t(1) bindE_simps assms(2) g(1)
    by (intro exI conjI, rule refl) (use m c in auto)
qed

theorem plan_covers_nodes_witness:
  "\<exists>p. create_plan ''UTC'' PNone [(0, ''hosta''), (1, ''hostb'')]
      \<lparr>k_name = ''c1'', k_image = PStr ''img'', k_mounts = [PStr ''/x:/opt/ovis:ro''], k_nodes = [''n1'', ''n2''], k_env = [],
       k_labels = [], k_aliases = [], k_cap_add = PList [], k_cap_drop = PList [], k_subnet = PNone, k_binds = []\<rparr> None = Inr p \<and>
    map (\<lambda>(c, q). (dget q ''hostname'', dget q ''name'')) (pl_conts p) =
      [(Some (PStr ''n1''), Some (PStr ''c1-n1'')), (Some (PStr ''n2''), Some (PStr ''c1-n2''))] \<and>
    (\<forall>(c, q) \<in> set (pl_conts p). c < 2)"
proof -
  let ?a = "\<lparr>k_name = ''c1'', k_image = PStr ''img'', k_mounts = [PStr ''/x:/opt/ovis:ro''], k_nodes = [''n1'', ''n2''], k_env = [],
       k_labels = [], k_aliases = [], k_cap_add = PList [], k_cap_drop = PList [], k_subnet = PNone, k_binds = []\<rparr>"
  have "volumes_of (k_mounts ?a) = Inr [(''/x'', PDict [(''bind'', PStr ''/opt/ovis''), (''mode'', PStr ''ro'')])]"
    by (simp add: volumes_of_def)
  from plan_covers_nodes [OF _ this, of "[(0, ''hosta''), (1, ''hostb'')]" "''UTC''" PNone None]
  show ?thesis by (simp add: numeral_2_eq_2)
qed

text \<open>
  The environment of a node as a list is lost, and its start script with it. The environment
  of a cluster may be a list of NAME=VALUE texts, but for a node such a list makes the update
  fail, the failure is swallowed, and the container starts with the environment of the cluster
  and the default start script; given as a dict the settings are used.
\<close>

lemma node_env_list_ignored:
  assumes "find_node h nodes = Some nd" "length e \<noteq> 2"
    and "dget nd ''env'' = Some (PList (PStr e # es))" "dget nd ''atstart'' = Some script"
  shows "node_settings (Some [(''nodes'', PList nodes)]) h img vols env s =
      s\<lparr>cs_tmpfs := dget_or nd ''tmpfs'' PNone, cs_image := dget_or nd ''image'' img, cs_volumes := dget_or nd ''mounts'' vols\<rparr> \<and>
    (\<forall>d nd'. find_node h nodes = Some nd \<longrightarrow> nd' = dset ''env'' (PDict d) nd \<longrightarrow>
      cs_atstart (override nd' img vols env s) = script \<and> cs_env (override nd' img vols env s) = dupdate (cs_env s) d)"
proof -
  have u: "py_update (cs_env s) (PList (PStr e # es)) = (cs_env s, False)"
    using assms(2) by (auto simp: py_update_def p_iter_def pair_of_def split: list.splits)
  show ?thesis
    using assms(1,3,4) u
    by (simp add: node_settings_def dindex_def p_iter_def override_def dget_or_def Let_def dset_get py_update_def)
qed

lemma node_env_list_ignored_instance:
  "cs_env (node_settings (Some [(''nodes'', PList [PDict [(''hostname'', PStr ''n1''), (''env'', PList [PStr ''A=1'']), (''atstart'', PStr ''/s.sh'')]])])
     ''n1'' PNone PNone [] \<lparr>cs_tmpfs = PNone, cs_image = PNone, cs_volumes = PNone, cs_env = [], cs_atstart = PNone\<rparr>) = [] \<and>
   cs_atstart (node_settings (Some [(''nodes'', PList [PDict [(''hostname'', PStr ''n1''), (''env'', PList [PStr ''A=1'']), (''atstart'', PStr ''/s.sh'')]])])
     ''n1'' PNone PNone [] \<lparr>cs_tmpfs = PNone, cs_image = PNone, cs_volumes = PNone, cs_env = [], cs_atstart = PNone\<rparr>) = PNone"
  using node_env_list_ignored [of "''n1''" "[PDict [(''hostname'', PStr ''n1''), (''env'', PList [PStr ''A=1'']), (''atstart'', PStr ''/s.sh'')]]"
      "[(''hostname'', PStr ''n1''), (''env'', PList [PStr ''A=1'']), (''atstart'', PStr ''/s.sh'')]" "''A=1''" "[]" "PStr ''/s.sh''"]
  by simp

end
