(* ===== verification/Cluster.thy ===== *)
theory Cluster
  imports Config
begin

text \<open>
  The parts of \<open>LDMSDCluster\<close> that both platforms (docker, singularity) run on their
  containers: the generated \<open>/etc/hosts\<close>, the ssh identity and known hosts, commands on the
  head node and on all nodes, and the choice between an existing and a new
  cluster. The operations of a container are a record of effectful programs, which a platform
  provides; its cached properties (hostname, addresses, aliases) are data.
\<close>

section \<open>Containers as the cluster sees them\<close>

record 'k cont =
  co_id :: 'k
  co_hostname :: string
  co_ip :: "string option"
  co_ip6 :: "string option"
  co_aliases :: pval

text \<open>
  \<open>x_read c path user\<close>: \<open>user\<close> is given when the caller passes the keyword argument.
\<close>

record ('w, 'k) cops =
  x_exec :: "'k \<Rightarrow> pval \<Rightarrow> pval \<Rightarrow> pval \<Rightarrow> ('w, int \<times> string) io"
  x_write :: "'k \<Rightarrow> string \<Rightarrow> string \<Rightarrow> pval \<Rightarrow> ('w, unit) io"
  x_read :: "'k \<Rightarrow> string \<Rightarrow> string option \<Rightarrow> ('w, string) io"

abbreviation root :: pval where
  "root \<equiv> PStr ''root''"

section \<open>/etc/hosts\<close>

text \<open>\<open>node_aliases.get(name, [])\<close>, a single text being one alias, each printed after a space.\<close>

definition alias_list :: "pval dict \<Rightarrow> string \<Rightarrow> pval list res" where
  "alias_list node_aliases name =
     (let a = dget_or node_aliases name (PList []) in
      case a of PStr s \<Rightarrow> Inr [a] | _ \<Rightarrow> p_iter a)"

definition opt_addr :: "string option \<Rightarrow> string" where
  "opt_addr a = (case a of Some s \<Rightarrow> s | None \<Rightarrow> ''None'')"

definition hosts_line :: "('k cont \<Rightarrow> string option) \<Rightarrow> pval dict \<Rightarrow> 'k cont \<Rightarrow> string res" where
  "hosts_line addr node_aliases c =
     bindE (alias_list node_aliases (co_hostname c)) (\<lambda>al.
       Inr (opt_addr (addr c) @ '' '' @ co_hostname c @ concat (map (\<lambda>a. '' '' @ py_str a) al) @ nl))"

definition build_hosts :: "string \<Rightarrow> ('k cont \<Rightarrow> string option) \<Rightarrow> 'k cont list \<Rightarrow> pval dict \<Rightarrow> string res" where
  "build_hosts local addr conts node_aliases =
     bindE (mapE (hosts_line addr node_aliases) conts) (\<lambda>ls. Inr (local @ '' localhost'' @ nl @ concat ls))"

definition build_etc_hosts_ipv4 :: "'k cont list \<Rightarrow> pval dict \<Rightarrow> pval dict \<Rightarrow> string res" where
  "build_etc_hosts_ipv4 conts own given =
     build_hosts ''127.0.0.1'' co_ip conts (if given = [] then own else given)"

definition build_etc_hosts_ipv6 :: "'k cont list \<Rightarrow> pval dict \<Rightarrow> pval dict \<Rightarrow> string res" where
  "build_etc_hosts_ipv6 conts own given =
     build_hosts ''::1'' co_ip6 conts (if given = [] then own else given)"

definition build_etc_hosts :: "pval dict \<Rightarrow> 'k cont list \<Rightarrow> pval dict \<Rightarrow> pval dict \<Rightarrow> string res" where
  "build_etc_hosts spec conts own given =
     (if truthy (dget_or spec ''ipv6'' PNone) then build_etc_hosts_ipv6 conts own given
      else build_etc_hosts_ipv4 conts own given)"

definition update_etc_hosts ::
  "('w, 'k) cops \<Rightarrow> pval dict \<Rightarrow> 'k cont list \<Rightarrow> pval dict \<Rightarrow> pval dict \<Rightarrow> ('w, unit) io" where
  "update_etc_hosts X spec conts own given =
     bindS (liftE (build_etc_hosts spec conts own given)) (\<lambda>txt.
       forS conts (\<lambda>c. x_write X (co_id c) ''/etc/hosts'' txt root))"

section \<open>ssh\<close>

definition last_cont :: "'k cont list \<Rightarrow> 'k cont res" where
  "last_cont conts = (if conts = [] then Inl IndexError else Inr (last conts))"

definition run_root :: "('w, 'k) cops \<Rightarrow> 'k \<Rightarrow> string \<Rightarrow> ('w, unit) io" where
  "run_root X k cmd = bindS (x_exec X k (PStr cmd) PNone root) (\<lambda>_. retS ())"

definition make_ssh_id :: "('w, 'k) cops \<Rightarrow> 'k cont list \<Rightarrow> ('w, unit) io" where
  "make_ssh_id X conts =
     bindS (liftE (last_cont conts)) (\<lambda>c. let k = co_id c in
     seqS (run_root X k ''mkdir -m 0700 -p /root/.ssh/'')
     (seqS (run_root X k ''rm -f /root/.ssh/id_rsa id_rsa.pub'')
     (seqS (run_root X k (''ssh-keygen -q -N '' @ [CHR 0x27, CHR 0x27] @ '' -f /root/.ssh/id_rsa''))
     (bindS (x_read X k ''/root/.ssh/id_rsa'' (Some ''root'')) (\<lambda>id_rsa.
      bindS (x_read X k ''/root/.ssh/id_rsa.pub'' (Some ''root'')) (\<lambda>id_rsa_pub.
      forS conts (\<lambda>c. let k = co_id c in
        seqS (run_root X k ''mkdir -m 0700 -p /root/.ssh/'')
        (seqS (x_write X k ''/root/.ssh/id_rsa'' id_rsa root)
        (seqS (run_root X k ''chmod 600 /root/.ssh/id_rsa'')
        (seqS (x_write X k ''/root/.ssh/id_rsa.pub'' id_rsa_pub root)
        (seqS (x_write X k ''/root/.ssh/authorized_keys'' id_rsa_pub root)
        (run_root X k ''chmod 600 /root/.ssh/authorized_keys''))))))))))))"

text \<open>
  \<open>reduce(+)\<close> over \<open>[hostname, ip_addr] + aliases\<close>: an address that is missing, or aliases that
  are not a list of texts, end in a \<open>TypeError\<close>.
\<close>

definition scan_hosts :: "'k cont list \<Rightarrow> string list res" where
  "scan_hosts conts =
     (if conts = [] then Inl (TypeError ''reduce() of empty sequence with no initial value'')
      else bindE (mapE (\<lambda>c. case co_aliases c of
               PList l \<Rightarrow> Inr (PStr (co_hostname c) # (case co_ip c of Some a \<Rightarrow> PStr a | None \<Rightarrow> PNone) # l)
             | _ \<Rightarrow> Inl (TypeError ''can only concatenate list'')) conts) (\<lambda>ls. mapE p_string (concat ls)))"

definition ssh_keyscan :: "('w, 'k) cops \<Rightarrow> 'k cont list \<Rightarrow> ('w, string) io" where
  "ssh_keyscan X conts =
     bindS (liftE (scan_hosts conts)) (\<lambda>hosts.
     bindS (liftE (last_cont conts)) (\<lambda>c.
     bindS (x_exec X (co_id c) (PStr (''bash -c '' @ [CHR 0x27] @ ''ssh-keyscan '' @ join '' '' hosts @ '' 2>/dev/null'' @ [CHR 0x27])) PNone PNone)
       (\<lambda>(rc, out). retS out)))"

definition make_known_hosts :: "('w, 'k) cops \<Rightarrow> 'k cont list \<Rightarrow> ('w, unit) io" where
  "make_known_hosts X conts =
     bindS (ssh_keyscan X conts) (\<lambda>ks.
     forS conts (\<lambda>c. seqS (run_root X (co_id c) ''mkdir -m 0700 -p /root/.ssh'')
       (x_write X (co_id c) ''/root/.ssh/known_hosts'' ks root)))"

section \<open>Commands\<close>

definition cluster_exec :: "('w, 'k) cops \<Rightarrow> 'k cont list \<Rightarrow> string \<Rightarrow> pval \<Rightarrow> ('w, int \<times> string) io" where
  "cluster_exec X conts cmd env = bindS (liftE (last_cont conts)) (\<lambda>c. x_exec X (co_id c) (PStr cmd) env PNone)"

definition all_exec_run :: "('w, 'k) cops \<Rightarrow> 'k cont list \<Rightarrow> string \<Rightarrow> ('w, (int \<times> string) dict) io" where
  "all_exec_run X conts cmd =
     bindS (mapS (\<lambda>c. bindS (x_exec X (co_id c) (PStr cmd) PNone PNone) (\<lambda>r. retS (co_hostname c, r))) conts)
       (\<lambda>l. retS (dupdate [] l))"

section \<open>An existing or a new cluster\<close>

text \<open>
  \<open>LDMSDCluster.get\<close>: \<open>found\<close> is \<open>_get\<close> of the platform; \<open>build\<close> is \<open>create(spec)\<close>; \<open>same\<close> compares \<open>Spec(spec)\<close> with the
  specification of the cluster found.
\<close>

definition cluster_get :: "('w, 'a) io \<Rightarrow> ('a \<Rightarrow> ('w, bool) io) \<Rightarrow> ('w, 'a) io \<Rightarrow> bool \<Rightarrow> bool \<Rightarrow> ('w, 'a) io" where
  "cluster_get found same build create has_spec =
     catchS (bindS found (\<lambda>cl.
         if has_spec then bindS (same cl) (\<lambda>b. if b then retS cl else raiseS (RuntimeError ''spec mismatch''))
         else retS cl))
       (\<lambda>e. case e of
           LookupError m \<Rightarrow> if create then build else raiseS e
         | KeyError k \<Rightarrow> if create then build else raiseS e
         | IndexError \<Rightarrow> if create then build else raiseS e
         | _ \<Rightarrow> raiseS e)"

section \<open>Looking names up\<close>

text \<open>
  How a resolver reads the file: line by line, the first word is the address of the other words,
  and the first line with the name counts.
\<close>

definition host_entry :: "string \<Rightarrow> string \<Rightarrow> string option" where
  "host_entry name line = (case split_ws line of [] \<Rightarrow> None | a # names \<Rightarrow> if name \<in> set names then Some a else None)"

fun first_some :: "('a \<Rightarrow> 'b option) \<Rightarrow> 'a list \<Rightarrow> 'b option" where
  "first_some f [] = None"
| "first_some f (x # xs) = (case f x of Some y \<Rightarrow> Some y | None \<Rightarrow> first_some f xs)"

definition lookup_host :: "string \<Rightarrow> string \<Rightarrow> string option" where
  "lookup_host txt name = first_some (host_entry name) (split_on CHR 0x0A txt)"

definition is_word :: "string \<Rightarrow> bool" where
  "is_word s \<longleftrightarrow> s \<noteq> [] \<and> list_all (\<lambda>c. \<not> is_space c) s"

lemma words_word:
  "list_all (\<lambda>c. \<not> is_space c) s \<Longrightarrow> words acc (s @ t) = words (rev s @ acc) t"
  by (induction s arbitrary: acc) auto

lemma split_ws_words:
  "is_word a \<Longrightarrow> \<forall>s \<in> set ss. is_word s \<Longrightarrow> words [] (a @ concat (map (\<lambda>s. '' '' @ s) ss)) = a # ss"
proof (induction ss arbitrary: a)
  case Nil
  then show ?case using words_word [of a "[]" "[]"] by (simp add: is_word_def)
next
  case (Cons s ss)
  have "is_space CHR '' ''" by (simp add: is_space_def)
  moreover have "words [] (s @ concat (map (\<lambda>s. '' '' @ s) ss)) = s # ss" using Cons by simp
  ultimately show ?case using words_word [of a "[]"] Cons.prems(1) by (simp add: is_word_def)
qed

text \<open>The names of a container in the file, and the entries of the file.\<close>

definition names_of :: "pval dict \<Rightarrow> 'k cont \<Rightarrow> string list" where
  "names_of al c = co_hostname c # (case alias_list al (co_hostname c) of Inr l \<Rightarrow> map py_str l | Inl _ \<Rightarrow> [])"

lemma word_no_nl: "is_word s \<Longrightarrow> CHR 0x0A \<notin> set s"
  by (auto simp: is_word_def list_all_iff is_space_def)

lemma split_on_lines:
  "\<forall>l \<in> set ls. CHR 0x0A \<notin> set l \<Longrightarrow> split_on CHR 0x0A (concat (map (\<lambda>l. l @ nl) ls)) = ls @ [[]]"
  by (induction ls) (simp_all add: split_on_append)

lemma hosts_line_eq:
  assumes "hosts_line addr al c = Inr t"
  shows "t = opt_addr (addr c) @ concat (map (\<lambda>s. '' '' @ s) (names_of al c)) @ nl"
  using assms by (auto simp: hosts_line_def names_of_def res_simps comp_def)

lemma build_hosts_eq:
  assumes "build_hosts local addr conts al = Inr txt"
  shows "txt = concat (map (\<lambda>l. l @ nl) ((local @ '' localhost'') #
    map (\<lambda>c. opt_addr (addr c) @ concat (map (\<lambda>s. '' '' @ s) (names_of al c))) conts))"
proof -
  from assms obtain ls where ls: "mapE (hosts_line addr al) conts = Inr ls" "txt = local @ '' localhost'' @ nl @ concat ls"
    by (auto simp: build_hosts_def res_simps)
  from ls(1) have "list_all2 (\<lambda>x y. hosts_line addr al x = Inr y) conts ls" by (simp add: mapE_Inr)
  then have "ls = map (\<lambda>c. opt_addr (addr c) @ concat (map (\<lambda>s. '' '' @ s) (names_of al c)) @ nl) conts"
    by (induction rule: list_all2_induct) (auto dest: hosts_line_eq)
  with ls(2) show ?thesis by (simp add: comp_def)
qed

lemma lookup_first:
  assumes "\<forall>(a, ns) \<in> set es. is_word a \<and> (\<forall>n \<in> set ns. is_word n)" "distinct (concat (map snd es))"
    "(a, ns) \<in> set es" "n \<in> set ns"
  shows "lookup_host (concat (map (\<lambda>l. l @ nl) (map (\<lambda>(a, ns). a @ concat (map (\<lambda>s. '' '' @ s) ns)) es))) n = Some a"
proof -
  let ?line = "\<lambda>(a, ns). a @ concat (map (\<lambda>s. '' '' @ s) ns) :: string"
  have no: "CHR 0x0A \<notin> set (?line e)" if "e \<in> set es" for e
  proof -
    obtain a ns where e: "e = (a, ns)" by force
    with that assms(1) have "CHR 0x0A \<notin> set a" "\<forall>n \<in> set ns. CHR 0x0A \<notin> set n" using word_no_nl by fast+
    then show ?thesis by (simp add: e)
  qed
  have entry: "host_entry m (?line e) = (if m \<in> set (snd e) then Some (fst e) else None)" if "e \<in> set es" for e m
    using that assms(1) split_ws_words [of "fst e" "snd e"] by (cases e) (auto simp: host_entry_def)
  have "first_some (host_entry n) (map ?line es @ [[]]) = Some a"
    using assms(2-4) entry
  proof (induction es)
    case (Cons e es)
    show ?case
    proof (cases "n \<in> set (snd e)")
      case True
      have "e = (a, ns)"
      proof (rule ccontr)
        assume "e \<noteq> (a, ns)"
        with Cons.prems(2) have "(a, ns) \<in> set es" by auto
        with Cons.prems(1,3) True show False by force
      qed
      with Cons.prems(3) Cons.prems(4) [of e n] show ?thesis by simp
    next
      case False
      with Cons.prems(2,3) have "(a, ns) \<in> set es" by auto
      moreover have "host_entry n (?line e) = None" using Cons.prems(4) [of e n] False by simp
      ultimately show ?thesis using Cons by simp
    qed
  qed simp
  moreover have "split_on CHR 0x0A (concat (map (\<lambda>l. l @ nl) (map ?line es))) = map ?line es @ [[]]"
    by (rule split_on_lines) (use no in fastforce)
  ultimately show ?thesis unfolding lookup_host_def by (simp only:)
qed

section \<open>Properties\<close>

text \<open>
  C13: the names of a cluster resolve. When the hostnames, aliases and addresses are words, the
  names are pairwise different and none is \<open>localhost\<close>, a resolver that reads the generated
  \<open>/etc/hosts\<close> finds for every hostname and every alias the address of its own container, and
  the loopback address for \<open>localhost\<close>; in IPv4 and in IPv6.
\<close>

theorem etc_hosts_resolves:
  assumes "build_etc_hosts spec conts own given = Inr txt"
    and "addr = (if truthy (dget_or spec ''ipv6'' PNone) then co_ip6 else co_ip)"
    and "al = (if given = [] then own else given)"
    and "\<forall>c \<in> set conts. is_word (opt_addr (addr c)) \<and> (\<forall>n \<in> set (names_of al c). is_word n)"
    and "distinct (''localhost'' # concat (map (names_of al) conts))"
  shows "(\<forall>c \<in> set conts. \<forall>n \<in> set (names_of al c). lookup_host txt n = Some (opt_addr (addr c))) \<and>
    lookup_host txt ''localhost'' = Some (if truthy (dget_or spec ''ipv6'' PNone) then ''::1'' else ''127.0.0.1'')"
proof -
  let ?l = "if truthy (dget_or spec ''ipv6'' PNone) then ''::1'' else ''127.0.0.1''"
  let ?es = "(?l, [''localhost'']) # map (\<lambda>c. (opt_addr (addr c), names_of al c)) conts"
  have "build_hosts ?l addr conts al = Inr txt"
    using assms(1-3) by (auto simp: build_etc_hosts_def build_etc_hosts_ipv4_def build_etc_hosts_ipv6_def split: if_splits)
  from build_hosts_eq [OF this]
  have t: "txt = concat (map (\<lambda>l. l @ nl) (map (\<lambda>(a, ns). a @ concat (map (\<lambda>s. '' '' @ s) ns)) ?es))"
    by (simp add: comp_def)
  have w: "\<forall>(a, ns) \<in> set ?es. is_word a \<and> (\<forall>n \<in> set ns. is_word n)"
    using assms(4) by (auto simp: is_word_def is_space_def)
  have d: "distinct (concat (map snd ?es))" using assms(5) by (simp add: comp_def)
  have "lookup_host txt n = Some (opt_addr (addr c))" if "c \<in> set conts" "n \<in> set (names_of al c)" for c n
    unfolding t using w d by (rule lookup_first) (use that in auto)
  moreover have "lookup_host txt ''localhost'' = Some ?l"
    unfolding t using w d by (rule lookup_first) auto
  ultimately show ?thesis by blast
qed

theorem etc_hosts_resolves_witness:
  "lookup_host (''127.0.0.1 localhost'' @ nl @ ''10.0.0.1 n1 head'' @ nl @ ''10.0.0.2 n2'' @ nl) ''head'' = Some ''10.0.0.1''"
proof -
  let ?c1 = "\<lparr>co_id = 1 :: nat, co_hostname = ''n1'', co_ip = Some ''10.0.0.1'', co_ip6 = None, co_aliases = PNone\<rparr>"
  let ?c2 = "\<lparr>co_id = 2 :: nat, co_hostname = ''n2'', co_ip = Some ''10.0.0.2'', co_ip6 = None, co_aliases = PNone\<rparr>"
  have b: "build_etc_hosts [] [?c1, ?c2] [] [(''n1'', PStr ''head'')] =
      Inr (''127.0.0.1 localhost'' @ nl @ ''10.0.0.1 n1 head'' @ nl @ ''10.0.0.2 n2'' @ nl)"
    by (simp add: build_etc_hosts_def build_etc_hosts_ipv4_def build_hosts_def hosts_line_def alias_list_def opt_addr_def
        dget_or_def p_iter_def)
  have n: "names_of [(''n1'', PStr ''head'')] ?c1 = [''n1'', ''head'']" "names_of [(''n1'', PStr ''head'')] ?c2 = [''n2'']"
    by (simp_all add: names_of_def alias_list_def dget_or_def p_iter_def)
  from etc_hosts_resolves [OF b refl refl] show ?thesis
    using n by (simp add: dget_or_def opt_addr_def is_word_def is_space_def)
qed

end
