(* ===== verification/Docker.thy ===== *)
theory Docker
  imports DockerAlloc Cluster Compare
begin

text \<open>
  \<open>runtime/docker.py\<close> on a docker engine that is a parameter: the terminal of a container
  (\<open>ContainerTTY\<close>), the container wrapper (\<open>Container\<close>), the network wrapper (\<open>Network\<close>) and
  the virtual cluster (\<open>DockerCluster\<close>). The engine is a record of effectful programs for the
  calls of the docker library that the source makes; the objects of that library are names, and
  the attributes that they cache are part of the world. Times are in milliseconds.
\<close>

section \<open>The engine\<close>

text \<open>A client talks to the local daemon or to the daemon at an address.\<close>

datatype client = Local | Tcp string

datatype recv = Got string | Again | Failed nat

record 'w engine =
  e_now :: "('w, int) io"
  e_sleep :: "int \<Rightarrow> ('w, unit) io"
  e_grep :: "('w, pval list) io"
  e_set_grep :: "pval list \<Rightarrow> ('w, unit) io"
  e_hosts :: "('w, string list) io"
  e_info :: "client \<Rightarrow> ('w, pval) io"
  e_networks :: "client \<Rightarrow> ('w, string list) io"
  e_net_get :: "client \<Rightarrow> string \<Rightarrow> ('w, string) io"
  e_net_create :: "client \<Rightarrow> pval dict \<Rightarrow> ('w, string) io"
  e_net_attrs :: "string \<Rightarrow> ('w, pval) io"
  e_net_name :: "string \<Rightarrow> ('w, string) io"
  e_net_reload :: "string \<Rightarrow> ('w, unit) io"
  e_net_remove :: "string \<Rightarrow> ('w, unit) io"
  e_net_connect :: "string \<Rightarrow> string \<Rightarrow> string option \<Rightarrow> ('w, unit) io"
  e_net_disconnect :: "string \<Rightarrow> string \<Rightarrow> ('w, unit) io"
  e_conts :: "client \<Rightarrow> ('w, string list) io"
  e_cont_get :: "client \<Rightarrow> string \<Rightarrow> ('w, string) io"
  e_cont_create :: "client \<Rightarrow> pval dict \<Rightarrow> ('w, string) io"
  e_attrs :: "string \<Rightarrow> ('w, pval) io"
  e_name :: "string \<Rightarrow> ('w, string) io"
  e_reload :: "string \<Rightarrow> ('w, unit) io"
  e_start :: "string \<Rightarrow> ('w, unit) io"
  e_stop :: "string \<Rightarrow> ('w, unit) io"
  e_remove :: "string \<Rightarrow> ('w, unit) io"
  e_put_atstart :: "string \<Rightarrow> pval \<Rightarrow> ('w, unit) io"
  e_exec :: "string \<Rightarrow> pval \<Rightarrow> pval \<Rightarrow> pval \<Rightarrow> ('w, int \<times> string) io"
  e_open :: "string \<Rightarrow> pval \<Rightarrow> pval \<Rightarrow> ('w, string) io"
  e_send :: "string \<Rightarrow> string \<Rightarrow> ('w, nat) io"
  e_shut :: "string \<Rightarrow> ('w, unit) io"
  e_recv :: "string \<Rightarrow> ('w, recv) io"
  e_close :: "string \<Rightarrow> ('w, unit) io"

section \<open>Terminals\<close>

text \<open>\<open>cs_rm\<close>: the rest after a control sequence at the start of a text.\<close>

definition in_range :: "nat \<Rightarrow> nat \<Rightarrow> char \<Rightarrow> bool" where
  "in_range a b c \<longleftrightarrow> a \<le> (of_char c :: nat) \<and> (of_char c :: nat) \<le> b"

definition cs_end :: "string \<Rightarrow> string option" where
  "cs_end s =
     (case s of
        a # b # r \<Rightarrow>
          if a = CHR 0x1B \<and> b = CHR ''['' then
            (case dropWhile (in_range 0x20 0x2F) (dropWhile (in_range 0x30 0x3F) r) of
               c # t \<Rightarrow> if in_range 0x40 0x7E c then Some t else None
             | [] \<Rightarrow> None)
          else None
      | _ \<Rightarrow> None)"

lemma cs_end_shorter: "cs_end s = Some t \<Longrightarrow> length t < length s"
proof -
  assume "cs_end s = Some t"
  then obtain a b r c where s: "s = a # b # r"
    and d: "dropWhile (in_range 0x20 0x2F) (dropWhile (in_range 0x30 0x3F) r) = c # t"
    by (auto simp: cs_end_def split: list.splits if_splits)
  have "length (c # t) \<le> length r"
    unfolding d [symmetric] using length_dropWhile_le order_trans by blast
  with s show ?thesis by simp
qed

function cs_rm :: "string \<Rightarrow> string" where
  "cs_rm s = (case cs_end s of Some t \<Rightarrow> cs_rm t | None \<Rightarrow> (case s of [] \<Rightarrow> [] | c # t \<Rightarrow> c # cs_rm t))"
  by pat_completeness auto
termination
  by (relation "measure length") (auto dest: cs_end_shorter)

declare cs_rm.simps [simp del]

text \<open>\<open>ContainerTTY.read\<close>: until the end of the stream, or nothing arrives for two tries in a row.\<close>

partial_function (option) tty_loop :: "'w engine \<Rightarrow> string \<Rightarrow> int \<Rightarrow> bool \<Rightarrow> string \<Rightarrow> ('w, string) io" where
  "tty_loop E sock idle active buf w =
     bindS (e_recv E sock) (\<lambda>r. case r of
         Got b \<Rightarrow> if b = [] then retS buf else tty_loop E sock idle True (buf @ b)
       | Again \<Rightarrow> if \<not> active then retS buf else seqS (e_sleep E idle) (tty_loop E sock idle False buf)
       | Failed e \<Rightarrow> raiseS (OtherError ''BlockingIOError'' [])) w"

definition tty_read :: "'w engine \<Rightarrow> string \<Rightarrow> int \<Rightarrow> ('w, string) io" where
  "tty_read E sock idle = bindS (tty_loop E sock idle True []) (\<lambda>v. retS (cs_rm v))"

definition tty_write :: "'w engine \<Rightarrow> string \<Rightarrow> string \<Rightarrow> ('w, unit) io" where
  "tty_write E sock data = bindS (e_send E sock data) (\<lambda>_. retS ())"

text \<open>\<open>term\<close> on the socket, which is None afterwards.\<close>

definition tty_term :: "'w engine \<Rightarrow> string option \<Rightarrow> ('w, string option) io" where
  "tty_term E sock =
     (case sock of
        None \<Rightarrow> retS None
      | Some s \<Rightarrow> bindS (e_send E s [CHR 0x04]) (\<lambda>_. seqS (e_close E s) (retS None)))"

section \<open>Waiting\<close>

text \<open>The loop of both \<open>wait_running\<close>: it tests first and looks at the clock when the test fails.\<close>

partial_function (option) wait_loop ::
  "('w, int) io \<Rightarrow> ('w, unit) io \<Rightarrow> ('w, bool) io \<Rightarrow> int \<Rightarrow> int \<Rightarrow> ('w, bool) io" where
  "wait_loop now pause cond t0 timeout w =
     bindS cond (\<lambda>b. if b then retS True
       else bindS now (\<lambda>t. if timeout < t - t0 then retS False
         else seqS pause (wait_loop now pause cond t0 timeout))) w"

definition wait_until :: "('w, int) io \<Rightarrow> ('w, unit) io \<Rightarrow> ('w, bool) io \<Rightarrow> int \<Rightarrow> ('w, bool) io" where
  "wait_until now pause cond timeout = bindS now (\<lambda>t0. wait_loop now pause cond t0 timeout)"

section \<open>Containers\<close>

definition c_is_running :: "'w engine \<Rightarrow> string \<Rightarrow> ('w, bool) io" where
  "c_is_running E h =
     catchS (bindS (e_attrs E h) (\<lambda>a. bindS (liftE (bindE (p_index a ''State'') (\<lambda>s. p_index s ''Status'')))
         (\<lambda>v. retS (v = PStr ''running''))))
       (\<lambda>_. retS False)"

definition c_wait_running :: "'w engine \<Rightarrow> string \<Rightarrow> int \<Rightarrow> ('w, bool) io" where
  "c_wait_running E h timeout =
     wait_until (e_now E) (seqS (e_reload E h) (e_sleep E 1000)) (c_is_running E h) timeout"

definition c_exec0 :: "'w engine \<Rightarrow> string \<Rightarrow> pval \<Rightarrow> pval \<Rightarrow> pval \<Rightarrow> ('w, int \<times> string) io" where
  "c_exec0 E h cmd env user = bindS (c_wait_running E h 10000) (\<lambda>_. e_exec E h cmd env user)"

definition shell_cmd :: "pval \<Rightarrow> pval" where
  "shell_cmd cmd = (case cmd of PList _ \<Rightarrow> cmd | _ \<Rightarrow> PList [PStr ''/bin/bash'', PStr ''-c'', cmd])"

definition c_exec_run :: "'w engine \<Rightarrow> string \<Rightarrow> pval \<Rightarrow> pval \<Rightarrow> pval \<Rightarrow> ('w, int \<times> string) io" where
  "c_exec_run E h cmd env user = c_exec0 E h (shell_cmd cmd) env user"

definition c_open :: "'w engine \<Rightarrow> string \<Rightarrow> pval \<Rightarrow> pval \<Rightarrow> ('w, string) io" where
  "c_open E h cmd user = bindS (c_wait_running E h 10000) (\<lambda>_. e_open E h cmd user)"

definition c_exec_interact :: "'w engine \<Rightarrow> string \<Rightarrow> pval \<Rightarrow> ('w, string) io" where
  "c_exec_interact E h cmd = c_open E h cmd PNone"

text \<open>What one blocking \<open>recv\<close> gives; the stream of the engine has an 8-byte header.\<close>

definition recv_once :: "'w engine \<Rightarrow> string \<Rightarrow> ('w, string) io" where
  "recv_once E s =
     bindS (e_recv E s) (\<lambda>r. case r of Got b \<Rightarrow> retS b | _ \<Rightarrow> raiseS (OtherError ''OSError'' []))"

definition talk :: "'w engine \<Rightarrow> string \<Rightarrow> string \<Rightarrow> ('w, string) io" where
  "talk E s content =
     bindS (e_send E s content) (\<lambda>_. seqS (e_shut E s) (bindS (recv_once E s) (\<lambda>ret. retS ret)))"

definition write_cmd :: "string \<Rightarrow> string" where
  "write_cmd path = ''/bin/bash -c '' @ [CHR 0x27] @ ''cat - >'' @ path @ '' && echo -n true'' @ [CHR 0x27]"

definition c_write_file :: "'w engine \<Rightarrow> string \<Rightarrow> string \<Rightarrow> string \<Rightarrow> pval \<Rightarrow> ('w, unit) io" where
  "c_write_file E h path content user =
     bindS (c_open E h (PStr (write_cmd path)) user) (\<lambda>s.
     bindS (talk E s content) (\<lambda>ret.
     seqS (e_close E s)
       (if drop 8 ret \<noteq> ''true'' then raiseS (RuntimeError (drop 8 ret)) else retS ())))"

definition c_read_file :: "'w engine \<Rightarrow> string \<Rightarrow> string \<Rightarrow> ('w, string) io" where
  "c_read_file E h path =
     bindS (c_exec0 E h (PStr (''cat '' @ path)) PNone PNone) (\<lambda>(rc, out).
       if rc \<noteq> 0 then raiseS (RuntimeError (''Error '' @ str_int rc @ '' '' @ out)) else retS out)"

text \<open>\<open>pipe\<close> takes the first byte of the header (the number of the stream) for the exit code.\<close>

definition c_pipe :: "'w engine \<Rightarrow> string \<Rightarrow> pval \<Rightarrow> string \<Rightarrow> ('w, int \<times> string) io" where
  "c_pipe E h cmd content =
     bindS (c_open E h cmd PNone) (\<lambda>s.
     bindS (talk E s content) (\<lambda>ret.
     seqS (e_close E s)
       (retS (case ret of [] \<Rightarrow> (0, [])
              | c # _ \<Rightarrow> ((let rc = int (of_char c) in if rc = 1 then 0 else rc), drop 8 ret)))))"

definition c_interfaces :: "'w engine \<Rightarrow> string \<Rightarrow> ('w, (string \<times> pval \<times> pval) list) io" where
  "c_interfaces E h =
     bindS (e_attrs E h) (\<lambda>a.
     liftE (bindE (p_index a ''NetworkSettings'') (\<lambda>s. bindE (p_index s ''Networks'') (\<lambda>n. bindE (p_dict n) (\<lambda>d.
       mapE (\<lambda>(k, v). bindE (p_index v ''IPAddress'') (\<lambda>a4. bindE (p_get v ''GlobalIPv6Address'' PNone) (\<lambda>a6.
         Inr (k, a4, a6)))) d)))))"

text \<open>\<open>get_ip_addr\<close> and \<open>get_ipv6_addr\<close>: the address in the network of the cluster, None on any failure.\<close>

definition c_addr :: "'w engine \<Rightarrow> (string \<times> pval \<times> pval \<Rightarrow> pval) \<Rightarrow> string \<Rightarrow> string \<Rightarrow> ('w, pval) io" where
  "c_addr E pick net h =
     catchS (bindS (c_interfaces E h) (\<lambda>ifs. bindS (e_net_name E net) (\<lambda>nm.
         retS (case List.find (\<lambda>i. fst i = nm) ifs of Some i \<Rightarrow> pick i | None \<Rightarrow> PNone))))
       (\<lambda>_. retS PNone)"

definition c_get_ip_addr :: "'w engine \<Rightarrow> string \<Rightarrow> string \<Rightarrow> ('w, pval) io" where
  "c_get_ip_addr E = c_addr E (\<lambda>i. fst (snd i))"

definition c_get_ipv6_addr :: "'w engine \<Rightarrow> string \<Rightarrow> string \<Rightarrow> ('w, pval) io" where
  "c_get_ipv6_addr E = c_addr E (\<lambda>i. snd (snd i))"

definition c_config :: "'w engine \<Rightarrow> string \<Rightarrow> string \<Rightarrow> ('w, pval) io" where
  "c_config E k h = bindS (e_attrs E h) (\<lambda>a. liftE (bindE (p_index a ''Config'') (\<lambda>c. p_index c k)))"

definition c_get_hostname :: "'w engine \<Rightarrow> string \<Rightarrow> ('w, string) io" where
  "c_get_hostname E h = bindS (c_config E ''Hostname'' h) (\<lambda>v. liftE (p_string v))"

definition c_get_env :: "'w engine \<Rightarrow> string \<Rightarrow> ('w, pval) io" where
  "c_get_env E h = c_config E ''Env'' h"

definition c_get_host :: "'w engine \<Rightarrow> client \<Rightarrow> ('w, pval) io" where
  "c_get_host E cl = bindS (e_info E cl) (\<lambda>i. liftE (bindE (p_index i ''Swarm'') (\<lambda>s. p_index s ''NodeAddr'')))"

definition c_get_aliases :: "'w engine \<Rightarrow> pval dict \<Rightarrow> string \<Rightarrow> ('w, pval) io" where
  "c_get_aliases E node_aliases h = bindS (c_get_hostname E h) (\<lambda>n. retS (dget_or node_aliases n (PList [])))"

text \<open>\<open>Container(obj, cluster)\<close>: the base class insists on a cluster.\<close>

definition c_init :: "'a option \<Rightarrow> string \<Rightarrow> string res" where
  "c_init cluster h = (if cluster = None then Inl (TypeError ''`clutser` must be a subclass of LDMSDCluster'') else Inr h)"

text \<open>The operations that the cluster uses; \<open>read_file\<close> has no parameter \<open>user\<close>.\<close>

definition docker_cops :: "'w engine \<Rightarrow> ('w, string) cops" where
  "docker_cops E = \<lparr>x_exec = c_exec_run E, x_write = c_write_file E,
     x_read = (\<lambda>h path user. case user of
         None \<Rightarrow> c_read_file E h path
       | Some _ \<Rightarrow> raiseS (TypeError ''read_file() got an unexpected keyword argument user''))\<rparr>"

section \<open>Clients and networks\<close>

definition get_docker_clients :: "'w engine \<Rightarrow> ('w, client list) io" where
  "get_docker_clients E =
     bindS (e_hosts E) (\<lambda>addrs. let as = sort addrs in
       retS (if length as = 1 then [Local] else map (\<lambda>a. Tcp (''tcp://'' @ a @ '':2375'')) as))"

record network =
  nw_obj :: string
  nw_clients :: "client list"
  nw_net4 :: "ipnet option"
  nw_net6 :: "ipnet option"

definition shared_grep :: "'w engine \<Rightarrow> pval \<Rightarrow> ('w, pval list) io" where
  "shared_grep E attrs =
     bindS (e_grep E) (\<lambda>st. bindS (liftE (attr_grep_shared attrs ''subnet'' st)) (\<lambda>(l, st').
       seqS (e_set_grep E st') (retS l)))"

definition network_init :: "'w engine \<Rightarrow> string \<Rightarrow> ('w, network) io" where
  "network_init E obj =
     bindS (get_docker_clients E) (\<lambda>cls.
     bindS (e_net_attrs E obj) (\<lambda>attrs.
     bindS (shared_grep E attrs) (\<lambda>l.
     bindS (liftE (pick_nets l)) (\<lambda>(n4, n6).
       retS \<lparr>nw_obj = obj, nw_clients = cls, nw_net4 = n4, nw_net6 = n6\<rparr>))))"

definition all_net_attrs :: "'w engine \<Rightarrow> ('w, pval list) io" where
  "all_net_attrs E = bindS (e_networks E Local) (mapS (e_net_attrs E))"

definition next_subnet_io :: "'w engine \<Rightarrow> (pval list \<Rightarrow> pval list \<Rightarrow> (ipnet \<times> pval list) res) \<Rightarrow> ('w, ipnet) io" where
  "next_subnet_io E f =
     bindS (all_net_attrs E) (\<lambda>attrs. bindS (e_grep E) (\<lambda>st.
     bindS (liftE (f attrs st)) (\<lambda>(n, st'). seqS (e_set_grep E st') (retS n))))"

text \<open>\<open>str(ip_address(n))\<close>.\<close>

definition str_ip :: "nat \<Rightarrow> string" where
  "str_ip n = (if n < 2 ^ 32 then str4 n else str6 n)"

definition ipam_pool :: "string \<Rightarrow> string \<Rightarrow> string option \<Rightarrow> pval" where
  "ipam_pool subnet iprange gateway =
     PDict ([(''subnet'', PStr subnet), (''iprange'', PStr iprange)] @
       (case gateway of Some g \<Rightarrow> [(''gateway'', PStr g)] | None \<Rightarrow> []))"

definition net_params :: "string \<Rightarrow> pval dict \<Rightarrow> bool \<Rightarrow> pval dict" where
  "net_params name labels ipv6 =
     [(''name'', PStr name), (''driver'', PStr ''overlay''), (''scope'', PStr ''swarm''), (''attachable'', PBool True),
      (''labels'', PDict labels), (''enable_ipv6'', PBool ipv6)]"

definition subnet_pool :: "string \<Rightarrow> pval res" where
  "subnet_pool subnet =
     bindE (ip_network subnet) (\<lambda>n. let (gw, r) = pool_range n in
       if broadcast_address n = 0 then Inl (ValueError ''-1 does not appear to be an IPv4 or IPv6 address'')
       else Inr (PList [ipam_pool subnet (str_ip r @ ''/30'') (Some (str_ip gw))]))"

definition network_create :: "'w engine \<Rightarrow> string \<Rightarrow> pval dict \<Rightarrow> string option \<Rightarrow> bool \<Rightarrow> ('w, network) io" where
  "network_create E name labels subnet ipv6 =
     bindS
       (catchS
         (bindS
           (case subnet of
              Some s \<Rightarrow> bindS (liftE (subnet_pool s)) (\<lambda>p. retS (Some p))
            | None \<Rightarrow>
                if ipv6 then
                  bindS (next_subnet_io E next_ipv6_subnet) (\<lambda>n6.
                  bindS (next_subnet_io E next_ipv4_subnet) (\<lambda>n4.
                    retS (Some (PList [ipam_pool (str_net n4) (str_addr n4 @ ''/24'') None,
                                       ipam_pool (str_net n6) (str_addr n6 @ ''/120'') None]))))
                else retS None)
           (\<lambda>pool. e_net_create E Local (net_params name labels ipv6 @
              (case pool of Some p \<Rightarrow> [(''ipam'', p)] | None \<Rightarrow> []))))
         (\<lambda>e. case e of
             OtherError c m \<Rightarrow>
               if c = ''APIError 409'' then
                 raiseS (RuntimeError (m @ ''. This could be an artifact from previous run. To remove the network, all docker objects using net network must be remvoed first (e.g. service, container). Then, remove the network with `docker network rm '' @ name @ ''`.''))
               else raiseS e
           | _ \<Rightarrow> raiseS e))
       (\<lambda>obj. seqS (e_sleep E 5000) (network_init E obj))"

text \<open>
  \<open>Network(obj)\<close> is either applied to a network of the docker library or to a wrapper; the
  latter is a \<open>TypeError\<close>. \<open>Network.create\<close> returns a wrapper.
\<close>

definition wrap_network :: "'w engine \<Rightarrow> string + network \<Rightarrow> ('w, network) io" where
  "wrap_network E obj =
     (case obj of Inl o' \<Rightarrow> network_init E o' | Inr _ \<Rightarrow> raiseS (TypeError ''obj is not a docker Network object''))"

definition network_get :: "'w engine \<Rightarrow> string \<Rightarrow> bool \<Rightarrow> pval dict \<Rightarrow> string option \<Rightarrow> bool \<Rightarrow> ('w, network) io" where
  "network_get E name create labels subnet ipv6 =
     bindS
       (catchS (bindS (e_net_get E Local name) (\<lambda>o'. retS (Inl o')))
         (\<lambda>e. case e of
             OtherError c m \<Rightarrow>
               if c = ''NotFound'' \<and> create then bindS (network_create E name labels subnet ipv6) (\<lambda>n. retS (Inr n))
               else raiseS e
           | _ \<Rightarrow> raiseS e))
       (wrap_network E)"

definition not_found :: "pyerr \<Rightarrow> bool" where
  "not_found e = (case e of OtherError c m \<Rightarrow> c = ''NotFound'' | _ \<Rightarrow> False)"

text \<open>\<open>Network.containers\<close>: the containers are wrapped without a cluster.\<close>

definition network_containers :: "'w engine \<Rightarrow> network \<Rightarrow> ('w, string list) io" where
  "network_containers E n =
     bindS (e_net_name E (nw_obj n)) (\<lambda>nm.
     bindS (mapS (\<lambda>cl.
         bindS (catchS (bindS (e_net_get E cl nm) (\<lambda>o'. retS (Some o')))
                  (\<lambda>e. if not_found e then retS None else raiseS e)) (\<lambda>obj.
         case obj of
           None \<Rightarrow> retS []
         | Some o' \<Rightarrow>
             bindS (e_net_attrs E o') (\<lambda>attrs.
             bindS (liftE (p_index attrs ''Containers'')) (\<lambda>cs.
             bindS (liftE (p_iter (if truthy cs then cs else PDict []))) (\<lambda>ids.
             bindS (mapS (\<lambda>i.
                 catchS (bindS (liftE (p_string i)) (\<lambda>s. bindS (e_cont_get E cl s) (\<lambda>h. bindS (liftE (c_init (None :: unit option) h)) (\<lambda>c. retS [c]))))
                   (\<lambda>e. if not_found e then retS [] else raiseS e)) ids) (\<lambda>l. retS (concat l))))))) (nw_clients n))
       (\<lambda>ls. retS (concat ls)))"

definition network_connect :: "'w engine \<Rightarrow> network \<Rightarrow> string \<Rightarrow> string option \<Rightarrow> ('w, unit) io" where
  "network_connect E n h addr = seqS (e_net_connect E (nw_obj n) h addr) (e_sleep E 1000)"

end
