(* ===== verification/DockerCluster.thy ===== *)
theory DockerCluster
  imports Docker
begin

text \<open>
  \<open>class DockerCluster\<close> of \<open>runtime/docker.py\<close>: creation of the virtual cluster from its plan
  (\<open>DockerAlloc\<close>) on the engine (\<open>Docker\<close>), finding it again, its containers and their names,
  waiting and removal. The specification and the aliases are kept as JSON texts in the labels of
  the network.
\<close>

section \<open>The order of container names\<close>

text \<open>
  \<open>LooseVersion\<close>: runs of digits as numbers, runs of lower-case letters, dots dropped, and what
  lies between; numbers and texts do not compare.
\<close>

datatype vpart = VNum nat | VStr string

definition is_lower :: "char \<Rightarrow> bool" where
  "is_lower c \<longleftrightarrow> 97 \<le> (of_char c :: nat) \<and> (of_char c :: nat) \<le> 122"

definition char_kind :: "char \<Rightarrow> nat" where
  "char_kind c = (if is_digit c then 0 else if is_lower c then 1 else if c = CHR ''.'' then 2 else 3)"

fun runs :: "nat \<Rightarrow> string \<Rightarrow> string \<Rightarrow> (nat \<times> string) list" where
  "runs k acc [] = (if acc = [] then [] else [(k, rev acc)])"
| "runs k acc (c # s) =
     (if acc \<noteq> [] \<and> char_kind c = k \<and> k \<noteq> 2 then runs k (c # acc) s
      else (if acc = [] then [] else [(k, rev acc)]) @ runs (char_kind c) [c] s)"

definition loose_version :: "string \<Rightarrow> vpart list" where
  "loose_version s =
     map (\<lambda>(k, t). if k = 0 then VNum (of_digits 10 t) else VStr t) (filter (\<lambda>(k, t). k \<noteq> 2) (runs 0 [] s))"

fun lv_lt :: "vpart list \<Rightarrow> vpart list \<Rightarrow> bool res" where
  "lv_lt [] ys = Inr (ys \<noteq> [])"
| "lv_lt (x # xs) [] = Inr False"
| "lv_lt (x # xs) (y # ys) =
     (if x = y then lv_lt xs ys
      else case (x, y) of
          (VNum a, VNum b) \<Rightarrow> Inr (a < b)
        | (VStr a, VStr b) \<Rightarrow> Inr (a < b)
        | _ \<Rightarrow> Inl (TypeError ''not supported between instances of int and str''))"

definition sort_by_version :: "(string \<times> 'a) list \<Rightarrow> (string \<times> 'a) list res" where
  "sort_by_version xs = py_sort (\<lambda>a b. lv_lt (loose_version (fst a)) (loose_version (fst b))) xs"

section \<open>The handle of a cluster\<close>

record cluster =
  cl_net :: network
  cl_labels :: "pval dict"

definition cluster_init :: "'w engine \<Rightarrow> string \<Rightarrow> ('w, cluster) io" where
  "cluster_init E obj =
     bindS (e_net_attrs E obj) (\<lambda>a.
     bindS (liftE (p_get a ''Labels'' PNone)) (\<lambda>l.
     bindS (liftE (case l of PDict d \<Rightarrow> Inr d | _ \<Rightarrow> Inl (TypeError ''argument is not iterable''))) (\<lambda>d.
       if dget d ''DockerCluster'' = None then raiseS (TypeError ''The network is not created by DockerCluster.'')
       else bindS (network_init E obj) (\<lambda>n. retS \<lparr>cl_net = n, cl_labels = d\<rparr>))))"

definition cl_get :: "'w engine \<Rightarrow> string \<Rightarrow> ('w, cluster) io" where
  "cl_get E name =
     catchS (bindS (e_net_get E Local name) (cluster_init E))
       (\<lambda>e. if not_found e then raiseS (LookupError []) else raiseS e)"

definition label_json :: "(string \<Rightarrow> string) \<Rightarrow> pval dict \<Rightarrow> string \<Rightarrow> pval res" where
  "label_json fl labels k = bindE (dindex labels k) (\<lambda>v. bindE (p_string v) (loads fl))"

definition get_node_aliases :: "(string \<Rightarrow> string) \<Rightarrow> pval dict \<Rightarrow> pval res" where
  "get_node_aliases fl labels = label_json fl labels ''node_aliases''"

definition get_spec :: "(string \<Rightarrow> string) \<Rightarrow> pval dict \<Rightarrow> pval res" where
  "get_spec fl labels = label_json fl labels ''LDMSDCluster.spec''"

text \<open>\<open>get_containers\<close>: of every client, those in the network, sorted by name.\<close>

definition in_net :: "string \<Rightarrow> pval \<Rightarrow> bool res" where
  "in_net nm attrs =
     bindE (p_index attrs ''NetworkSettings'') (\<lambda>s. bindE (p_index s ''Networks'') (\<lambda>n.
     bindE (p_get n nm PNone) (\<lambda>v. Inr (truthy v))))"

definition get_containers :: "'w engine \<Rightarrow> cluster \<Rightarrow> ('w, string list) io" where
  "get_containers E cl =
     bindS (get_docker_clients E) (\<lambda>clients.
     bindS (e_net_name E (nw_obj (cl_net cl))) (\<lambda>nm.
     bindS (mapS (\<lambda>c. bindS (e_conts E c) (\<lambda>hs. bindS (mapS (\<lambda>h. bindS (e_attrs E h) (\<lambda>a.
         bindS (liftE (in_net nm a)) (\<lambda>b. retS (if b then [h] else [])))) hs) (\<lambda>l. retS (concat l)))) clients) (\<lambda>ls.
     bindS (mapS (\<lambda>h. bindS (e_name E h) (\<lambda>n. retS (n, h))) (concat ls)) (\<lambda>nhs.
     bindS (liftE (sort_by_version nhs)) (\<lambda>s. retS (map snd s))))))"

text \<open>What the shared code of the clusters sees of a container.\<close>

definition opt_string :: "pval \<Rightarrow> string option" where
  "opt_string v = (case v of PStr s \<Rightarrow> Some s | _ \<Rightarrow> None)"

definition to_cont :: "'w engine \<Rightarrow> cluster \<Rightarrow> pval dict \<Rightarrow> string \<Rightarrow> ('w, string cont) io" where
  "to_cont E cl aliases h =
     bindS (c_get_hostname E h) (\<lambda>hn.
     bindS (c_get_ip_addr E (nw_obj (cl_net cl)) h) (\<lambda>ip.
     bindS (c_get_ipv6_addr E (nw_obj (cl_net cl)) h) (\<lambda>ip6.
       retS \<lparr>co_id = h, co_hostname = hn, co_ip = opt_string ip, co_ip6 = opt_string ip6,
             co_aliases = dget_or aliases hn (PList [])\<rparr>)))"

text \<open>\<open>get_container\<close>: the table of hostnames and aliases.\<close>

definition cont_table :: "(string \<times> 'a) list \<Rightarrow> pval dict \<Rightarrow> 'a dict res" where
  "cont_table conts aliases =
     foldE (\<lambda>d (k, v). bindE (dindex d k) (\<lambda>c.
         bindE (case v of PStr s \<Rightarrow> Inr [v] | _ \<Rightarrow> p_iter v) (\<lambda>ns.
         foldE (\<lambda>d n. bindE (p_string n) (\<lambda>s. Inr (dset s c d))) d ns))) (dupdate [] conts) aliases"

definition get_container :: "(string \<times> 'a) list \<Rightarrow> pval dict \<Rightarrow> string \<Rightarrow> 'a option res" where
  "get_container conts aliases name = bindE (cont_table conts aliases) (\<lambda>d. Inr (dget d name))"

section \<open>Running and removing\<close>




definition cl_remove :: "'w engine \<Rightarrow> cluster \<Rightarrow> string list \<Rightarrow> ('w, unit) io" where
  "cl_remove E cl conts =
     (let net = nw_obj (cl_net cl) in
      seqS (forS conts (e_net_disconnect E net))
        (seqS (e_net_remove E net) (forS conts (e_remove E))))"

definition cl_list :: "'w engine \<Rightarrow> ('w, cluster list) io" where
  "cl_list E =
     bindS (e_networks E Local) (\<lambda>ids.
     bindS (mapS (network_init E) ids) (\<lambda>nets.
     bindS (mapS (\<lambda>n. bindS (e_net_attrs E (nw_obj n)) (\<lambda>a. bindS (liftE (p_index a ''Labels'')) (\<lambda>l.
         if truthy l then bindS (liftE (p_get l ''DockerCluster'' PNone)) (\<lambda>v.
              if truthy v then bindS (cluster_init E (nw_obj n)) (\<lambda>c. retS [c]) else retS [])
         else retS []))) nets) (\<lambda>cs. retS (concat cs))))"

section \<open>Creation\<close>

text \<open>
  One container: created, connected (with the next host address when a subnet is given; they may
  run out), given its start script, started. The \<open>while _retry\<close> loop around it runs once: it ends
  with \<open>break\<close> or with the exception.
\<close>

definition take_addr :: "nat list option \<Rightarrow> (string option \<times> nat list option) res" where
  "take_addr itr =
     (case itr of
        None \<Rightarrow> Inr (None, None)
      | Some [] \<Rightarrow> Inl (OtherError ''StopIteration'' [])
      | Some (a # as) \<Rightarrow> Inr (Some (str_ip a), Some as))"

definition create_one ::
  "'w engine \<Rightarrow> network \<Rightarrow> client \<Rightarrow> pval dict \<Rightarrow> nat list option \<Rightarrow> ('w, nat list option) io" where
  "create_one E net cl params itr =
     bindS (liftE (dindex params ''atstart'')) (\<lambda>atstart.
     bindS (e_cont_create E cl (dpop ''atstart'' params)) (\<lambda>h.
     bindS (liftE (take_addr itr)) (\<lambda>(addr, itr').
     seqS (network_connect E net h addr)
     (seqS (whenS (truthy atstart) (e_put_atstart E h atstart))
     (seqS (e_start E h)
     (seqS (if truthy atstart then bindS (e_exec E h (PStr ''/bin/bash /atstart.sh'') PNone PNone) (\<lambda>_. retS ()) else retS ())
     (retS itr')))))))"

text \<open>After the first one: wait until the network shows the container of the swarm as well.\<close>

fun wait_swarm :: "'w engine \<Rightarrow> string \<Rightarrow> nat \<Rightarrow> ('w, unit) io" where
  "wait_swarm E net 0 = retS ()"
| "wait_swarm E net (Suc n) =
     seqS (e_sleep E 1000) (seqS (e_net_reload E net) (bindS (e_net_attrs E net) (\<lambda>a.
     bindS (liftE (bindE (p_index a ''Containers'') (\<lambda>c. case c of PNone \<Rightarrow> Inl (TypeError ''object has no len()'') | _ \<Rightarrow> p_iter c))) (\<lambda>l.
       if 1 < length l then retS () else wait_swarm E net n))))"

fun create_all ::
  "'w engine \<Rightarrow> network \<Rightarrow> bool \<Rightarrow> nat list option \<Rightarrow> (client \<times> pval dict) list \<Rightarrow> ('w, unit) io" where
  "create_all E net first itr [] = retS ()"
| "create_all E net first itr ((cl, params) # rest) =
     bindS (create_one E net cl params itr) (\<lambda>itr'.
     seqS (whenS first (wait_swarm E (nw_obj net) 10)) (create_all E net False itr' rest))"

text \<open>
  \<open>DockerCluster._create(spec)\<close>. The containers of the new cluster are listed once for
  \<open>update_etc_hosts\<close>; \<open>atstart\<close> is the configured start script, \<open>tz\<close> the time zone of the host.
\<close>

definition client_info :: "'w engine \<Rightarrow> client \<Rightarrow> ('w, nat \<times> string) io" where
  "client_info E cl =
     bindS (e_info E cl) (\<lambda>i.
     bindS (liftE (bindE (p_index i ''ContainersRunning'') (\<lambda>v. case v of PInt n \<Rightarrow> Inr (nat n) | _ \<Rightarrow> Inl (TypeError ''number'')))) (\<lambda>n.
     bindS (liftE (bindE (p_index i ''Name'') p_string)) (\<lambda>s. retS (n, s))))"

definition cl_create ::
  "'w engine \<Rightarrow> (string \<Rightarrow> string) \<Rightarrow> string \<Rightarrow> pval \<Rightarrow> (string \<Rightarrow> string list) \<Rightarrow> pval dict \<Rightarrow> ('w, cluster) io" where
  "cl_create E fl tz atstart glob spec =
     bindS (liftE (spec_to_kwargs glob spec)) (\<lambda>a.
     bindS (get_docker_clients E) (\<lambda>clients.
     bindS (mapS (client_info E) clients) (\<lambda>infos.
     bindS (liftE (create_plan tz atstart infos a (Some spec))) (\<lambda>p.
     bindS (network_create E (k_name a) (pl_labels p)
              (if truthy (k_subnet a) then Some (py_str (k_subnet a)) else None) (truthy (dget_or spec ''ipv6'' (PBool False)))) (\<lambda>net.
     bindS (liftE (if truthy (k_subnet a) then bindE (ip_network_of (k_subnet a)) (\<lambda>n. Inr (Some (hosts n))) else Inr None)) (\<lambda>itr.
     seqS (create_all E net True itr (map (\<lambda>(c, q). (clients ! c, q)) (pl_conts p)))
     (bindS (cluster_init E (nw_obj net)) (\<lambda>cl.
      bindS (liftE (bindE (get_spec fl (cl_labels cl)) p_dict)) (\<lambda>sp.
      bindS (get_containers E cl) (\<lambda>hs.
      bindS (liftE (bindE (get_node_aliases fl (cl_labels cl)) p_dict)) (\<lambda>own.
      bindS (mapS (to_cont E cl own) hs) (\<lambda>conts.
      seqS (update_etc_hosts (docker_cops E) sp conts own (k_aliases a)) (retS cl)))))))))))))"

section \<open>The labels\<close>

lemma json_ok_dget: "json_ok fl (PDict d) \<Longrightarrow> dget d k = Some v \<Longrightarrow> json_ok fl v"
  by (auto dest: map_of_SomeD)

lemma by_hostname_ok:
  assumes "by_hostname k nodes = Inr d" "\<forall>n \<in> set nodes. json_ok fl n"
  shows "json_ok fl (PDict d)"
proof -
  have "distinct (dkeys d) \<and> (\<forall>(j, v) \<in> set d. json_ok fl v)"
  proof (rule foldE_invariant [OF assms(1) [unfolded by_hostname_def]])
    fix d node d'
    assume n: "node \<in> set nodes" and d: "distinct (dkeys d) \<and> (\<forall>(j, v) \<in> set d. json_ok fl v)"
      and st: "bindE (p_get node k PNone) (\<lambda>v. if truthy v then bindE (hostname_of node) (\<lambda>h. Inr (dset h v d)) else Inr d) = Inr d'"
    from st obtain v where v: "p_get node k PNone = Inr v"
      and r: "(if truthy v then bindE (hostname_of node) (\<lambda>h. Inr (dset h v d)) else Inr d) = Inr d'" by (auto simp: res_simps)
    from v obtain nd where nd: "node = PDict nd" "v = dget_or nd k PNone" by (auto simp: p_get_def split: pval.splits)
    have jv: "json_ok fl v"
      using assms(2) n nd json_ok_dget [of fl nd k] by (auto simp: dget_or_def split: option.splits)
    show "distinct (dkeys d') \<and> (\<forall>(j, v) \<in> set d'. json_ok fl v)"
    proof (cases "truthy v")
      case True
      with r obtain h where "d' = dset h v d" by (auto simp: res_simps)
      with d jv dset_items dset_distinct show ?thesis by fast
    next
      case False
      with r d show ?thesis by simp
    qed
  qed simp
  then show ?thesis by simp
qed

lemma p_iter_ok: "p_iter v = Inr l \<Longrightarrow> json_ok fl v \<Longrightarrow> \<forall>x \<in> set l. json_ok fl x"
  by (cases v) (auto simp: p_iter_def)

lemma kwargs_aliases_ok:
  assumes "spec_to_kwargs glob spec = Inr a" "json_ok fl (PDict spec)"
  shows "json_ok fl (PDict (k_aliases a)) \<and> k_labels a = [(''LDMSDCluster.spec'', PStr (dumps (PDict spec)))]"
proof -
  from assms(1) obtain v nodes al where v: "dindex spec ''nodes'' = Inr v" "p_iter v = Inr nodes"
    and al: "by_hostname ''aliases'' nodes = Inr al"
    and a: "k_aliases a = al" "k_labels a = [(''LDMSDCluster.spec'', PStr (dumps (PDict spec)))]"
    unfolding spec_to_kwargs_def Let_def by (auto simp: res_simps)
  from v(1) have "dget spec ''nodes'' = Some v" by (auto simp: dindex_def split: option.splits)
  with json_ok_dget [OF assms(2)] have "json_ok fl v" by blast
  from p_iter_ok [OF v(2) this] have "\<forall>n \<in> set nodes. json_ok fl n" .
  from by_hostname_ok [OF al this] a show ?thesis by simp
qed

lemma plan_labels:
  assumes "create_plan tz atstart infos a sp = Inr p"
  shows "\<exists>t. pl_labels p = dset ''cont_build'' t (dupdate (k_labels a)
    [(''node_aliases'', PStr (dumps (PDict (k_aliases a)))), (''DockerCluster'', dget_or (pl_labels p) ''DockerCluster'' PNone)])"
proof -
  let ?na = "PStr (dumps (PDict (k_aliases a)))"
  from assms obtain t c where "pl_labels p = dset ''cont_build'' t (dupdate (k_labels a) [(''node_aliases'', ?na), (''DockerCluster'', c)])"
    unfolding create_plan_def Let_def by (auto simp: res_simps)
  moreover from this have "dget (pl_labels p) ''DockerCluster'' = Some c"
    by (simp add: dset_get dupdate_get)
  ultimately show ?thesis by (auto simp: dget_or_def)
qed

section \<open>Waiting\<close>





section \<open>Names of containers\<close>

lemma cont_table_names:
  assumes "foldE (\<lambda>d n. bindE (p_string n) (\<lambda>s. Inr (dset s c d))) d ns = Inr d'"
  shows "dget d' j = (if PStr j \<in> set ns then Some c else dget d j)"
  using assms
proof (induction ns arbitrary: d)
  case (Cons n ns)
  from Cons.prems obtain s where s: "n = PStr s" "foldE (\<lambda>d n. bindE (p_string n) (\<lambda>s. Inr (dset s c d))) (dset s c d) ns = Inr d'"
    by (cases n) (auto simp: p_string_def)
  from Cons.IH [OF s(2)] s(1) show ?case by (auto simp: dset_get)
qed simp

definition alias_names :: "pval \<Rightarrow> pval list" where
  "alias_names v = (case v of PStr s \<Rightarrow> [v] | _ \<Rightarrow> (case p_iter v of Inr l \<Rightarrow> l | Inl _ \<Rightarrow> []))"

definition add_names :: "'a dict \<Rightarrow> string \<times> pval \<Rightarrow> 'a dict res" where
  "add_names d = (\<lambda>(k, v). bindE (dindex d k) (\<lambda>c.
     bindE (case v of PStr s \<Rightarrow> Inr [v] | _ \<Rightarrow> p_iter v) (\<lambda>ns.
     foldE (\<lambda>d n. bindE (p_string n) (\<lambda>s. Inr (dset s c d))) d ns)))"

abbreviation all_names :: "pval dict \<Rightarrow> pval list" where
  "all_names al \<equiv> concat (map (\<lambda>p. alias_names (snd p)) al)"

lemma add_names_get:
  assumes "add_names d (k, v) = Inr d'"
  shows "\<exists>c. dget d k = Some c \<and> (\<forall>j. dget d' j = (if PStr j \<in> set (alias_names v) then Some c else dget d j))"
proof -
  from assms obtain c ns where c: "dindex d k = Inr c" "(case v of PStr s \<Rightarrow> Inr [v] | _ \<Rightarrow> p_iter v) = Inr ns"
    "foldE (\<lambda>d n. bindE (p_string n) (\<lambda>s. Inr (dset s c d))) d ns = Inr d'"
    by (auto simp: add_names_def res_simps)
  have "ns = alias_names v" using c(2) by (auto simp: alias_names_def split: pval.splits)
  moreover have "dget d k = Some c" using c(1) by (auto simp: dindex_def split: option.splits)
  ultimately show ?thesis using cont_table_names [OF c(3)] by blast
qed

lemma fold_add_names:
  assumes "foldE add_names d al = Inr d'" "distinct (all_names al)" "\<forall>(h, v) \<in> set al. PStr h \<notin> set (all_names al)"
  shows "(\<forall>j. PStr j \<notin> set (all_names al) \<longrightarrow> dget d' j = dget d j) \<and>
    (\<forall>(h, v) \<in> set al. \<forall>n. PStr n \<in> set (alias_names v) \<longrightarrow> dget d' n = dget d h)"
  using assms
proof (induction al arbitrary: d)
  case (Cons p al)
  obtain k v where p: "p = (k, v)" by force
  from Cons.prems(1) p obtain d1 where d1: "add_names d (k, v) = Inr d1" "foldE add_names d1 al = Inr d'"
    by (auto simp: res_simps)
  from add_names_get [OF d1(1)] obtain c where k: "dget d k = Some c"
    and g: "\<And>j. dget d1 j = (if PStr j \<in> set (alias_names v) then Some c else dget d j)" by blast
  have dj: "set (alias_names v) \<inter> set (all_names al) = {}" using Cons.prems(2) p by auto
  have "distinct (all_names al)" "\<forall>(h, v) \<in> set al. PStr h \<notin> set (all_names al)" using Cons.prems(2,3) by auto
  note IH = Cons.IH [OF d1(2) this]
  have "dget d' n = dget d h" if "(h, v') \<in> set (p # al)" "PStr n \<in> set (alias_names v')" for h v' n
  proof (cases "(h, v') = p")
    case True
    then have "PStr n \<notin> set (all_names al)" using dj that(2) p by auto
    with IH g [of n] True that(2) p k show ?thesis by auto
  next
    case False
    with that(1) have q: "(h, v') \<in> set al" by simp
    with IH that(2) have "dget d' n = dget d1 h" by blast
    moreover have "PStr h \<notin> set (alias_names v)" using Cons.prems(3) q p by auto
    ultimately show ?thesis using g [of h] by simp
  qed
  moreover have "dget d' j = dget d j" if "PStr j \<notin> set (all_names (p # al))" for j
    using that IH g [of j] p by auto
  ultimately show ?case by blast
qed simp

lemma cont_table_fold: "cont_table conts aliases = foldE add_names (dupdate [] conts) aliases"
  unfolding cont_table_def add_names_def [abs_def] ..

section \<open>Properties\<close>

text \<open>
  C8: a docker cluster remembers its specification. For a specification of JSON values, the
  labels that the creation plans for the network give back, by \<open>get_spec\<close> and
  \<open>get_node_aliases\<close>, exactly the specification and the aliases of its nodes; and the network
  is recognised as a cluster.
\<close>

theorem labels_keep_spec:
  assumes "json_ok fl (PDict spec)" "spec_to_kwargs glob spec = Inr a" "create_plan tz atstart infos a (Some spec) = Inr p"
  shows "get_spec fl (pl_labels p) = Inr (PDict spec) \<and> get_node_aliases fl (pl_labels p) = Inr (PDict (k_aliases a)) \<and>
    dget (pl_labels p) ''DockerCluster'' \<noteq> None"
proof -
  have al: "json_ok fl (PDict (k_aliases a))" and l: "k_labels a = [(''LDMSDCluster.spec'', PStr (dumps (PDict spec)))]"
    using kwargs_aliases_ok [OF assms(2,1)] by blast+
  obtain t c where p: "pl_labels p = dset ''cont_build'' t (dupdate (k_labels a)
      [(''node_aliases'', PStr (dumps (PDict (k_aliases a)))), (''DockerCluster'', c)])"
    using plan_labels [OF assms(3)] by blast
  have "dget (pl_labels p) ''LDMSDCluster.spec'' = Some (PStr (dumps (PDict spec)))"
    "dget (pl_labels p) ''node_aliases'' = Some (PStr (dumps (PDict (k_aliases a))))"
    "dget (pl_labels p) ''DockerCluster'' = Some c"
    unfolding p l by (simp_all add: dset_get dupdate_get)
  with loads_dumps [OF assms(1)] loads_dumps [OF al] show ?thesis
    by (simp add: get_spec_def get_node_aliases_def label_json_def dindex_def p_string_def del: dumps.simps)
qed

definition demo_spec :: "pval dict" where
  "demo_spec = [(''name'', PStr ''c1''), (''nodes'', PList [PDict [(''hostname'', PStr ''n1''), (''aliases'', PList [PStr ''head''])]])]"

theorem labels_keep_spec_witness:
  "\<exists>a p. spec_to_kwargs (\<lambda>_. []) demo_spec = Inr a \<and> create_plan ''UTC'' PNone [(0, ''h'')] a (Some demo_spec) = Inr p \<and>
    get_spec id (pl_labels p) = Inr (PDict demo_spec) \<and>
    get_node_aliases id (pl_labels p) = Inr (PDict [(''n1'', PList [PStr ''head''])])"
proof -
  obtain a where a: "spec_to_kwargs (\<lambda>_. []) demo_spec = Inr a" "k_aliases a = [(''n1'', PList [PStr ''head''])]"
    "k_mounts a = []"
    by (simp add: spec_to_kwargs_def demo_spec_def dindex_def p_string_def p_iter_def dget_or_def hostname_of_def p_index_def
        by_hostname_def p_get_def env_dict_def Let_def)
  have "volumes_of (k_mounts a) = Inr []" by (simp add: a(3) volumes_of_def)
  moreover have "\<exists>tbl. allocate [(0, 0 :: nat)] n = Inr tbl \<and> total tbl = n" for n
    using allocate_spec [of "[(0, 0)]" n] by blast
  then obtain tbl where "allocate [(0, 0 :: nat)] (length (k_nodes a)) = Inr tbl" "total tbl = length (k_nodes a)" by blast
  moreover from assign_ok [OF this(2)] obtain r where "assign tbl (k_nodes a) = Inr r" by blast
  ultimately obtain p where p: "create_plan ''UTC'' PNone [(0, ''h'')] a (Some demo_spec) = Inr p"
    by (simp add: create_plan_def Let_def)
  have "json_ok id (PDict demo_spec)" by (simp add: demo_spec_def)
  from labels_keep_spec [OF this a(1) p] a p show ?thesis by auto
qed


text \<open>An engine with nothing but a clock: every other call fails.\<close>

definition idle_engine :: "int engine" where
  "idle_engine =
     (let f = raiseS (RuntimeError ''no engine'') in
      \<lparr>e_now = getS id, e_sleep = (\<lambda>ms. updS (\<lambda>t. t + \<bar>ms\<bar>)), e_grep = retS [], e_set_grep = (\<lambda>_. retS ()),
       e_hosts = retS [], e_info = (\<lambda>_. raiseS IndexError), e_networks = (\<lambda>_. retS []), e_net_get = (\<lambda>_ _. raiseS IndexError),
       e_net_create = (\<lambda>_ _. raiseS IndexError), e_net_attrs = (\<lambda>_. raiseS IndexError), e_net_name = (\<lambda>_. raiseS IndexError),
       e_net_reload = (\<lambda>_. f), e_net_remove = (\<lambda>_. f), e_net_connect = (\<lambda>_ _ _. f), e_net_disconnect = (\<lambda>_ _. f),
       e_conts = (\<lambda>_. retS []), e_cont_get = (\<lambda>_ _. raiseS IndexError), e_cont_create = (\<lambda>_ _. raiseS IndexError),
       e_attrs = (\<lambda>_. raiseS IndexError), e_name = (\<lambda>_. raiseS IndexError), e_reload = (\<lambda>_. retS ()), e_start = (\<lambda>_. f),
       e_stop = (\<lambda>_. f), e_remove = (\<lambda>_. f), e_put_atstart = (\<lambda>_ _. f), e_exec = (\<lambda>_ _ _ _. raiseS IndexError),
       e_open = (\<lambda>_ _ _. raiseS IndexError), e_send = (\<lambda>_ _. raiseS IndexError), e_shut = (\<lambda>_. f),
       e_recv = (\<lambda>_. raiseS IndexError), e_close = (\<lambda>_. f)\<rparr>)"



text \<open>
  The names of a cluster lead to its containers. When hostnames and aliases are pairwise
  different and the table can be built, \<open>get_container\<close> finds every container by its hostname
  and by each of its aliases, and finds nothing under any other name.
\<close>

lemma get_container_resolves:
  assumes "cont_table conts aliases = Inr d" "distinct (map PStr (dkeys conts) @ all_names aliases)"
    "set (dkeys aliases) \<subseteq> set (dkeys conts)"
  shows "(\<forall>(h, c) \<in> set conts. get_container conts aliases h = Inr (Some c)) \<and>
    (\<forall>(h, v) \<in> set aliases. \<forall>n. PStr n \<in> set (alias_names v) \<longrightarrow> get_container conts aliases n = Inr (dget conts h)) \<and>
    (\<forall>n. PStr n \<notin> set (map PStr (dkeys conts) @ all_names aliases) \<longrightarrow> get_container conts aliases n = Inr None)"
proof -
  have g: "get_container conts aliases n = Inr (dget d n)" for n using assms(1) by (simp add: get_container_def)
  have "distinct (map PStr (dkeys conts))" using assms(2) unfolding distinct_append by blast
  then have dc: "distinct (dkeys conts)" by (simp only: distinct_map)
  have base: "dget (dupdate [] conts) j = dget conts j" for j using dupdate_Nil_id [OF dc] by simp
  have "\<forall>(h, v) \<in> set aliases. PStr h \<notin> set (all_names aliases)" using assms(2,3) by force
  with assms(2) have F: "(\<forall>j. PStr j \<notin> set (all_names aliases) \<longrightarrow> dget d j = dget conts j) \<and>
    (\<forall>(h, v) \<in> set aliases. \<forall>n. PStr n \<in> set (alias_names v) \<longrightarrow> dget d n = dget conts h)"
    using fold_add_names [OF assms(1) [unfolded cont_table_fold]] unfolding base by simp
  have "dget d h = Some c" if "(h, c) \<in> set conts" for h c
  proof -
    have "PStr h \<notin> set (all_names aliases)" using assms(2) that by force
    with F dget_item [OF dc, of h c] that show ?thesis by simp
  qed
  moreover have "dget d n = None" if "PStr n \<notin> set (map PStr (dkeys conts) @ all_names aliases)" for n
    using F that by (simp add: dget_None_iff) blast
  ultimately show ?thesis using F g by auto
qed

lemma get_container_resolves_instance:
  "get_container [(''n1'', 1 :: nat), (''n2'', 2)] [(''n2'', PList [PStr ''head'', PStr ''svc''])] ''svc'' = Inr (Some 2)"
proof -
  have "\<exists>d. cont_table [(''n1'', 1 :: nat), (''n2'', 2)] [(''n2'', PList [PStr ''head'', PStr ''svc''])] = Inr d"
    by (simp add: cont_table_def dupdate_def dindex_def p_iter_def p_string_def)
  then obtain d where "cont_table [(''n1'', 1 :: nat), (''n2'', 2)] [(''n2'', PList [PStr ''head'', PStr ''svc''])] = Inr d" ..
  from get_container_resolves [OF this] show ?thesis by (simp add: alias_names_def p_iter_def)
qed

text \<open>
  The library wrappers refuse what the code gives them. \<open>Network.get\<close> with \<open>create\<close> creates
  the missing network and then always raises, since it wraps the wrapper that \<open>create\<close> returned;
  and \<open>Container\<close> without a cluster, as \<open>Network.containers\<close> builds it, always raises.
\<close>

lemma network_get_never_creates:
  assumes "e_net_get E Local name w = Some (Inl (OtherError ''NotFound'' m), w1)"
    and "network_create E name labels subnet ipv6 w1 = Some (Inr n, w2)"
  shows "network_get E name True labels subnet ipv6 w = Some (Inl (TypeError ''obj is not a docker Network object''), w2) \<and>
    network_get E name False labels subnet ipv6 w = Some (Inl (OtherError ''NotFound'' m), w1) \<and>
    (\<forall>h. \<exists>e. c_init (None :: unit option) h = Inl e)"
  using assms by (simp add: network_get_def wrap_network_def c_init_def io_simps)

definition fresh_engine :: "int engine" where
  "fresh_engine = idle_engine\<lparr>e_net_get := (\<lambda>_ _. raiseS (OtherError ''NotFound'' [])), e_net_create := (\<lambda>_ _. retS ''net''),
     e_net_attrs := (\<lambda>_. retS (PDict []))\<rparr>"

lemma network_get_never_creates_instance:
  "\<exists>w. network_get fresh_engine ''c1'' True [] None False 0 = Some (Inl (TypeError ''obj is not a docker Network object''), w)"
proof -
  have g: "e_net_get fresh_engine Local ''c1'' 0 = Some (Inl (OtherError ''NotFound'' []), 0)"
    by (simp add: fresh_engine_def io_simps)
  have c: "network_create fresh_engine ''c1'' [] None False 0 =
      Some (Inr \<lparr>nw_obj = ''net'', nw_clients = [], nw_net4 = None, nw_net6 = None\<rparr>, 5000)"
    by (simp add: network_create_def network_init_def get_docker_clients_def shared_grep_def attr_grep_shared_def
        pick_nets_def fresh_engine_def idle_engine_def io_simps Let_def)
  from network_get_never_creates [OF g c] show ?thesis by blast
qed

end
