(* ===== verification/Heapq.thy ===== *)
theory Heapq
  imports Prelude
begin

text \<open>
  The heap of hosts with which \<open>SCluster._create\<close> (\<open>runtime/singularity.py\<close>) places nodes on
  the least busy host: \<open>heapify\<close> and \<open>heapreplace\<close> of Python's \<open>heapq\<close> on lists, and the
  placement itself. What the placement needs of the heap is the interface \<open>least_loaded\<close>,
  specified by the multiset of the entries; the heap is one provider of it.
\<close>

section \<open>The interface\<close>

text \<open>An entry: a host, and the containers on it (running ones and newly placed nodes).\<close>

type_synonym 'n hentry = "string \<times> 'n list"

abbreviation busy :: "'n hentry \<Rightarrow> nat" where
  "busy e \<equiv> length (snd e)"

text \<open>
  \<open>top\<close> is the entry the next node goes to; \<open>replace q e\<close> puts \<open>e\<close> in its place.
\<close>

locale least_loaded =
  fixes ok :: "'q \<Rightarrow> bool"
    and items :: "'q \<Rightarrow> 'n hentry multiset"
    and top :: "'q \<Rightarrow> 'n hentry"
    and replace :: "'q \<Rightarrow> 'n hentry \<Rightarrow> 'q"
  assumes top_in: "ok q \<Longrightarrow> items q \<noteq> {#} \<Longrightarrow> top q \<in># items q"
    and top_min: "ok q \<Longrightarrow> e \<in># items q \<Longrightarrow> busy (top q) \<le> busy e"
    and replace_items: "ok q \<Longrightarrow> items q \<noteq> {#} \<Longrightarrow> items (replace q e) = add_mset e (items q - {#top q#})"
    and replace_ok: "ok q \<Longrightarrow> items q \<noteq> {#} \<Longrightarrow> ok (replace q e)"
begin

text \<open>The loop over the nodes: each goes to the top entry, which takes its new place.\<close>

primrec place :: "'q \<Rightarrow> 'n list \<Rightarrow> (string \<times> 'n) list \<times> 'q" where
  "place q [] = ([], q)"
| "place q (n # ns) =
     (let e = top q; (r, q') = place (replace q (fst e, snd e @ [n])) ns in ((fst e, n) # r, q'))"

text \<open>Hosts that got a node are at most one container ahead of every other host.\<close>

definition level :: "string set \<Rightarrow> 'n hentry multiset \<Rightarrow> bool" where
  "level got es \<longleftrightarrow> (\<forall>e \<in># es. \<forall>e' \<in># es. fst e \<in> got \<longrightarrow> busy e \<le> busy e' + 1)"

definition one_each :: "'n hentry multiset \<Rightarrow> bool" where
  "one_each es \<longleftrightarrow> (\<forall>h. count (image_mset fst es) h \<le> 1)"

lemma items_split: "ok q \<Longrightarrow> items q \<noteq> {#} \<Longrightarrow> items q = add_mset (top q) (items q - {#top q#})"
  using top_in by simp

lemma hosts_replace:
  assumes "ok q" "items q \<noteq> {#}"
  shows "image_mset fst (items (replace q (fst (top q), x))) = image_mset fst (items q)"
proof -
  have "image_mset fst (items q) = add_mset (fst (top q)) (image_mset fst (items q - {#top q#}))"
    by (subst items_split [OF assms]) simp
  then show ?thesis using replace_items [OF assms] by simp
qed

lemma other_hosts:
  assumes "ok q" "items q \<noteq> {#}" "one_each (items q)" "e \<in># items q - {#top q#}"
  shows "e \<in># items q" "fst e \<noteq> fst (top q)"
proof -
  show "e \<in># items q" using assms(4) by (rule in_diffD)
  have "image_mset fst (items q) = add_mset (fst (top q)) (image_mset fst (items q - {#top q#}))"
    by (subst items_split [OF assms(1,2)]) simp
  then have "count (image_mset fst (items q)) (fst (top q)) = Suc (count (image_mset fst (items q - {#top q#})) (fst (top q)))"
    by (simp only: count_add_mset if_True simp_thms)
  moreover have "count (image_mset fst (items q)) (fst (top q)) \<le> 1" using assms(3) unfolding one_each_def by blast
  ultimately have "count (image_mset fst (items q - {#top q#})) (fst (top q)) = 0" by linarith
  then have "fst (top q) \<notin># image_mset fst (items q - {#top q#})" by (simp only: not_in_iff)
  with assms(4) show "fst e \<noteq> fst (top q)" by (metis image_eqI set_image_mset)
qed

lemma level_replace:
  assumes "ok q" "items q \<noteq> {#}" "level got (items q)" "one_each (items q)"
  shows "level (insert (fst (top q)) got) (items (replace q (fst (top q), snd (top q) @ [n])))"
proof -
  let ?t = "top q" and ?t' = "(fst (top q), snd (top q) @ [n])"
  let ?rest = "items q - {#?t#}"
  have r: "items (replace q ?t') = add_mset ?t' ?rest" by (rule replace_items [OF assms(1,2)])
  note rest = other_hosts [OF assms(1,2,4)]
  note tin = top_in [OF assms(1,2)]
  show ?thesis
    unfolding r level_def
  proof (intro ballI impI)
    fix e e' assume e: "e \<in># add_mset ?t' ?rest" and e': "e' \<in># add_mset ?t' ?rest"
      and g: "fst e \<in> insert (fst ?t) got"
    have "busy ?t \<le> busy ?t'" by simp
    moreover have "busy ?t \<le> busy e'" if "e' \<in># ?rest" using top_min [OF assms(1) rest(1) [OF that]] .
    ultimately have low: "busy ?t \<le> busy e'" using e' by (metis insert_iff set_mset_add_mset_insert)
    show "busy e \<le> busy e' + 1"
    proof (cases "e = ?t'")
      case True
      then show ?thesis using low by simp
    next
      case False
      with e have er: "e \<in># ?rest" by simp
      with rest(2) g have "fst e \<in> got" by auto
      with assms(3) rest(1) [OF er] have b: "\<forall>x \<in># items q. busy e \<le> busy x + 1" by (simp add: level_def)
      from e' consider "e' = ?t'" | "e' \<in># ?rest" by auto
      then show ?thesis
      proof cases
        case 1
        with b tin show ?thesis by fastforce
      next
        case 2
        with rest(1) b show ?thesis by blast
      qed
    qed
  qed
qed

lemma place_spec:
  assumes "ok q" "items q \<noteq> {#}" "level got (items q)" "one_each (items q)"
  shows "\<exists>r q'. place q ns = (r, q') \<and> map snd r = ns \<and> level (got \<union> set (map fst r)) (items q') \<and>
    image_mset fst (items q') = image_mset fst (items q) \<and> set (map fst r) \<subseteq> fst ` set_mset (items q) \<and>
    (\<forall>e' \<in># items q'. \<exists>e \<in># items q. fst e = fst e' \<and> snd e' = snd e @ map snd (filter (\<lambda>x. fst x = fst e) r))"
  using assms
proof (induction ns arbitrary: q got)
  case Nil
  then show ?case by auto
next
  case (Cons n ns)
  let ?t = "top q" and ?q = "replace q (fst (top q), snd (top q) @ [n])"
  note p = Cons.prems
  note it = items_split [OF p(1,2)] and ri = replace_items [OF p(1,2)]
  have h: "image_mset fst (items ?q) = image_mset fst (items q)" by (rule hosts_replace [OF p(1,2)])
  have ne: "items ?q \<noteq> {#}" using ri by simp
  have oe: "one_each (items ?q)" using p(4) h by (simp add: one_each_def)
  from Cons.IH [OF replace_ok [OF p(1,2)] ne level_replace [OF p] oe] obtain r q' where
    r: "place ?q ns = (r, q')" "map snd r = ns" "level (insert (fst ?t) got \<union> set (map fst r)) (items q')"
      "image_mset fst (items q') = image_mset fst (items ?q)" "set (map fst r) \<subseteq> fst ` set_mset (items ?q)"
      "\<forall>e' \<in># items q'. \<exists>e \<in># items ?q. fst e = fst e' \<and> snd e' = snd e @ map snd (filter (\<lambda>x. fst x = fst e) r)" by blast
  let ?r = "(fst ?t, n) # r"
  have c: "\<exists>e \<in># items q. fst e = fst e' \<and> snd e' = snd e @ map snd (filter (\<lambda>x. fst x = fst e) ?r)" if e': "e' \<in># items q'" for e'
  proof -
    from r(6) e' obtain e where e: "e \<in># items ?q" "fst e = fst e'" "snd e' = snd e @ map snd (filter (\<lambda>x. fst x = fst e) r)"
      by blast
    from e(1) ri consider "e = (fst ?t, snd ?t @ [n])" | "e \<in># items q - {#?t#}" by auto
    then show ?thesis
    proof cases
      case 1
      then show ?thesis using e(2,3) top_in [OF p(1,2)] by (intro bexI [of _ ?t]) simp_all
    next
      case 2
      note o = other_hosts [OF p(1,2,4) 2]
      from e(2,3) o show ?thesis by (intro bexI [of _ e]) simp_all
    qed
  qed
  have "fst ` set_mset (items ?q) = fst ` set_mset (items q)" using h by (metis set_image_mset)
  moreover have "fst ?t \<in> fst ` set_mset (items q)" using top_in [OF p(1,2)] by simp
  moreover have "insert (fst ?t) got \<union> set (map fst r) = got \<union> set (map fst ?r)" by auto
  ultimately show ?case using r h c by (intro exI [of _ ?r] exI [of _ q']) (simp add: Let_def)
qed

end

section \<open>heapq\<close>

abbreviation parent :: "nat \<Rightarrow> nat" where
  "parent i \<equiv> (i - 1) div 2"

text \<open>
  \<open>_siftup\<close>: the smaller child moves up until the hole is at a leaf, the item goes there;
  \<open>_siftdown\<close> then moves it up to its place. \<open>f\<close> is the key that \<open>__lt__\<close> compares.
\<close>

function leaf_walk :: "('a \<Rightarrow> nat) \<Rightarrow> 'a list \<Rightarrow> nat \<Rightarrow> 'a list \<times> nat" where
  "leaf_walk f h pos =
     (let c = 2 * pos + 1 in
      if c < length h then
        let c' = (if c + 1 < length h \<and> \<not> f (h ! c) < f (h ! (c + 1)) then c + 1 else c)
        in leaf_walk f (h[pos := h ! c']) c'
      else (h, pos))"
  by pat_completeness auto
termination
  by (relation "measure (\<lambda>(f, h, pos). length h - pos)") (auto simp: Let_def)

declare leaf_walk.simps [simp del]

function siftdown :: "('a \<Rightarrow> nat) \<Rightarrow> 'a list \<Rightarrow> nat \<Rightarrow> nat \<Rightarrow> 'a \<Rightarrow> 'a list" where
  "siftdown f h start pos x =
     (if start < pos \<and> f x < f (h ! parent pos)
      then siftdown f (h[pos := h ! parent pos]) start (parent pos) x
      else h[pos := x])"
  by pat_completeness auto
termination
  by (relation "measure (\<lambda>(f, h, start, pos, x). pos)") auto

declare siftdown.simps [simp del]

definition siftup :: "('a \<Rightarrow> nat) \<Rightarrow> 'a list \<Rightarrow> nat \<Rightarrow> 'a list" where
  "siftup f h pos = (let x = h ! pos; (h', p) = leaf_walk f h pos in siftdown f h' pos p x)"

definition heapify :: "('a \<Rightarrow> nat) \<Rightarrow> 'a list \<Rightarrow> 'a list" where
  "heapify f h = foldl (siftup f) h (rev [0..<length h div 2])"

definition heapreplace :: "('a \<Rightarrow> nat) \<Rightarrow> 'a list \<Rightarrow> 'a \<Rightarrow> 'a list" where
  "heapreplace f h x = siftup f (h[0 := x]) 0"

text \<open>Evaluation on concrete heaps.\<close>

lemma leaf_walk_leaf: "length h \<le> 2 * pos + 1 \<Longrightarrow> leaf_walk f h pos = (h, pos)"
  by (subst leaf_walk.simps) simp

lemma leaf_walk_step:
  "2 * pos + 1 < length h \<Longrightarrow> leaf_walk f h pos =
     (let c = 2 * pos + 1; c' = (if c + 1 < length h \<and> \<not> f (h ! c) < f (h ! (c + 1)) then c + 1 else c)
      in leaf_walk f (h[pos := h ! c']) c')"
  by (subst leaf_walk.simps) (simp only: Let_def if_True)

lemma siftdown_stop: "\<not> (start < pos \<and> f x < f (h ! parent pos)) \<Longrightarrow> siftdown f h start pos x = h[pos := x]"
  by (subst siftdown.simps) (simp only: if_False)

lemma siftdown_step:
  "start < pos \<and> f x < f (h ! parent pos) \<Longrightarrow>
    siftdown f h start pos x = siftdown f (h[pos := h ! parent pos]) start (parent pos) x"
  by (subst siftdown.simps) (simp only: if_True simp_thms)

lemmas heap_eval = leaf_walk_leaf leaf_walk_step siftdown_stop siftdown_step siftup_def heapify_def heapreplace_def

subsection \<open>The heap order\<close>

text \<open>
  The order from position \<open>k\<close> on, and the order around a hole at \<open>pos\<close>: the neighbours of the
  hole respect each other.
\<close>

definition heap_from :: "('a \<Rightarrow> nat) \<Rightarrow> nat \<Rightarrow> 'a list \<Rightarrow> bool" where
  "heap_from f k h \<longleftrightarrow> (\<forall>i < length h. 0 < i \<and> k \<le> parent i \<longrightarrow> f (h ! parent i) \<le> f (h ! i))"

definition holed :: "('a \<Rightarrow> nat) \<Rightarrow> nat \<Rightarrow> 'a list \<Rightarrow> nat \<Rightarrow> bool" where
  "holed f k h pos \<longleftrightarrow> k \<le> pos \<and> pos < length h \<and>
     (\<forall>i < length h. 0 < i \<and> k \<le> parent i \<and> i \<noteq> pos \<and> parent i \<noteq> pos \<longrightarrow> f (h ! parent i) \<le> f (h ! i)) \<and>
     (\<forall>i < length h. 0 < i \<and> parent i = pos \<and> k < pos \<and> k \<le> parent pos \<longrightarrow> f (h ! parent pos) \<le> f (h ! i))"

lemma parent_less: "0 < i \<Longrightarrow> parent i < i"
  by auto

lemma mset_move:
  assumes "i < length h" "j < length h" "i \<noteq> j"
  shows "mset (h[i := h ! j, j := x]) = mset (h[i := x])"
  using mset_swap [of j "h[i := x]" i] assms by simp

text \<open>The positions below \<open>k\<close> in the tree.\<close>

inductive below :: "nat \<Rightarrow> nat \<Rightarrow> bool" for k where
  below_refl [simp]: "below k k"
| below_step: "below k (parent c) \<Longrightarrow> below k c"

lemma below_child: "below k p \<Longrightarrow> parent c = p \<Longrightarrow> below k c"
  by (hypsubst, erule below_step)

lemma below_parent: "below k p \<Longrightarrow> p \<noteq> k \<Longrightarrow> below k (parent p)"
  by (erule below.cases) simp_all

lemma below_le: "below k p \<Longrightarrow> k \<le> p"
  by (induction rule: below.induct) auto

lemma holedD:
  assumes "holed f k h pos"
  shows "k \<le> pos" "pos < length h"
    "i < length h \<Longrightarrow> 0 < i \<Longrightarrow> k \<le> parent i \<Longrightarrow> i \<noteq> pos \<Longrightarrow> parent i \<noteq> pos \<Longrightarrow> f (h ! parent i) \<le> f (h ! i)"
    "i < length h \<Longrightarrow> 0 < i \<Longrightarrow> parent i = pos \<Longrightarrow> k < pos \<Longrightarrow> k \<le> parent pos \<Longrightarrow> f (h ! parent pos) \<le> f (h ! i)"
  using assms unfolding holed_def by blast+

lemma holed_down:
  assumes "holed f k h pos" "0 < c" "parent c = pos" "c < length h"
    and least: "\<forall>i < length h. 0 < i \<and> parent i = pos \<longrightarrow> f (h ! c) \<le> f (h ! i)"
  shows "holed f k (h[pos := h ! c]) c"
proof -
  note d = holedD [OF assms(1)]
  have pc: "pos < c" using parent_less [OF assms(2)] assms(3) by simp
  show ?thesis
    unfolding holed_def
  proof (intro conjI allI impI)
    show "k \<le> c" using d(1) pc by simp
    show "c < length (h[pos := h ! c])" using assms(4) by simp
  next
    fix i assume i: "i < length (h[pos := h ! c])" "0 < i \<and> k \<le> parent i \<and> i \<noteq> c \<and> parent i \<noteq> c"
    have il: "i < length h" using i(1) by simp
    consider "i = pos" | "i \<noteq> pos" "parent i = pos" | "i \<noteq> pos" "parent i \<noteq> pos" by blast
    then show "f (h[pos := h ! c] ! parent i) \<le> f (h[pos := h ! c] ! i)"
    proof cases
      case 1
      have "parent pos < pos" using i(2) 1 parent_less by blast
      moreover have "f (h ! parent pos) \<le> f (h ! c)"
        using d(4) [OF assms(4,2,3)] i(2) 1 \<open>parent pos < pos\<close> by simp
      ultimately show ?thesis using 1 il by (simp add: nth_list_update)
    next
      case 2
      then show ?thesis using least il i(2) d(2) by (simp add: nth_list_update)
    next
      case 3
      then show ?thesis using d(3) [OF il] i(2) by (simp add: nth_list_update)
    qed
  next
    fix i assume i: "i < length (h[pos := h ! c])" "0 < i \<and> parent i = c \<and> k < c \<and> k \<le> parent c"
    have "c < i" using parent_less [of i] i(2) by simp
    then have "f (h ! c) \<le> f (h ! i)" using d(3) [of i] i pc d(1) by simp
    then show "f (h[pos := h ! c] ! parent c) \<le> f (h[pos := h ! c] ! i)"
      using pc \<open>c < i\<close> i(1) assms(3) d(2) by (simp add: nth_list_update)
  qed
qed

lemma holed_up:
  assumes "holed f k h pos" "k < pos" "k \<le> parent pos"
  shows "holed f k (h[pos := h ! parent pos]) (parent pos)"
proof -
  let ?q = "parent pos" and ?h = "h[pos := h ! parent pos]"
  note d = holedD [OF assms(1)]
  have qp: "?q < pos" using assms(2) by (intro parent_less) simp
  show ?thesis
    unfolding holed_def
  proof (intro conjI allI impI)
    show "k \<le> ?q" by (rule assms(3))
    show "?q < length ?h" using qp d(2) by simp
  next
    fix i assume i: "i < length ?h" "0 < i \<and> k \<le> parent i \<and> i \<noteq> ?q \<and> parent i \<noteq> ?q"
    have il: "i < length h" and ip: "i \<noteq> pos" using i by auto
    show "f (?h ! parent i) \<le> f (?h ! i)"
    proof (cases "parent i = pos")
      case True
      then show ?thesis using d(4) [OF il _ True assms(2,3)] i(2) ip d(2) by (simp add: nth_list_update)
    next
      case False
      then show ?thesis using d(3) [OF il _ _ ip False] i(2) ip by (simp add: nth_list_update)
    qed
  next
    fix i assume i: "i < length ?h" "0 < i \<and> parent i = ?q \<and> k < ?q \<and> k \<le> parent ?q"
    have il: "i < length h" using i by simp
    have qq: "parent ?q < ?q" using i(2) by (intro parent_less) simp
    have a: "f (h ! parent ?q) \<le> f (h ! ?q)" using d(3) [of ?q] i(2) qp qq d(2) by simp
    have b: "f (h ! ?q) \<le> f (h ! i)" if "i \<noteq> pos" using d(3) [OF il _ _ that] i(2) qp assms(3) by simp
    show "f (?h ! parent ?q) \<le> f (?h ! i)"
      using a b qp qq il by (cases "i = pos") (simp_all add: nth_list_update)
  qed
qed

lemma leaf_walk_spec:
  assumes "leaf_walk f h pos = (h', p)" "holed f k h pos" "below k pos"
  shows "length h' = length h \<and> holed f k h' p \<and> below k p \<and> length h \<le> 2 * p + 1 \<and>
    (\<forall>x. mset (h'[p := x]) = mset (h[pos := x]))"
  using assms
proof (induction f h pos rule: leaf_walk.induct)
  case (1 f h pos)
  let ?c = "2 * pos + 1"
  let ?c' = "if ?c + 1 < length h \<and> \<not> f (h ! ?c) < f (h ! (?c + 1)) then ?c + 1 else ?c"
  show ?case
  proof (cases "?c < length h")
    case False
    with 1 show ?thesis by (subst (asm) leaf_walk.simps) auto
  next
    case True
    have c': "0 < ?c'" "parent ?c' = pos" "?c' < length h" "?c' \<noteq> pos" using True by auto
    have "f (h ! ?c') \<le> f (h ! i)" if i: "i < length h" "0 < i" "parent i = pos" for i
    proof -
      consider "i = ?c" | "i = ?c + 1" using i(2,3) by linarith
      then show ?thesis using i(1) by cases simp_all
    qed
    then have "\<forall>i < length h. 0 < i \<and> parent i = pos \<longrightarrow> f (h ! ?c') \<le> f (h ! i)" by blast
    from holed_down [OF 1(3) c'(1-3) this] have hd: "holed f k (h[pos := h ! ?c']) ?c'" .
    have w: "leaf_walk f (h[pos := h ! ?c']) ?c' = (h', p)"
      using 1(2) True by (subst (asm) leaf_walk.simps) (simp only: Let_def if_True)
    have "pos < length h" using 1(3) by (rule holedD)
    then have "mset (h[pos := h ! ?c', ?c' := x]) = mset (h[pos := x])" for x
      using mset_move [OF _ c'(3)] c'(4) by metis
    with 1(1) [OF refl True refl w hd below_child [OF 1(4) c'(2)]] show ?thesis by simp
  qed
qed

lemma siftdown_spec:
  assumes "holed f k h pos" "below k pos" "\<forall>i < length h. 0 < i \<and> parent i = pos \<longrightarrow> f x \<le> f (h ! i)"
  shows "heap_from f k (siftdown f h k pos x) \<and> mset (siftdown f h k pos x) = mset (h[pos := x])"
  using assms
proof (induction f h k pos x rule: siftdown.induct)
  case (1 f h k pos x)
  let ?q = "parent pos"
  note d = holedD [OF 1(2)]
  show ?case
  proof (cases "k < pos \<and> f x < f (h ! ?q)")
    case False
    have "f (h[pos := x] ! parent i) \<le> f (h[pos := x] ! i)" if i: "i < length h" "0 < i" "k \<le> parent i" for i
    proof -
      have "parent i < i" using i(2) by (rule parent_less)
      consider "i = pos" | "i \<noteq> pos" "parent i = pos" | "i \<noteq> pos" "parent i \<noteq> pos" by blast
      then show ?thesis
      proof cases
        case 1
        then show ?thesis using False i \<open>parent i < i\<close> by (auto simp: nth_list_update)
      next
        case 2
        then show ?thesis using 1(4) i d(2) by (simp add: nth_list_update)
      next
        case 3
        then show ?thesis using d(3) i by (simp add: nth_list_update)
      qed
    qed
    then have "heap_from f k (h[pos := x])" by (simp add: heap_from_def)
    moreover have "siftdown f h k pos x = h[pos := x]" using False by (subst siftdown.simps) auto
    ultimately show ?thesis by simp
  next
    case True
    have bq: "below k ?q" using below_parent [OF 1(3)] True by simp
    have kq: "k \<le> ?q" by (rule below_le [OF bq])
    have qp: "?q < pos" using True by (intro parent_less) simp
    have s: "siftdown f h k pos x = siftdown f (h[pos := h ! ?q]) k ?q x"
      using True by (subst siftdown.simps) simp
    have "f x \<le> f (h[pos := h ! ?q] ! i)" if i: "i < length h" "0 < i" "parent i = ?q" for i
    proof (cases "i = pos")
      case True
      then show ?thesis using \<open>k < pos \<and> f x < f (h ! ?q)\<close> i by simp
    next
      case False
      have "f (h ! parent i) \<le> f (h ! i)" using d(3) [OF i(1,2) _ False] i(3) kq qp by simp
      then show ?thesis using True False i by simp
    qed
    then have "\<forall>i < length (h[pos := h ! ?q]). 0 < i \<and> parent i = ?q \<longrightarrow> f x \<le> f (h[pos := h ! ?q] ! i)" by simp
    from 1(1) [OF True holed_up [OF 1(2) _ kq] bq this] True
    have "heap_from f k (siftdown f h k pos x)" "mset (siftdown f h k pos x) = mset (h[pos := h ! ?q, ?q := x])"
      unfolding s by simp_all
    moreover have "mset (h[pos := h ! ?q, ?q := x]) = mset (h[pos := x])"
      using d(2) qp by (intro mset_move) auto
    ultimately show ?thesis by simp
  qed
qed

lemma siftup_spec:
  assumes "heap_from f (Suc pos) h" "pos < length h"
  shows "heap_from f pos (siftup f h pos)" "mset (siftup f h pos) = mset h"
proof -
  obtain h' p where w: "leaf_walk f h pos = (h', p)" by fastforce
  have "f (h ! parent i) \<le> f (h ! i)" if "i < length h" "0 < i" "pos \<le> parent i" "parent i \<noteq> pos" for i
    using assms(1) that unfolding heap_from_def by (metis Suc_leI le_neq_implies_less)
  then have "holed f pos h pos" using assms(2) unfolding holed_def by blast
  note l = leaf_walk_spec [OF w this below_refl]
  have "\<not> (i < length h' \<and> 0 < i \<and> parent i = p)" for i using l by auto
  then have "\<forall>i < length h'. 0 < i \<and> parent i = p \<longrightarrow> f (h ! pos) \<le> f (h' ! i)" by blast
  from siftdown_spec [OF _ _ this] l
  have "heap_from f pos (siftdown f h' pos p (h ! pos))"
    "mset (siftdown f h' pos p (h ! pos)) = mset (h[pos := h ! pos])" by auto
  then show "heap_from f pos (siftup f h pos)" "mset (siftup f h pos) = mset h"
    by (simp_all add: siftup_def w)
qed

lemma heapify_steps:
  assumes "heap_from f m h" "m \<le> length h"
  shows "heap_from f 0 (foldl (siftup f) h (rev [0..<m])) \<and> mset (foldl (siftup f) h (rev [0..<m])) = mset h"
  using assms
proof (induction m arbitrary: h)
  case (Suc m)
  note s = siftup_spec [OF Suc.prems(1)]
  have "length (siftup f h m) = length h" using s(2) Suc.prems(2) by (metis Suc_le_lessD size_mset)
  with Suc.IH [OF s(1)] s(2) Suc.prems(2) show ?case by simp
qed simp

lemma heapify_spec: "heap_from f 0 (heapify f h)" "mset (heapify f h) = mset h"
proof -
  have "heap_from f (length h div 2) h" unfolding heap_from_def by auto
  from heapify_steps [OF this] show "heap_from f 0 (heapify f h)" "mset (heapify f h) = mset h"
    by (simp_all add: heapify_def)
qed

lemma heapreplace_spec:
  assumes "heap_from f 0 h" "h \<noteq> []"
  shows "heap_from f 0 (heapreplace f h x)" "mset (heapreplace f h x) = add_mset x (mset h - {#h ! 0#})"
proof -
  have "heap_from f (Suc 0) (h[0 := x])" using assms(1) unfolding heap_from_def by auto
  note s = siftup_spec [OF this]
  show "heap_from f 0 (heapreplace f h x)" "mset (heapreplace f h x) = add_mset x (mset h - {#h ! 0#})"
    using s assms(2) by (simp_all add: heapreplace_def mset_update)
qed

lemma heap_top:
  assumes "heap_from f 0 h" "i < length h"
  shows "f (h ! 0) \<le> f (h ! i)"
  using assms(2)
proof (induction i rule: less_induct)
  case (less i)
  show ?case
  proof (cases "i = 0")
    case False
    then have p: "parent i < i" by (intro parent_less) simp
    with less have "f (h ! 0) \<le> f (h ! parent i)" by simp
    also have "\<dots> \<le> f (h ! i)" using assms(1) less.prems False unfolding heap_from_def by blast
    finally show ?thesis .
  qed simp
qed

interpretation hq: least_loaded "heap_from busy 0" mset "\<lambda>h. h ! 0" "heapreplace busy"
proof unfold_locales
  fix q :: "'n hentry list"
  show "heap_from busy 0 q \<Longrightarrow> mset q \<noteq> {#} \<Longrightarrow> q ! 0 \<in># mset q" by (cases q) auto
  show "heap_from busy 0 q \<Longrightarrow> e \<in># mset q \<Longrightarrow> busy (q ! 0) \<le> busy e" for e
    using heap_top [of busy q] by (auto simp: in_set_conv_nth)
  show "heap_from busy 0 q \<Longrightarrow> mset q \<noteq> {#} \<Longrightarrow> mset (heapreplace busy q e) = add_mset e (mset q - {#q ! 0#})" for e
    using heapreplace_spec(2) by auto
  show "heap_from busy 0 q \<Longrightarrow> mset q \<noteq> {#} \<Longrightarrow> heap_from busy 0 (heapreplace busy q e)" for e
    using heapreplace_spec(1) by auto
qed

end
