(* ===== verification/SingShell.thy ===== *)
theory SingShell
  imports Heapq IPAddrDb IPNet Cluster Json
begin

text \<open>
  \<open>runtime/singularity.py\<close>, first part: quoting, remote commands, terminals, and the shells
  through which commands run in a singularity instance. The operating system of the test host
  (processes, pipes, pseudo terminals, clock) is a record of effectful programs. A text and
  its UTF-8 encoding are the same list of bytes, so that \<open>encode\<close> is the identity and
  \<open>decode\<close> a test. Times are in milliseconds.
\<close>

section \<open>The host\<close>

text \<open>
  \<open>h_run cmd input\<close> is \<open>subprocess.run\<close> under bash: exit code and output. \<open>h_popen\<close> starts a
  process; \<open>h_write\<close> to its standard input takes a part of the data, \<open>h_read\<close> is a read of
  the unblocked output (\<open>None\<close>: nothing there yet) and \<open>h_read_all\<close> one up to its end. A read
  of a terminal gives bytes or an error number.
\<close>

datatype pty_in = Bytes string | Errno nat

record 'w host =
  h_name :: "('w, string) io"
  h_thread :: "('w, nat) io"
  h_cwd :: "('w, string) io"
  h_now :: "('w, int) io"
  h_sleep :: "int \<Rightarrow> ('w, unit) io"
  h_exists :: "string \<Rightarrow> ('w, bool) io"
  h_makedirs :: "string \<Rightarrow> ('w, unit) io"
  h_run :: "string \<Rightarrow> string option \<Rightarrow> ('w, int \<times> string) io"
  h_popen :: "string \<Rightarrow> ('w, string) io"
  h_poll :: "string \<Rightarrow> ('w, bool) io"
  h_wait :: "string \<Rightarrow> ('w, int) io"
  h_write :: "string \<Rightarrow> string \<Rightarrow> ('w, nat) io"
  h_close :: "string \<Rightarrow> ('w, unit) io"
  h_read :: "string \<Rightarrow> ('w, string option) io"
  h_read_all :: "string \<Rightarrow> ('w, string) io"
  h_openpty :: "string list \<Rightarrow> ('w, string) io"
  h_pty_read :: "string \<Rightarrow> ('w, pty_in) io"
  h_pty_write :: "string \<Rightarrow> string \<Rightarrow> ('w, nat) io"

text \<open>What \<open>G\<close> holds for singularity, and the state of the program beside the host's.\<close>

record sconf =
  cf_hosts :: "string list"
  cf_image :: pval
  cf_local_dir :: string
  cf_net :: ipnet

record 'w sing =
  s_sys :: 'w
  s_shells :: "((nat \<times> nat) \<times> string) list"
  s_objs :: nat
  s_write_err :: "(int \<times> string \<times> string \<times> string) option"
  s_db :: addr_db

definition sys :: "('w, 'a) io \<Rightarrow> ('w sing, 'a) io" where
  "sys m s = (case m (s_sys s) of None \<Rightarrow> None | Some (r, w) \<Rightarrow> Some (r, s\<lparr>s_sys := w\<rparr>))"

section \<open>Bytes and texts\<close>

text \<open>The ranges that the next bytes of a UTF-8 text must be in, after its first byte.\<close>

definition utf8_tail :: "nat \<Rightarrow> (nat \<times> nat) list option" where
  "utf8_tail n =
     (let c = (0x80, 0xBF) in
      if n < 0x80 then Some []
      else if 0xC2 \<le> n \<and> n \<le> 0xDF then Some [c]
      else if n = 0xE0 then Some [(0xA0, 0xBF), c]
      else if n = 0xED then Some [(0x80, 0x9F), c]
      else if 0xE1 \<le> n \<and> n \<le> 0xEF then Some [c, c]
      else if n = 0xF0 then Some [(0x90, 0xBF), c, c]
      else if 0xF1 \<le> n \<and> n \<le> 0xF3 then Some [c, c, c]
      else if n = 0xF4 then Some [(0x80, 0x8F), c, c]
      else None)"

fun utf8_ok :: "(nat \<times> nat) list \<Rightarrow> string \<Rightarrow> bool" where
  "utf8_ok rs [] = (rs = [])"
| "utf8_ok [] (c # s) = (case utf8_tail (of_char c) of None \<Rightarrow> False | Some rs \<Rightarrow> utf8_ok rs s)"
| "utf8_ok ((a, b) # rs) (c # s) = (a \<le> (of_char c :: nat) \<and> (of_char c :: nat) \<le> b \<and> utf8_ok rs s)"

definition decode :: "string \<Rightarrow> string res" where
  "decode s = (if utf8_ok [] s then Inr s else Inl (ValueError ''utf-8 codec cannot decode bytes''))"

text \<open>\<open>BYTES(v)\<close>, and \<open>shlex.quote(v)\<close>, of a value that may not be a text.\<close>

definition BYTES :: "pval \<Rightarrow> string res" where
  "BYTES v = (case v of PStr s \<Rightarrow> Inr s | _ \<Rightarrow> Inl (TypeError ''Unsupported type''))"

definition shell_safe :: "char \<Rightarrow> bool" where
  "shell_safe c \<longleftrightarrow>
     (let n = (of_char c :: nat) in (65 \<le> n \<and> n \<le> 90) \<or> (97 \<le> n \<and> n \<le> 122)) \<or> is_digit c \<or>
     c \<in> {CHR ''_'', CHR ''@'', CHR ''%'', CHR ''+'', CHR ''='', CHR '':'', CHR '','', CHR ''.'', CHR ''/'', CHR ''-''}"

abbreviation squote :: char where
  "squote \<equiv> CHR 0x27"

definition quote :: "string \<Rightarrow> string" where
  "quote s =
     (if s = [] then [squote, squote]
      else if list_all shell_safe s then s
      else squote # concat (map (\<lambda>c. if c = squote then [squote, CHR 0x22, squote, CHR 0x22, squote] else [c]) s) @ [squote])"

definition p_quote :: "pval \<Rightarrow> string res" where
  "p_quote v = (case v of PStr s \<Rightarrow> Inr (quote s) | _ \<Rightarrow> Inl (TypeError ''expected string or bytes-like object''))"

section \<open>Remote processes\<close>


section \<open>Terminals\<close>

text \<open>
  \<open>PtyPopen\<close>: \<open>pty\<close> is the descriptor, None once terminated. Parameters that the constructor sets
  itself are refused after the terminal was opened. \<open>read\<close> goes on until two reads in a row find
  nothing (error 11, EAGAIN); \<open>active\<close> counts down.
\<close>

definition reserved_args :: "string list" where
  "reserved_args = [''stdin'', ''stdout'', ''stderr'', ''start_new_session'']"

definition pty_open :: "'w host \<Rightarrow> string list \<Rightarrow> string list \<Rightarrow> ('w, string) io" where
  "pty_open H args kwargs =
     (if \<exists>k \<in> set kwargs. k \<in> set reserved_args
      then raiseS (AttributeError ''Parameters must not be specified'') else h_openpty H args)"

partial_function (option) pty_loop :: "'w host \<Rightarrow> string \<Rightarrow> int \<Rightarrow> nat \<Rightarrow> string \<Rightarrow> ('w, string) io" where
  "pty_loop H pfd idle active buf w =
     (if active = 0 then retS buf
      else bindS (h_pty_read H pfd) (\<lambda>r. case r of
          Bytes b \<Rightarrow> bindS (liftE (decode b)) (\<lambda>s. pty_loop H pfd idle 2 (buf @ s))
        | Errno e \<Rightarrow>
            if e \<noteq> 11 then raiseS (OtherError ''OSError'' (str_nat e))
            else seqS (whenS (0 < active - 1) (h_sleep H idle)) (pty_loop H pfd idle (active - 1) buf))) w"

definition no_pty :: "('w, 'a) io" where
  "no_pty = raiseS (RuntimeError ''pty terminated'')"

definition pty_read :: "'w host \<Rightarrow> string option \<Rightarrow> int \<Rightarrow> ('w, string) io" where
  "pty_read H pty idle = (case pty of None \<Rightarrow> no_pty | Some pfd \<Rightarrow> pty_loop H pfd idle 2 [])"

definition pty_write :: "'w host \<Rightarrow> string option \<Rightarrow> pval \<Rightarrow> ('w, nat) io" where
  "pty_write H pty data =
     (case pty of None \<Rightarrow> no_pty | Some pfd \<Rightarrow> bindS (liftE (BYTES data)) (h_pty_write H pfd))"

text \<open>\<open>term\<close>: end of transmission, then the descriptor is closed whatever happened.\<close>

definition pty_term :: "'w host \<Rightarrow> string option \<Rightarrow> ('w, string option) io" where
  "pty_term H pty =
     (case pty of
        None \<Rightarrow> retS None
      | Some pfd \<Rightarrow>
          seqS (catchS (bindS (pty_write H pty (PStr [CHR 0x04])) (\<lambda>_. bindS (pty_read H pty 100) (\<lambda>_. retS ()))) (\<lambda>_. retS ()))
          (seqS (h_close H pfd) (bindS (h_wait H pfd) (\<lambda>_. retS None))))"

text \<open>\<open>PtySSH\<close>: a remote bash with a prompt that marks the end of an answer.\<close>

definition PROMPT :: string where
  "PROMPT = [CHR 0x02] @ ''$ ''"

partial_function (option) readp_loop :: "'w host \<Rightarrow> string option \<Rightarrow> string \<Rightarrow> ('w, string) io" where
  "readp_loop H pty buf w =
     bindS (pty_read H pty 100) (\<lambda>b.
       if endswith PROMPT (buf @ b) then retS (buf @ b) else readp_loop H pty (buf @ b)) w"

definition readp :: "'w host \<Rightarrow> string option \<Rightarrow> ('w, string) io" where
  "readp H pty = readp_loop H pty []"

definition pty_ssh :: "'w host \<Rightarrow> string \<Rightarrow> string \<Rightarrow> ('w, string option) io" where
  "pty_ssh H host port =
     bindS (pty_open H [''/usr/bin/ssh'', ''-t'', ''-p'', port, host, ''/usr/bin/bash'', ''-i''] []) (\<lambda>pfd.
     bindS (pty_write H (Some pfd) (PStr (''unset PROMPT_COMMAND && export PS1='' @ [squote] @ PROMPT @ [squote] @ nl))) (\<lambda>_.
     bindS (readp H (Some pfd)) (\<lambda>_. retS (Some pfd))))"

definition set_echo :: "'w host \<Rightarrow> string option \<Rightarrow> bool \<Rightarrow> ('w, unit) io" where
  "set_echo H pty v =
     bindS (pty_write H pty (PStr (''stty '' @ (if v then [] else ''-'') @ ''echo'' @ nl))) (\<lambda>_.
     bindS (readp H pty) (\<lambda>_. retS ()))"

section \<open>Containers\<close>

text \<open>
  An \<open>SContainer\<close>: \<open>sc_obj\<close> is the identity of the object, the specifications are what
  \<open>json_load\<close> or the caller gave; \<open>sc_ip\<close> and \<open>sc_pid\<close> are set by singularity's listing.
\<close>

record scont =
  sc_obj :: nat
  sc_instance :: string
  sc_img :: string
  sc_ip :: "pval option"
  sc_pid :: "pval option"
  sc_ip_addr :: "string option"
  sc_net :: "ipnet option"
  sc_ssh_host :: string
  sc_ssh_port :: string
  sc_ssh :: string
  sc_ssh_i :: string
  sc_local_dir :: string
  sc_hostname :: pval
  sc_cluster_spec :: pval
  sc_node_spec :: pval

section \<open>Commands in an instance\<close>

text \<open>
  \<open>_prep_scmd\<close>: the environment of the specification goes through \<open>dict(v)\<close>, which takes a dict or
  an iterable of pairs; the paths are appended to what the environment has, which must be texts.
\<close>

definition dict_item :: "pval \<Rightarrow> (string \<times> pval) res" where
  "dict_item v =
     bindE (p_iter v) (\<lambda>l. case l of
         [k, x] \<Rightarrow> bindE (p_string k) (\<lambda>s. Inr (s, x))
       | _ \<Rightarrow> Inl (ValueError ''dictionary update sequence element has the wrong length; 2 is required''))"

definition dict_of :: "pval \<Rightarrow> pval dict res" where
  "dict_of v =
     (case v of
        PDict d \<Rightarrow> Inr d
      | _ \<Rightarrow> bindE (p_iter v) (\<lambda>l. bindE (mapE dict_item l) (\<lambda>d. Inr (dupdate [] d))))"

definition append_path :: "string \<times> string list \<Rightarrow> pval dict \<Rightarrow> pval dict res" where
  "append_path = (\<lambda>(var, ents) env.
     bindE (p_string (dget_or env var (PStr []))) (\<lambda>s. Inr (dset var (PStr (s @ '':'' @ join '':'' ents)) env)))"

definition ovis_paths :: "(string \<times> string list) list" where
  "ovis_paths =
     [(''PATH'', [''/opt/ovis/bin'', ''/opt/ovis/sbin'', ''/usr/local/bin'', ''/usr/local/sbin'',
                  ''/usr/bin'', ''/usr/sbin'', ''/bin'', ''/sbin'']),
      (''LD_LIBRARY_PATH'', [''/opt/ovis/lib'', ''/opt/ovis/lib64'']),
      (''ZAP_LIBPATH'', [''/opt/ovis/lib/ovis-ldms'', ''/opt/ovis/lib64/ovis-ldms'',
                         ''/opt/ovis/lib/ovis-lib'', ''/opt/ovis/lib64/ovis-lib'']),
      (''LDMSD_PLUGIN_LIBPATH'', [''/opt/ovis/lib/ovis-ldms'', ''/opt/ovis/lib64/ovis-ldms'']),
      (''PYTHONPATH'', [''/opt/ovis/lib/python3.6/site-packages'', ''/opt/ovis/lib64/python3.6/site-packages''])]"

definition as_user :: "pval \<Rightarrow> pval \<Rightarrow> pval res" where
  "as_user user cmd =
     (if user = PNone then Inr cmd
      else bindE (p_quote cmd) (\<lambda>q. Inr (PStr (''runuser '' @ py_str user @ '' -s /bin/bash -c '' @ q))))"

definition cmd_text :: "pval \<Rightarrow> pval res" where
  "cmd_text cmd =
     (case cmd of PList l \<Rightarrow> bindE (mapE p_quote l) (\<lambda>qs. Inr (PStr (join '' '' qs))) | _ \<Rightarrow> Inr cmd)"

definition exec_env :: "scont \<Rightarrow> pval \<Rightarrow> pval dict res" where
  "exec_env c env =
     bindE (bindE (p_get (sc_cluster_spec c) ''env'' (PDict [])) dict_of) (\<lambda>e0.
     bindE (if truthy env then bindE (dict_of env) (\<lambda>e. Inr (dupdate e0 e)) else Inr e0) (\<lambda>e1.
     bindE (foldE (\<lambda>e p. append_path p e) e1 ovis_paths) (\<lambda>e2.
     bindE (p_get (sc_node_spec c) ''hostname'' (PStr [])) (\<lambda>h.
       Inr (dsetdefault ''HOSTNAME'' h e2)))))"

definition prep_scmd :: "scont \<Rightarrow> pval \<Rightarrow> pval \<Rightarrow> pval \<Rightarrow> string \<Rightarrow> string res" where
  "prep_scmd c cmd env user via =
     bindE (bindE (cmd_text cmd) (as_user user)) (\<lambda>cmd'.
     bindE (exec_env c env) (\<lambda>e.
       let envs = concat (map (\<lambda>(k, v). '' '' @ quote (''--env='' @ k @ ''='' @ py_str v)) e);
           scmd = ''singularity exec '' @ envs @ '' instance://'' @ sc_instance c @ '' '' @ py_str cmd'
       in Inr (if via = [] then scmd else via @ '' '' @ quote scmd)))"

text \<open>
  \<open>shell\<close>: each thread has its own shell in the container, started when it is first needed; \<open>None\<close>
  when it ends before it answers.
\<close>

definition FF :: char where
  "FF = CHR 0xFF"

partial_function (option) shell_wait :: "'w host \<Rightarrow> string \<Rightarrow> ('w, bool) io" where
  "shell_wait H p w =
     bindS (h_read H p) (\<lambda>b.
       if b = Some (FF # nl) then retS True
       else bindS (h_poll H p) (\<lambda>ended. if ended then retS False else shell_wait H p)) w"

definition get_shell :: "'w host \<Rightarrow> scont \<Rightarrow> ('w sing, string option) io" where
  "get_shell H c =
     bindS (sys (h_thread H)) (\<lambda>t.
     bindS (getS (\<lambda>s. map_of (s_shells s) (sc_obj c, t))) (\<lambda>known.
     case known of
       Some p \<Rightarrow> retS (Some p)
     | None \<Rightarrow>
         bindS (liftE (prep_scmd c (PStr ''bash -l'') PNone PNone (sc_ssh c))) (\<lambda>scmd.
         bindS (sys (h_popen H scmd)) (\<lambda>p.
         bindS (sys (h_write H p (''echo '' @ [FF] @ nl))) (\<lambda>_.
         bindS (sys (shell_wait H p)) (\<lambda>ready.
           if ready then seqS (updS (\<lambda>s. s\<lparr>s_shells := ((sc_obj c, t), p) # s_shells s\<rparr>)) (retS (Some p))
           else retS None))))))"

partial_function (option) send_all :: "'w host \<Rightarrow> string \<Rightarrow> string \<Rightarrow> ('w, unit) io" where
  "send_all H p data w =
     (if data = [] then retS () else bindS (h_write H p data) (\<lambda>n. send_all H p (drop n data))) w"

text \<open>
  \<open>_exec_run\<close>: the input as a here-document, the environment, the command, and a last line that prints
  the exit code between two marks; then the answer is read up to the second mark. The bytes FF
  in the marks are in no UTF-8 text.
\<close>

definition escape_input :: "string \<Rightarrow> string" where
  "escape_input s = concat (map (\<lambda>c. if c = CHR ''$'' then [CHR 0x5C, c] else [c]) s)"

definition heredoc :: "string \<Rightarrow> string list" where
  "heredoc inp =
     [CHR 0x7B # '' cat <<'' @ [FF] @ ''EOF'' @ nl, escape_input inp, nl @ [FF] @ ''EOF'' @ nl,
      CHR 0x7D # '' | sed -z '' @ [squote] @ ''s/'' @ [CHR 0x5C] @ ''n$//'' @ [squote] @ '' | '']"

definition send_env :: "'w host \<Rightarrow> string \<Rightarrow> pval \<Rightarrow> ('w, unit) io" where
  "send_env H p env =
     (if truthy env then bindS (liftE (p_dict env)) (\<lambda>d. forS d (\<lambda>(k, v).
        seqS (send_all H p k) (seqS (send_all H p ''='')
        (bindS (liftE (p_quote v)) (\<lambda>q. seqS (send_all H p q) (send_all H p '' ''))))))
      else retS ())"

definition rc_mark :: string where
  "rc_mark = FF # ''RC''"

definition end_mark :: string where
  "end_mark = FF # ''END'' @ nl"

definition exec_tail :: string where
  "exec_tail = '' 2>&1 ; echo '' @ [CHR 0x22] @ rc_mark @ ''$?'' @ [FF] @ ''END'' @ [CHR 0x22] @ nl"

text \<open>\<open>bytes.rindex\<close>.\<close>

fun last_at :: "string \<Rightarrow> string \<Rightarrow> nat option" where
  "last_at p [] = (if p = [] then Some 0 else None)"
| "last_at p (c # s) =
     (case last_at p s of Some i \<Rightarrow> Some (Suc i) | None \<Rightarrow> if startswith p (c # s) then Some 0 else None)"

definition parse_reply :: "string \<Rightarrow> (int \<times> string) res" where
  "parse_reply b =
     (case last_at rc_mark b of
        None \<Rightarrow> Inl (ValueError ''subsection not found'')
      | Some i \<Rightarrow>
          bindE (parse_int (hd (split_on FF (drop (i + 3) b)))) (\<lambda>rc.
          bindE (decode (take i b)) (\<lambda>out. Inr (rc, out))))"

definition grow :: "string \<Rightarrow> string option \<Rightarrow> string" where
  "grow buf b = (case b of Some x \<Rightarrow> buf @ x | None \<Rightarrow> buf)"

definition timed_out :: "'w host \<Rightarrow> int option \<Rightarrow> int \<Rightarrow> ('w, bool) io" where
  "timed_out H timeout t0 =
     (case timeout of None \<Rightarrow> retS False | Some d \<Rightarrow> bindS (h_now H) (\<lambda>t. retS (d \<le> t - t0)))"

partial_function (option) read_reply ::
  "'w host \<Rightarrow> string \<Rightarrow> int option \<Rightarrow> int \<Rightarrow> string \<Rightarrow> ('w, int \<times> string) io" where
  "read_reply H p timeout t0 buf w =
     (if endswith end_mark buf then liftE (parse_reply buf)
      else bindS (h_read H p) (\<lambda>b. bindS (timed_out H timeout t0) (\<lambda>late.
        if late then retS (110, grow buf b) else read_reply H p timeout t0 (grow buf b)))) w"

definition exec_run :: "'w host \<Rightarrow> scont \<Rightarrow> pval \<Rightarrow> pval \<Rightarrow> string option \<Rightarrow> int option \<Rightarrow> pval \<Rightarrow> ('w sing, int \<times> string) io" where
  "exec_run H c cmd env inp timeout user =
     bindS (get_shell H c) (\<lambda>sh. case sh of
         None \<Rightarrow> raiseS (RuntimeError ''cannot obtain container shell'')
       | Some p \<Rightarrow>
           seqS (case inp of Some (x # s) \<Rightarrow> forS (heredoc (x # s)) (\<lambda>d. sys (send_all H p d)) | _ \<Rightarrow> retS ())
           (seqS (sys (send_env H p env))
           (bindS (liftE (bindE (as_user user cmd) BYTES)) (\<lambda>b.
            seqS (sys (send_all H p b))
            (seqS (sys (send_all H p exec_tail))
            (bindS (sys (h_now H)) (\<lambda>t0. sys (read_reply H p
               (if timeout = Some 0 then None else timeout) t0 []))))))))"

text \<open>\<open>_exec_run_old\<close>: one process per command.\<close>

definition exec_run_old :: "'w host \<Rightarrow> scont \<Rightarrow> pval \<Rightarrow> pval \<Rightarrow> string option \<Rightarrow> pval \<Rightarrow> ('w, int \<times> string) io" where
  "exec_run_old H c cmd env inp user =
     bindS (liftE (prep_scmd c cmd env user (sc_ssh c))) (\<lambda>scmd.
     bindS (h_popen H scmd) (\<lambda>p.
     seqS (case inp of Some s \<Rightarrow> bindS (h_write H p s) (\<lambda>_. retS ()) | None \<Rightarrow> retS ())
     (seqS (h_close H p)
     (bindS (h_read_all H p) (\<lambda>out.
      bindS (h_wait H p) (\<lambda>rc.
      bindS (liftE (decode out)) (\<lambda>s. retS (rc, s))))))))"

definition exec_interact :: "'w host \<Rightarrow> scont \<Rightarrow> pval \<Rightarrow> ('w, string) io" where
  "exec_interact H c cmd =
     bindS (liftE (prep_scmd c cmd PNone PNone (sc_ssh_i c))) (\<lambda>scmd. pty_open H [scmd] [''shell''])"

section \<open>The frame of an answer\<close>

lemma utf8_no_FF:
  "list_all (\<lambda>(a, b). b < 0xFF) rs \<Longrightarrow> utf8_ok rs s \<Longrightarrow> FF \<notin> set s"
proof (induction rs s rule: utf8_ok.induct)
  case (2 c s)
  from 2(3) obtain rs where rs: "utf8_tail (of_char c) = Some rs" "utf8_ok rs s"
    by (auto split: option.splits)
  then have "c \<noteq> FF" by (auto simp: utf8_tail_def FF_def Let_def)
  moreover have "list_all (\<lambda>(a, b). b < 0xFF) rs"
    using rs(1) by (auto simp: utf8_tail_def Let_def split: if_splits)
  ultimately show ?case using 2(1) [OF rs(1) _ rs(2)] by simp
next
  case (3 a b rs c s)
  then show ?case by (auto simp: FF_def)
qed simp

definition frame :: "string \<Rightarrow> nat \<Rightarrow> string" where
  "frame out rc = out @ rc_mark @ str_nat rc @ end_mark"

lemma digits_no_FF: "FF \<notin> set (str_nat n)"
  using digits_of_digit10 [of FF n] by (auto simp: str_nat_def FF_def is_digit_def Let_def)

lemma split_frame:
  assumes "FF \<notin> set out"
  shows "split_on FF (frame out rc) = [out, ''RC'' @ str_nat rc, ''END'' @ nl]"
proof -
  have a: "frame out rc = out @ FF # (''RC'' @ str_nat rc) @ FF # ''END'' @ nl"
    by (simp add: frame_def rc_mark_def end_mark_def)
  have "FF \<notin> set (''RC'' @ str_nat rc)" "FF \<notin> set (''END'' @ nl)"
    using digits_no_FF [of rc] by (auto simp: FF_def)
  then show ?thesis
    unfolding a by (subst split_on_append [OF assms], subst split_on_append, simp, subst split_on_no_sep) simp_all
qed

lemma frame_ends_once:
  assumes "frame out rc = buf @ rest" "endswith end_mark buf" "FF \<notin> set out"
  shows "rest = []"
proof -
  from assms(2) obtain x where "buf = x @ end_mark" by (auto simp: endswith_iff)
  with assms(1) have "frame out rc = x @ FF # (''END'' @ nl @ rest)" by (simp add: end_mark_def)
  with split_frame [OF assms(3), of rc]
  have e: "split_on FF x @ split_on FF (''END'' @ nl @ rest) = [out, ''RC'' @ str_nat rc, ''END'' @ nl]"
    by (simp only: split_on_app)
  have hd: "\<exists>t r. split_on FF (''END'' @ nl @ rest) = (''END'' @ nl @ t) # r \<and> (r = [] \<longrightarrow> t = rest)"
  proof -
    obtain t r where "split_on FF rest = t # r" using split_on_ne [of FF rest] by (cases "split_on FF rest") auto
    moreover have "r = [] \<longrightarrow> t = rest"
      using calculation by (metis split_on_single)
    ultimately show ?thesis by (simp add: FF_def)
  qed
  then obtain t r where s: "split_on FF (''END'' @ nl @ rest) = (''END'' @ nl @ t) # r" "r = [] \<longrightarrow> t = rest" by blast
  obtain y ys where y: "split_on FF x = y # ys" using split_on_ne [of FF x] by (cases "split_on FF x") auto
  show ?thesis
  proof (cases ys)
    case Nil
    with e y s(1) show ?thesis by simp
  next
    case (Cons z zs)
    with e y s(1) have "zs @ (''END'' @ nl @ t) # r = [''END'' @ nl]" by simp
    with s(2) show ?thesis by (cases zs) simp_all
  qed
qed

lemma last_at_append: "last_at p t = Some i \<Longrightarrow> last_at p (x @ t) = Some (length x + i)"
  by (induction x) simp_all

lemma last_at_rc:
  assumes "FF \<notin> set u"
  shows "last_at rc_mark (rc_mark @ u @ end_mark) = Some 0"
proof -
  have "last_at rc_mark (u @ end_mark) = None"
    using assms by (induction u) (auto simp: rc_mark_def end_mark_def startswith_def FF_def)
  then show ?thesis by (simp add: rc_mark_def startswith_def FF_def)
qed

lemma parse_frame:
  assumes "utf8_ok [] out"
  shows "parse_reply (frame out rc) = Inr (int rc, out)"
proof -
  have "last_at rc_mark (frame out rc) = Some (length out)"
    unfolding frame_def using last_at_append [OF last_at_rc [OF digits_no_FF]] by simp
  moreover have "drop (length out + 3) (frame out rc) = str_nat rc @ FF # ''END'' @ nl"
    by (simp add: frame_def rc_mark_def end_mark_def)
  moreover have "take (length out) (frame out rc) = out" by (simp add: frame_def)
  ultimately show ?thesis
    using assms parse_int_str_nat [of rc] by (simp add: parse_reply_def split_on_append digits_no_FF decode_def)
qed

text \<open>The reads of an output give these pieces one after the other.\<close>

primrec feeds :: "'w host \<Rightarrow> string \<Rightarrow> string option list \<Rightarrow> 'w \<Rightarrow> 'w \<Rightarrow> bool" where
  "feeds H p [] w w' \<longleftrightarrow> w' = w"
| "feeds H p (b # bs) w w' \<longleftrightarrow> (\<exists>w1. h_read H p w = Some (Inr b, w1) \<and> feeds H p bs w1 w')"

definition received :: "string option list \<Rightarrow> string" where
  "received bs = concat (map (grow []) bs)"

lemma grow_eq: "grow buf b = buf @ grow [] b"
  by (cases b) (simp_all add: grow_def)

section \<open>Quoted words\<close>












section \<open>Properties\<close>

lemma read_reply_step:
  assumes "\<not> endswith end_mark buf" "h_read H p w = Some (Inr b, w1)"
  shows "read_reply H p None t0 buf w = read_reply H p None t0 (buf @ grow [] b) w1"
  using assms by (subst read_reply.simps) (simp add: io_simps timed_out_def grow_eq [of buf b])

lemma read_reply_chunks:
  assumes "utf8_ok [] out"
  shows "feeds H p bs w w' \<Longrightarrow> buf @ received bs = frame out rc \<Longrightarrow> bs \<noteq> [] \<Longrightarrow> grow [] (last bs) \<noteq> [] \<Longrightarrow>
    read_reply H p None t0 buf w = Some (Inr (int rc, out), w')"
proof (induction bs arbitrary: buf w)
  case (Cons b bs)
  have FFout: "FF \<notin> set out" by (rule utf8_no_FF [OF _ assms]) simp
  have "received (b # bs) \<noteq> []"
    using Cons.prems(3,4) last_in_set [of "b # bs"] by (auto simp: received_def)
  then have ne: "\<not> endswith end_mark buf"
    using frame_ends_once [of out rc buf "received (b # bs)"] Cons.prems(2) FFout by auto
  obtain w1 where w1: "h_read H p w = Some (Inr b, w1)" "feeds H p bs w1 w'" using Cons.prems(1) by auto
  note st = read_reply_step [OF ne w1(1), of t0]
  have f: "(buf @ grow [] b) @ received bs = frame out rc" using Cons.prems(2) by (simp add: received_def)
  show ?case
  proof (cases bs)
    case Nil
    then have "buf @ grow [] b = frame out rc" "w' = w1" using f w1(2) by (simp_all add: received_def)
    moreover have "endswith end_mark (frame out rc)" unfolding endswith_iff frame_def by (metis append_assoc)
    ultimately show ?thesis
      unfolding st by (subst read_reply.simps) (simp add: parse_frame [OF assms] io_simps)
  next
    case (Cons b' bs')
    with Cons.IH [OF w1(2) f] Cons.prems(4) st show ?thesis by simp
  qed
qed simp

text \<open>
  C14: the answer of a command is read back exactly. Whatever pieces the output of the shell
  arrives in, with any number of empty reads between them, \<open>_exec_run\<close> returns the output
  and the exit code that the shell printed: it stops neither before the second mark nor at a
  mark-like part of a UTF-8 output.
\<close>

theorem exec_reply_exact:
  assumes "feeds H p bs w w'" "received bs = out @ rc_mark @ str_nat rc @ end_mark" "utf8_ok [] out"
    and "bs \<noteq> []" "grow [] (last bs) \<noteq> []"
  shows "read_reply H p None t0 [] w = Some (Inr (int rc, out), w')"
  by (rule read_reply_chunks [OF assms(3,1)]) (use assms in \<open>simp_all add: frame_def\<close>)

text \<open>A host on which nothing happens, to be changed where a witness needs more.\<close>

definition idle_host :: "'w host" where
  "idle_host = \<lparr>h_name = retS ''here'', h_thread = getS (\<lambda>_. 0), h_cwd = retS ''/root'', h_now = retS 0,
     h_sleep = (\<lambda>_. retS ()), h_exists = (\<lambda>_. retS True), h_makedirs = (\<lambda>_. retS ()),
     h_run = (\<lambda>_ _. retS (0, [])), h_popen = (\<lambda>_. retS ''p''), h_poll = (\<lambda>_. retS False), h_wait = (\<lambda>_. retS 0),
     h_write = (\<lambda>_ d. retS (length d)), h_close = (\<lambda>_. retS ()), h_read = (\<lambda>_. retS None),
     h_read_all = (\<lambda>_. retS []), h_openpty = (\<lambda>_. retS ''t''), h_pty_read = (\<lambda>_. retS (Errno 11)),
     h_pty_write = (\<lambda>_ d. retS (length d))\<rparr>"

theorem exec_reply_exact_witness:
  "read_reply (idle_host\<lparr>h_read := (\<lambda>p w. case w of [] \<Rightarrow> Some (Inr None, []) | b # bs \<Rightarrow> Some (Inr b, bs))\<rparr>) ''p'' None 0 []
     [None, Some (''node1'' @ nl @ [CHR 0xFF]), None, Some (''RC0'' @ [CHR 0xFF]), Some (''END'' @ nl)] =
   Some (Inr (0, ''node1'' @ nl), [])"
proof -
  let ?H = "idle_host\<lparr>h_read := (\<lambda>p w. case w of [] \<Rightarrow> Some (Inr None, []) | b # bs \<Rightarrow> Some (Inr b, bs))\<rparr>"
  let ?bs = "[None, Some (''node1'' @ nl @ [CHR 0xFF]), None, Some (''RC0'' @ [CHR 0xFF]), Some (''END'' @ nl)]"
  have f: "feeds ?H ''p'' ?bs ?bs []" by simp
  have "str_nat 0 = ''0''" by code_simp
  then have r: "received ?bs = (''node1'' @ nl) @ rc_mark @ str_nat 0 @ end_mark"
    by (simp add: received_def grow_def rc_mark_def end_mark_def FF_def)
  have u: "utf8_ok [] (''node1'' @ nl)" by code_simp
  from exec_reply_exact [OF f r u] show ?thesis by (simp add: grow_def)
qed

definition demo_cont :: scont where
  "demo_cont = \<lparr>sc_obj = 1, sc_instance = ''c-n1'', sc_img = ''/img'', sc_ip = None, sc_pid = None, sc_ip_addr = None,
     sc_net = None, sc_ssh_host = ''localhost'', sc_ssh_port = ''22'', sc_ssh = [], sc_ssh_i = [], sc_local_dir = ''/tmp'',
     sc_hostname = PStr ''n1'', sc_cluster_spec = PDict [], sc_node_spec = PDict []\<rparr>"




lemma shell_keeps:
  assumes "get_shell H c s = Some (Inr (Some p), s')" "h_thread H = getS thread"
    and "thread (s_sys s') = thread (s_sys s)"
  shows "map_of (s_shells s') (sc_obj c, thread (s_sys s)) = Some p"
    and "get_shell H c s' = Some (Inr (Some p), s')"
    and "k \<noteq> (sc_obj c, thread (s_sys s)) \<Longrightarrow> map_of (s_shells s') k = map_of (s_shells s) k"
proof -
  let ?k = "(sc_obj c, thread (s_sys s))"
  have th: "sys (h_thread H) u = Some (Inr (thread (s_sys u)), u)" for u :: "'a sing"
    by (simp add: sys_def assms(2) getS_def)
  have keep: "s_shells u' = s_shells u" if "sys m u = Some (r, u')" for m :: "('a, 'b) io" and u u' r
    using that by (auto simp: sys_def split: option.splits)
  have "map_of (s_shells s') ?k = Some p \<and> (k \<noteq> ?k \<longrightarrow> map_of (s_shells s') k = map_of (s_shells s) k)" for k
  proof (cases "map_of (s_shells s) ?k")
    case (Some q)
    with assms(1) show ?thesis by (simp add: get_shell_def io_simps th)
  next
    case None
    with assms(1) show ?thesis
      by (auto simp: get_shell_def io_simps th bindS_Inr split: if_splits dest!: keep)
  qed
  then show "map_of (s_shells s') ?k = Some p" "k \<noteq> ?k \<Longrightarrow> map_of (s_shells s') k = map_of (s_shells s) k" by blast+
  then show "get_shell H c s' = Some (Inr (Some p), s')" by (simp add: get_shell_def io_simps th assms(3))
qed

text \<open>
  Every thread has a shell of its own in every container. A shell that \<open>shell\<close> returns is
  from then on the shell of this thread in this container (the next use returns it without
  starting a process), and the shells of other threads and other containers stay theirs.
\<close>

lemma shell_is_kept:
  assumes "get_shell H c s = Some (Inr (Some p), s')" "h_thread H = getS thread"
    and "thread (s_sys s') = thread (s_sys s)"
  shows "map_of (s_shells s') (sc_obj c, thread (s_sys s)) = Some p \<and>
    get_shell H c s' = Some (Inr (Some p), s') \<and>
    (\<forall>k. k \<noteq> (sc_obj c, thread (s_sys s)) \<longrightarrow> map_of (s_shells s') k = map_of (s_shells s) k)"
  using shell_keeps [OF assms] by blast

lemma shell_is_kept_instance:
  "let H = idle_host\<lparr>h_read := (\<lambda>_. retS (Some ([CHR 0xFF] @ nl)))\<rparr>;
       s = \<lparr>s_sys = 0 :: nat, s_shells = [((2, 0), ''q'')], s_objs = 3, s_write_err = None, s_db = undefined\<rparr>
   in map_of (s_shells (s\<lparr>s_shells := ((1, 0), ''p'') # s_shells s\<rparr>)) (2, 0) = Some ''q'' \<and>
      get_shell H demo_cont (s\<lparr>s_shells := ((1, 0), ''p'') # s_shells s\<rparr>) =
        Some (Inr (Some ''p''), s\<lparr>s_shells := ((1, 0), ''p'') # s_shells s\<rparr>)"
proof -
  let ?H = "idle_host\<lparr>h_read := (\<lambda>_. retS (Some ([CHR 0xFF] @ nl)))\<rparr> :: nat host"
  let ?s = "\<lparr>s_sys = 0 :: nat, s_shells = [((2, 0), ''q'')], s_objs = 3, s_write_err = None, s_db = undefined\<rparr>"
  let ?s' = "?s\<lparr>s_shells := ((1, 0), ''p'') # s_shells ?s\<rparr>"
  have sw: "shell_wait ?H p w = Some (Inr True, w)" for p w
    by (subst shell_wait.simps) (simp add: idle_host_def io_simps FF_def)
  obtain scmd where sc: "prep_scmd demo_cont (PStr ''bash -l'') PNone PNone [] = Inr scmd"
    by (simp add: prep_scmd_def cmd_text_def as_user_def exec_env_def demo_cont_def p_get_def dget_or_def dict_of_def
        append_path_def p_string_def ovis_paths_def Let_def)
  have g: "get_shell ?H demo_cont ?s = Some (Inr (Some ''p''), ?s')"
    using sc sw by (simp add: get_shell_def demo_cont_def idle_host_def sys_def io_simps bindS_def retS_def getS_def)
  have t: "h_thread ?H = getS (\<lambda>_. 0)" by (simp add: idle_host_def)
  from shell_is_kept [OF g t refl] show ?thesis by (simp add: demo_cont_def Let_def)
qed

end
