(* ===== verification/Singularity.thy ===== *)
theory Singularity
  imports SingShell TemplateSpec
begin

text \<open>
  \<open>runtime/singularity.py\<close>, second part: the instances on the singularity hosts, the life of a
  container (\<open>SContainer\<close>) and the virtual cluster (\<open>SCluster\<close>), which places its nodes with the
  heap of \<open>Heapq\<close>, takes their addresses from \<open>IPAddrDb\<close> and runs the common code of \<open>Cluster\<close>.
\<close>

section \<open>Setting up\<close>

text \<open>\<open>IPAddrDb(db_path)\<close> on the content of its file, with the configured address space.\<close>

definition open_db :: "pval option \<Rightarrow> string \<Rightarrow> addr_db res" where
  "open_db file space =
     bindE (ip_network space) (\<lambda>n.
       Inr (init_db \<lparr>content = file, locked = False, net_addr = int (network_address n), host_mask = int (hostmask n)\<rparr>))"

definition get_instance_name :: "pval \<Rightarrow> pval \<Rightarrow> string res" where
  "get_instance_name node_spec cluster_spec =
     bindE (p_index cluster_spec ''name'') (\<lambda>c. bindE (p_index node_spec ''hostname'') (\<lambda>n.
       Inr (py_str c @ ''-'' @ py_str n)))"

section \<open>Listing the instances\<close>

text \<open>The listings of all hosts run side by side and are collected in order.\<close>

definition host_port :: "string \<Rightarrow> string \<times> pval" where
  "host_port h = (case split_on CHR '':'' h of a # b # _ \<Rightarrow> (a, PStr b) | l \<Rightarrow> (hd l, PInt 22))"

definition list_cmd :: "string \<Rightarrow> string \<times> pval \<Rightarrow> string" where
  "list_cmd here = (\<lambda>(host, port).
     (if host = here \<or> host = ''localhost'' then [] else ''ssh -T '' @ host @ '' -p '' @ py_str port @ '' '') @
     ''singularity instance list --json'')"

definition tag_inst :: "string \<times> pval \<Rightarrow> pval \<Rightarrow> pval dict res" where
  "tag_inst = (\<lambda>(host, port) inst. case inst of
       PDict d \<Rightarrow> Inr (dset ''ssh_port'' port (dset ''ssh_host'' (PStr host) d))
     | _ \<Rightarrow> Inl (TypeError ''object does not support item assignment''))"

definition inst_list :: "'w host \<Rightarrow> (string \<Rightarrow> string) \<Rightarrow> sconf \<Rightarrow> ('w, pval dict list) io" where
  "inst_list H fl cf =
     bindS (h_name H) (\<lambda>here.
     bindS (mapS (\<lambda>h. bindS (h_popen H (list_cmd here (host_port h))) (\<lambda>p. retS (host_port h, p))) (cf_hosts cf)) (\<lambda>items.
     bindS (mapS (\<lambda>(hp, p).
         bindS (h_wait H p) (\<lambda>_. bindS (h_read_all H p) (\<lambda>out.
         liftE (bindE (decode out) (\<lambda>t. bindE (loads fl t) (\<lambda>objs. bindE (p_index objs ''instances'') (\<lambda>v.
           bindE (p_iter v) (mapE (tag_inst hp))))))))) items) (\<lambda>ls. retS (concat ls))))"

section \<open>Files in a container\<close>

definition exec_simple :: "'w host \<Rightarrow> scont \<Rightarrow> string \<Rightarrow> ('w sing, int \<times> string) io" where
  "exec_simple H c cmd = exec_run H c (PStr cmd) PNone None None PNone"

definition read_file :: "'w host \<Rightarrow> scont \<Rightarrow> string \<Rightarrow> ('w sing, string) io" where
  "read_file H c path =
     bindS (exec_simple H c (''cat '' @ path)) (\<lambda>(rc, out).
       if rc \<noteq> 0 then raiseS (RuntimeError out) else retS out)"


definition json_load :: "'w host \<Rightarrow> (string \<Rightarrow> string) \<Rightarrow> scont \<Rightarrow> string \<Rightarrow> ('w sing, pval) io" where
  "json_load H fl c path = bindS (read_file H c path) (\<lambda>t. liftE (loads fl t))"

definition pipe :: "'w host \<Rightarrow> scont \<Rightarrow> string \<Rightarrow> string \<Rightarrow> ('w sing, int \<times> string) io" where
  "pipe H c cmd txt = exec_run H c (PStr cmd) PNone (Some txt) None PNone"

definition CLUSTER_SPEC_PATH :: string where
  "CLUSTER_SPEC_PATH = ''/.ldms-test/cluster_spec.json''"

definition NODE_SPEC_PATH :: string where
  "NODE_SPEC_PATH = ''/.ldms-test/node_spec.json''"

section \<open>Construction\<close>

definition is_running :: "'w host \<Rightarrow> scont \<Rightarrow> ('w sing, bool) io" where
  "is_running H c = bindS (get_shell H c) (\<lambda>sh. retS (sh \<noteq> None))"

definition check_SContainer :: "'w host \<Rightarrow> scont \<Rightarrow> ('w sing, unit) io" where
  "check_SContainer H c =
     bindS (is_running H c) (\<lambda>r. whenS r
       (forS [CLUSTER_SPEC_PATH, NODE_SPEC_PATH] (\<lambda>path.
          bindS (exec_simple H c (''python3 -m json.tool '' @ path)) (\<lambda>(rc, out).
            if rc \<noteq> 0 then raiseS (TypeError ''Not a SContainer'') else retS ()))))"

text \<open>The arguments of \<open>SContainer(...)\<close>; \<open>a_cluster\<close>: a cluster is given.\<close>

record sargs =
  a_instance :: "string option"
  a_json :: "pval dict"
  a_ssh_host :: string
  a_ssh_port :: string
  a_local_dir :: string
  a_hostname :: string
  a_img :: string
  a_cluster :: bool
  a_ip_addr :: "string option"
  a_net :: "ipnet option"
  a_cspec :: pval
  a_nspec :: pval

definition no_args :: sargs where
  "no_args = \<lparr>a_instance = None, a_json = [], a_ssh_host = ''localhost'', a_ssh_port = ''22'', a_local_dir = [],
     a_hostname = [], a_img = [], a_cluster = False, a_ip_addr = None, a_net = None, a_cspec = PDict [], a_nspec = PDict []\<rparr>"

text \<open>The instance, image, address and process: from singularity's listing, or from the arguments.\<close>

definition JSON_KEYS :: "string list" where
  "JSON_KEYS = [''instance'', ''img'', ''ip'', ''pid'']"

definition json_attrs :: "pval dict \<Rightarrow> (string \<times> string \<times> pval \<times> pval) res" where
  "json_attrs j =
     bindE (mapE (dindex j) JSON_KEYS) (\<lambda>vs.
     bindE (p_string (vs ! 0)) (\<lambda>inst. bindE (p_string (vs ! 1)) (\<lambda>img. Inr (inst, img, vs ! 2, vs ! 3))))"

definition own_attrs :: "sconf \<Rightarrow> sargs \<Rightarrow> (string \<times> string \<times> pval option \<times> pval option) res" where
  "own_attrs cf a =
     (if a_json a \<noteq> [] then
        bindE (json_attrs (a_json a)) (\<lambda>(inst, img, ip, pid).
          if a_instance a \<notin> {None, Some [], Some inst}
          then Inl (RuntimeError ''`instance` not matching `sing_json[instance]`'') else Inr (inst, img, Some ip, Some pid))
      else
        (case a_instance a of
           Some (x # xs) \<Rightarrow>
             bindE (if a_img a \<noteq> [] then Inr (PStr (a_img a)) else p_get (a_cspec a) ''image'' (cf_image cf)) (\<lambda>v.
               if truthy v then bindE (p_string v) (\<lambda>img. Inr (x # xs, img, None, None))
               else Inl (ValueError ''`img` parameter, `cluster_spec[image]`, and `image` configuration are not specified''))
         | _ \<Rightarrow> Inl (ValueError ''Missing `instance` parameter'')))"

definition new_scont :: "string \<Rightarrow> sconf \<Rightarrow> nat \<Rightarrow> sargs \<Rightarrow> scont res" where
  "new_scont here cf obj a =
     bindE (own_attrs cf a) (\<lambda>(inst, img, ip, pid).
     bindE (if a_hostname a \<noteq> [] then Inr (PStr (a_hostname a)) else p_get (a_nspec a) ''hostname'' (PStr inst)) (\<lambda>hn.
     let near = (a_ssh_host a = here \<or> a_ssh_host a = ''localhost'');
         at = a_ssh_host a @ '' -p '' @ a_ssh_port a
     in Inr \<lparr>sc_obj = obj, sc_instance = inst, sc_img = img, sc_ip = ip, sc_pid = pid, sc_ip_addr = a_ip_addr a,
          sc_net = a_net a, sc_ssh_host = a_ssh_host a, sc_ssh_port = a_ssh_port a,
          sc_ssh = (if near then [] else ''ssh -T '' @ at), sc_ssh_i = (if near then [] else ''ssh -t '' @ at),
          sc_local_dir = (if a_local_dir a \<noteq> [] then a_local_dir a else cf_local_dir cf @ ''/'' @ inst),
          sc_hostname = hn, sc_cluster_spec = a_cspec a, sc_node_spec = a_nspec a\<rparr>))"

definition sc_init :: "'w host \<Rightarrow> (string \<Rightarrow> string) \<Rightarrow> sconf \<Rightarrow> sargs \<Rightarrow> ('w sing, scont) io" where
  "sc_init H fl cf a =
     bindS (getS s_objs) (\<lambda>obj. seqS (updS (\<lambda>s. s\<lparr>s_objs := Suc obj\<rparr>))
     (bindS (sys (h_name H)) (\<lambda>here.
     bindS (liftE (new_scont here cf obj a)) (\<lambda>c.
     bindS (is_running H c) (\<lambda>r.
       if r then
         seqS (check_SContainer H c)
         (bindS (json_load H fl c CLUSTER_SPEC_PATH) (\<lambda>cs.
          bindS (json_load H fl (c\<lparr>sc_cluster_spec := cs\<rparr>) NODE_SPEC_PATH) (\<lambda>ns.
            retS (c\<lparr>sc_cluster_spec := cs, sc_node_spec := ns\<rparr>))))
       else retS c)))))"

text \<open>
  A class with abstract methods has no instances: \<open>abstract\<close> are the abstract methods of the base
  class \<open>LDMSDContainer\<close>, the other list the methods that \<open>SContainer\<close> defines.
\<close>

definition container_abstract :: "string list" where
  "container_abstract =
     [''start'', ''stop'', ''exec_run'', ''pipe'', ''write_file'', ''read_file'', ''exec_interact'', ''get_interfaces'',
      ''get_ip_addr'', ''get_ipv6_addr'', ''get_name'', ''get_hostname'', ''get_aliases'', ''get_host'', ''get_env'']"

definition scont_methods :: "string list" where
  "scont_methods =
     [''__init__'', ''check_SContainer'', ''__repr__'', ''json_load'', ''list'', ''find'', ''as_dict'', ''as_json'', ''get_ip_addr'',
      ''set_ip_addr'', ''_prep_scmd'', ''shell'', ''_exec_run'', ''_exec_run_old'', ''exec_run'', ''pipe'', ''exec_interact'',
      ''get_env'', ''get_name'', ''get_hostname'', ''get_host'', ''get_aliases'', ''get_interfaces'', ''read_file'', ''write_file'',
      ''start'', ''stop'', ''is_running'', ''cluster_name'', ''cluster_spec'', ''get_cluster_spec'']"

definition instantiate :: "string list \<Rightarrow> string list \<Rightarrow> ('w, 'a) io \<Rightarrow> ('w, 'a) io" where
  "instantiate abstract methods init =
     (if \<forall>m \<in> set abstract. m \<in> set methods then init
      else raiseS (TypeError ''Cannot instantiate abstract class''))"

definition sc_new :: "'w host \<Rightarrow> (string \<Rightarrow> string) \<Rightarrow> sconf \<Rightarrow> sargs \<Rightarrow> ('w sing, scont) io" where
  "sc_new H fl cf a = instantiate container_abstract scont_methods (sc_init H fl cf a)"

definition inst_args :: "pval dict \<Rightarrow> sargs res" where
  "inst_args inst =
     bindE (dindex inst ''ssh_host'') (\<lambda>h. bindE (dindex inst ''ssh_port'') (\<lambda>p.
       Inr (no_args\<lparr>a_json := inst, a_ssh_host := py_str h, a_ssh_port := py_str p\<rparr>)))"

definition from_inst :: "'w host \<Rightarrow> (string \<Rightarrow> string) \<Rightarrow> sconf \<Rightarrow> bool \<Rightarrow> pval dict \<Rightarrow> ('w sing, scont) io" where
  "from_inst H fl cf cl inst =
     bindS (liftE (inst_args inst)) (\<lambda>a. sc_new H fl cf (a\<lparr>a_cluster := cl\<rparr>))"

text \<open>Instances that are not an \<open>SContainer\<close> (a \<open>TypeError\<close>) are skipped.\<close>

definition try_inst :: "'w host \<Rightarrow> (string \<Rightarrow> string) \<Rightarrow> sconf \<Rightarrow> pval dict \<Rightarrow> ('w sing, scont list) io" where
  "try_inst H fl cf i =
     catchS (bindS (from_inst H fl cf False i) (\<lambda>c. retS [c]))
       (\<lambda>e. case e of TypeError _ \<Rightarrow> retS [] | _ \<Rightarrow> raiseS e)"

definition sc_list :: "'w host \<Rightarrow> (string \<Rightarrow> string) \<Rightarrow> sconf \<Rightarrow> ('w sing, scont list) io" where
  "sc_list H fl cf =
     bindS (sys (inst_list H fl cf)) (\<lambda>insts.
     bindS (mapS (try_inst H fl cf) insts) (\<lambda>ls. retS (concat ls)))"

fun find_inst :: "string \<Rightarrow> pval dict list \<Rightarrow> pval dict option res" where
  "find_inst name [] = Inr None"
| "find_inst name (i # is) =
     bindE (dindex i ''instance'') (\<lambda>v. if v = PStr name then Inr (Some i) else find_inst name is)"

definition sc_find :: "'w host \<Rightarrow> (string \<Rightarrow> string) \<Rightarrow> sconf \<Rightarrow> string \<Rightarrow> ('w sing, scont option) io" where
  "sc_find H fl cf name =
     bindS (sys (inst_list H fl cf)) (\<lambda>insts. bindS (liftE (find_inst name insts)) (\<lambda>r.
       case r of None \<Rightarrow> retS None | Some i \<Rightarrow> bindS (from_inst H fl cf False i) (\<lambda>c. retS (Some c))))"

section \<open>What a container tells\<close>

definition as_dict :: "scont \<Rightarrow> pval dict res" where
  "as_dict c =
     (case (sc_ip c, sc_pid c) of
        (Some ip, Some pid) \<Rightarrow>
          Inr [(''instance'', PStr (sc_instance c)), (''img'', PStr (sc_img c)), (''ip'', ip), (''pid'', pid)]
      | _ \<Rightarrow> Inl (AttributeError ''ip''))"

definition as_json :: "scont \<Rightarrow> string res" where
  "as_json c = bindE (as_dict c) (\<lambda>d. Inr (dumps (PDict d)))"

text \<open>\<open>IP_RE\<close> on a line of \<open>fib_trie\<close>; network, loopback and broadcast addresses are passed over.\<close>

definition fib_addr :: "string \<Rightarrow> string option" where
  "fib_addr l =
     (let t = dropWhile is_space l; a = takeWhile (\<lambda>c. is_digit c \<or> c = CHR ''.'') (drop 4 t) in
      if startswith ''|-- '' t \<and> a \<noteq> [] then Some a else None)"

definition host_addr :: "string \<Rightarrow> bool" where
  "host_addr a \<longleftrightarrow> \<not> (endswith ''.0'' a \<or> startswith ''127.'' a \<or> endswith ''.255'' a)"

definition fib_first :: "string \<Rightarrow> string option" where
  "fib_first txt = List.find host_addr (List.map_filter fib_addr (splitlines_acc [] txt))"

definition get_ip_addr :: "'w host \<Rightarrow> scont \<Rightarrow> ('w sing, string option) io" where
  "get_ip_addr H c =
     (case sc_pid c of
        None \<Rightarrow> raiseS (AttributeError ''pid'')
      | Some pid \<Rightarrow>
          bindS (sys (h_run H (sc_ssh c @ '' cat /proc/'' @ py_str pid @ ''/net/fib_trie'') None)) (\<lambda>(rc, out).
            if rc \<noteq> 0 then raiseS (RuntimeError out)
            else bindS (liftE (decode out)) (\<lambda>t. retS (fib_first t))))"

definition set_ip_addr :: "'w host \<Rightarrow> scont \<Rightarrow> string \<Rightarrow> ('w sing, unit) io" where
  "set_ip_addr H c ip =
     bindS (pipe H c ''bash'' (''set -e; ip addr flush dev eth0; ip addr add '' @ ip @ '' dev eth0;'')) (\<lambda>(rc, out).
       if rc \<noteq> 0 then raiseS (RuntimeError out) else retS ())"

text \<open>\<open>get_env\<close>: entries end with a NUL; an entry without \<open>=\<close> is a sequence of length 1 for \<open>dict\<close>.\<close>

definition env_entry :: "string \<Rightarrow> (string \<times> string) res" where
  "env_entry s =
     (case split1 CHR ''='' s of
        [k, v] \<Rightarrow> Inr (k, v)
      | _ \<Rightarrow> Inl (ValueError ''dictionary update sequence element has length 1; 2 is required''))"

definition get_env :: "'w host \<Rightarrow> scont \<Rightarrow> ('w sing, string dict) io" where
  "get_env H c =
     bindS (exec_simple H c ''env -0'') (\<lambda>(rc, out).
       if rc \<noteq> 0 then raiseS (RuntimeError out)
       else liftE (bindE (mapE env_entry (filter (\<lambda>s. s \<noteq> []) (split_on CHR 0x00 out))) (\<lambda>l. Inr (dupdate [] l))))"

definition get_hostname :: "'w host \<Rightarrow> scont \<Rightarrow> ('w sing, string) io" where
  "get_hostname H c = bindS (exec_simple H c ''hostname -s'') (\<lambda>(rc, out). retS (strip out))"


text \<open>\<open>ip_addr[0]\<close> of a text is its first character.\<close>

definition get_interfaces :: "'w host \<Rightarrow> scont \<Rightarrow> ('w sing, (string \<times> string option) list) io" where
  "get_interfaces H c =
     bindS (get_ip_addr H c) (\<lambda>a.
       retS [(''eth0'', case a of Some (x # xs) \<Rightarrow> Some [x] | _ \<Rightarrow> None)])"

section \<open>Start and stop\<close>








definition sc_stop :: "'w host \<Rightarrow> scont \<Rightarrow> ('w sing, unit) io" where
  "sc_stop H c =
     bindS (sys (h_run H (sc_ssh c @ '' singularity instance stop '' @ sc_instance c) None)) (\<lambda>(rc, out).
       if rc \<noteq> 0 then raiseS (RuntimeError out) else retS ())"

text \<open>The specification a container carries; \<open>Spec(...)\<close> may not return.\<close>

definition get_cluster_spec :: "'w host \<Rightarrow> (string \<Rightarrow> string) \<Rightarrow> scont \<Rightarrow> ('w sing, pval dict option) io" where
  "get_cluster_spec H fl c =
     bindS (read_file H c CLUSTER_SPEC_PATH) (\<lambda>j.
       if j = [] then retS None
       else bindS (liftE (loads fl j)) (\<lambda>v. bindS (liftO (spec_init v)) (\<lambda>sp. retS (Some (items sp)))))"

definition cluster_name :: "'w host \<Rightarrow> (string \<Rightarrow> string) \<Rightarrow> scont \<Rightarrow> ('w sing, pval) io" where
  "cluster_name H fl c =
     bindS (get_cluster_spec H fl c) (\<lambda>sp. retS (case sp of Some (x # xs) \<Rightarrow> dget_or (x # xs) ''name'' PNone | _ \<Rightarrow> PNone))"

section \<open>The cluster\<close>

record scluster =
  cl_name :: pval
  cl_conts :: "scont list"
  cl_idx :: "scont dict"
  cl_spec :: "pval dict"

definition new_cluster :: "pval \<Rightarrow> scluster" where
  "new_cluster name = \<lparr>cl_name = name, cl_conts = [], cl_idx = [], cl_spec = []\<rparr>"

definition add_cont :: "string \<Rightarrow> scont \<Rightarrow> scluster \<Rightarrow> scluster" where
  "add_cont hn c cl = cl\<lparr>cl_conts := cl_conts cl @ [c], cl_idx := dset hn c (cl_idx cl)\<rparr>"

definition sort_conts :: "scluster \<Rightarrow> scluster" where
  "sort_conts cl = cl\<lparr>cl_conts := sort_key sc_instance (cl_conts cl)\<rparr>"

text \<open>
  Placement: an entry of the heap for every host (by name, the last one of a name counts) with
  the containers that run there; every node goes to the top of the heap.
\<close>

type_synonym hosted = "(scont + pval) hentry"

definition add_existing :: "hosted dict \<Rightarrow> scont \<Rightarrow> hosted dict res" where
  "add_existing heap c =
     bindE (dindex heap (sc_ssh_host c)) (\<lambda>(h, l). Inr (dset (sc_ssh_host c) (h, l @ [Inl c]) heap))"

definition host_heap :: "string list \<Rightarrow> scont list \<Rightarrow> hosted list res" where
  "host_heap hs conts =
     bindE (foldE add_existing (dupdate [] (map (\<lambda>h. (hd (split_on CHR '':'' h), (h, []))) hs)) conts) (\<lambda>d.
       Inr (heapify busy (map snd d)))"

fun place_nodes :: "'n hentry list \<Rightarrow> 'n list \<Rightarrow> (string \<times> 'n) list \<times> 'n hentry list" where
  "place_nodes heap [] = ([], heap)"
| "place_nodes heap (n # ns) =
     (let ent = heap ! 0; (r, heap') = place_nodes (heapreplace busy heap (fst ent, snd ent @ [n])) ns
      in ((fst ent, n) # r, heap'))"

definition sing_host_port :: "string \<Rightarrow> string \<times> string" where
  "sing_host_port h = (case split1 CHR '':'' h of [a, b] \<Rightarrow> (a, b) | _ \<Rightarrow> (h, ''22''))"

text \<open>The node with its host and port; the heap may be empty, and a node may not be a dict.\<close>

definition set_host :: "string \<times> pval \<Rightarrow> pval res" where
  "set_host = (\<lambda>(h, node).
     case node of
       PDict d \<Rightarrow> Inr (PDict (dset ''sing_port'' (PStr (snd (sing_host_port h)))
                              (dset ''sing_host'' (PStr (fst (sing_host_port h))) d)))
     | _ \<Rightarrow> Inl (TypeError ''object does not support item assignment''))"

definition node_of :: "scont + pval \<Rightarrow> pval" where
  "node_of x = (case x of Inr v \<Rightarrow> v | Inl _ \<Rightarrow> PNone)"

definition assign_hosts :: "hosted list \<Rightarrow> pval list \<Rightarrow> pval list res" where
  "assign_hosts heap nodes =
     (if heap = [] \<and> nodes \<noteq> [] then Inl IndexError
      else mapE (\<lambda>(h, n). set_host (h, node_of n)) (fst (place_nodes heap (map Inr nodes))))"













text \<open>\<open>_get\<close>: the instances whose name begins with the cluster name and a dash.\<close>

definition of_cluster :: "string \<Rightarrow> pval dict \<Rightarrow> bool res" where
  "of_cluster name inst = bindE (bindE (dindex inst ''instance'') p_string) (\<lambda>i. Inr (startswith (name @ ''-'') i))"

fun gather :: "'w host \<Rightarrow> (string \<Rightarrow> string) \<Rightarrow> sconf \<Rightarrow> string \<Rightarrow> scluster \<Rightarrow> pval dict list \<Rightarrow> ('w sing, scluster) io" where
  "gather H fl cf name cl [] = retS cl"
| "gather H fl cf name cl (i # is) =
     bindS (liftE (of_cluster name i)) (\<lambda>b.
       if b then bindS (from_inst H fl cf True i) (\<lambda>c. bindS (get_hostname H c) (\<lambda>hn. gather H fl cf name (add_cont hn c cl) is))
       else gather H fl cf name cl is)"

definition cl_get :: "'w host \<Rightarrow> (string \<Rightarrow> string) \<Rightarrow> sconf \<Rightarrow> string \<Rightarrow> ('w sing, scluster) io" where
  "cl_get H fl cf name =
     bindS (sys (inst_list H fl cf)) (\<lambda>insts.
     bindS (gather H fl cf name (new_cluster (PStr name)) insts) (\<lambda>cl.
       if cl_conts cl = [] then raiseS (LookupError (''`'' @ name @ ''` cluster not found'')) else retS (sort_conts cl)))"

text \<open>The addresses go back after all containers stopped.\<close>

definition cl_remove :: "'w host \<Rightarrow> scluster \<Rightarrow> ('w sing, unit) io" where
  "cl_remove H cl =
     seqS (forS (cl_conts cl) (sc_stop H))
     (bindS (getS s_db) (\<lambda>db. let (r, db') = free_addr (py_str (cl_name cl)) db in
       seqS (updS (\<lambda>s. s\<lparr>s_db := db'\<rparr>)) (liftE r)))"

definition get_container :: "scluster \<Rightarrow> string \<Rightarrow> scont option" where
  "get_container cl name = dget (cl_idx cl) name"

text \<open>\<open>_list\<close>: the containers by the name of their cluster (the key is a name or None).\<close>

fun group :: "'w host \<Rightarrow> (string \<Rightarrow> string) \<Rightarrow> (pval \<times> scluster) list \<Rightarrow> scont list \<Rightarrow> ('w sing, (pval \<times> scluster) list) io" where
  "group H fl cls [] = retS cls"
| "group H fl cls (c # cs) =
     bindS (cluster_name H fl c) (\<lambda>k.
     bindS (get_hostname H c) (\<lambda>hn.
     let cls' = (if k \<in> fst ` set cls then cls else cls @ [(k, new_cluster k)])
     in group H fl (map (\<lambda>(k', cl). (k', if k' = k then add_cont hn c cl else cl)) cls') cs))"

definition cl_list :: "'w host \<Rightarrow> (string \<Rightarrow> string) \<Rightarrow> sconf \<Rightarrow> ('w sing, scluster list) io" where
  "cl_list H fl cf =
     bindS (sc_list H fl cf) (\<lambda>conts. bindS (group H fl [] conts) (\<lambda>cls. retS (map (\<lambda>p. sort_conts (snd p)) cls)))"

section \<open>Placement\<close>

lemma place_nodes_eq: "place_nodes heap ns = hq.place heap ns"
  by (induction ns arbitrary: heap) (simp_all add: Let_def)

abbreviation host_of :: "string \<Rightarrow> string" where
  "host_of h \<equiv> hd (split_on CHR '':'' h)"

text \<open>The containers that run on a host.\<close>

definition running :: "scont list \<Rightarrow> string \<Rightarrow> nat" where
  "running conts h = length (filter (\<lambda>c. sc_ssh_host c = host_of h) conts)"

definition heap_ok :: "string list \<Rightarrow> scont list \<Rightarrow> hosted dict \<Rightarrow> bool" where
  "heap_ok hs conts d \<longleftrightarrow> distinct (dkeys d) \<and> set (dkeys d) = host_of ` set hs \<and>
     (\<forall>k h l. dget d k = Some (h, l) \<longrightarrow> k = host_of h \<and> h \<in> set hs \<and> length l = running conts h)"

lemma heap_ok_start: "heap_ok hs [] (dupdate [] (map (\<lambda>h. (host_of h, (h, []))) hs))"
proof -
  let ?e = "map (\<lambda>h. (host_of h, (h, [] :: (scont + pval) list))) hs"
  have "distinct (dkeys (dupdate [] ?e))" by (rule dupdate_distinct) simp
  moreover have "k = host_of h \<and> h \<in> set hs \<and> length l = running [] h" if "dget (dupdate [] ?e) k = Some (h, l)" for k h l
    using dupdate_items [OF map_of_SomeD [OF that]] unfolding running_def by auto
  moreover have "set (dkeys (dupdate [] ?e)) = host_of ` set hs" by (simp add: dupdate_keys image_image)
  ultimately show ?thesis unfolding heap_ok_def by blast
qed

lemma add_existingE:
  assumes "add_existing d c = Inr d'"
  obtains h l where "dget d (sc_ssh_host c) = Some (h, l)" "d' = dset (sc_ssh_host c) (h, l @ [Inl c]) d"
proof (cases "dget d (sc_ssh_host c)")
  case None
  with assms show ?thesis by (simp add: add_existing_def dindex_def)
next
  case (Some p)
  obtain h l where "p = (h, l)" by (cases p)
  with assms Some that show ?thesis by (simp add: add_existing_def dindex_def)
qed

lemma heap_ok_add:
  assumes "heap_ok hs conts d" "add_existing d c = Inr d'"
  shows "heap_ok hs (conts @ [c]) d'"
proof -
  let ?k = "sc_ssh_host c"
  note ok = assms(1) [unfolded heap_ok_def]
  from assms(2) obtain h l where g: "dget d ?k = Some (h, l)" and d': "d' = dset ?k (h, l @ [Inl c]) d"
    by (rule add_existingE)
  have k: "?k = host_of h \<and> h \<in> set hs \<and> length l = running conts h" using ok g by blast
  have "?k \<in> set (dkeys d)" using dget_None_iff [of d ?k] g by simp
  then have "set (dkeys d') = set (dkeys d)" unfolding d' by (simp add: dset_keys insert_absorb)
  moreover have "distinct (dkeys d')" unfolding d' using ok by (intro dset_distinct) blast
  moreover have "j = host_of x \<and> x \<in> set hs \<and> length y = running (conts @ [c]) x" if "dget d' j = Some (x, y)" for j x y
  proof (cases "j = ?k")
    case True
    then have "x = h" "y = l @ [Inl c]" using that by (simp_all add: d' dset_get)
    with k True show ?thesis by (simp add: running_def)
  next
    case False
    then have "dget d j = Some (x, y)" using that by (simp add: d' dset_get)
    with ok have "j = host_of x \<and> x \<in> set hs \<and> length y = running conts x" by blast
    with False show ?thesis by (simp add: running_def)
  qed
  ultimately show ?thesis unfolding heap_ok_def using ok by simp
qed

lemma heap_ok_all: "foldE add_existing d conts = Inr d' \<Longrightarrow> heap_ok hs old d \<Longrightarrow> heap_ok hs (old @ conts) d'"
proof (induction conts arbitrary: d old)
  case (Cons c conts)
  then obtain d1 where d1: "add_existing d c = Inr d1" "foldE add_existing d1 conts = Inr d'" by (auto simp: res_simps)
  from Cons.IH [OF d1(2) heap_ok_add [OF Cons.prems(2) d1(1)]] show ?case by simp
qed simp

lemma host_heap_ok:
  assumes "host_heap hs conts = Inr heap"
  shows "distinct (map fst heap)" "heap_from busy 0 heap" "host_of ` fst ` set heap = host_of ` set hs"
    "\<forall>e \<in> set heap. fst e \<in> set hs \<and> busy e = running conts (fst e)"
proof -
  from assms obtain d where d: "foldE add_existing (dupdate [] (map (\<lambda>h. (host_of h, (h, []))) hs)) conts = Inr d"
    and heap: "heap = heapify busy (map snd d)" by (auto simp: host_heap_def res_simps)
  from heap_ok_all [OF d heap_ok_start] have ok: "heap_ok hs conts d" by simp
  then have dd: "distinct (dkeys d)" and kk: "set (dkeys d) = host_of ` set hs" by (simp_all add: heap_ok_def)
  have it: "fst x = host_of (fst (snd x)) \<and> fst (snd x) \<in> set hs \<and> busy (snd x) = running conts (fst (snd x))"
    if "x \<in> set d" for x
  proof -
    have "dget d (fst x) = Some (fst (snd x), snd (snd x))" using that dd dget_item [of d "fst x" "snd x"] by simp
    with ok show ?thesis unfolding heap_ok_def by blast
  qed
  have ms: "mset heap = mset (map snd d)" unfolding heap by (rule heapify_spec)
  then have st: "set heap = snd ` set d" by (metis set_map set_mset_mset)
  have "map fst d = map host_of (map (\<lambda>x. fst (snd x)) d)" using it by simp
  then have "distinct (map (\<lambda>x. fst (snd x)) d)" using dd by (metis distinct_map)
  moreover have "mset (map fst heap) = mset (map (\<lambda>x. fst (snd x)) d)"
    using ms by (metis (no_types, lifting) comp_apply map_map mset_map map_eq_conv)
  ultimately show "distinct (map fst heap)" by (metis mset_eq_imp_distinct_iff)
  show "heap_from busy 0 heap" unfolding heap by (rule heapify_spec)
  have "host_of ` fst ` snd ` set d = fst ` set d" using it by (force simp: image_image)
  then show "host_of ` fst ` set heap = host_of ` set hs" unfolding st using kk by simp
  show "\<forall>e \<in> set heap. fst e \<in> set hs \<and> busy e = running conts (fst e)" unfolding st using it by blast
qed

lemma count_list_filter: "length (filter (\<lambda>x. fst x = h) r) = count_list (map fst r) h"
  by (induction r) auto

lemma zip_nodes: "map snd r = map Inr nodes \<Longrightarrow> map (\<lambda>x. (fst x, node_of (snd x))) r = zip (map fst r) nodes"
  by (induction r arbitrary: nodes) (auto simp: node_of_def Cons_eq_map_conv)

text \<open>
  C7: nodes go to idle hosts. \<open>SCluster._create\<close> gives every node, in order, a host of the
  configuration (as \<open>sing_host\<close> and \<open>sing_port\<close>), and such that no host that got a node has more
  than one container in excess of any other host, the running containers of all clusters
  counted. The law of \<open>least_loaded\<close> holds of the list heap.
\<close>

theorem nodes_spread_over_hosts:
  assumes "host_heap hs conts = Inr heap" "assign_hosts heap nodes = Inr placed"
  shows "\<exists>on. length on = length nodes \<and> mapE set_host (zip on nodes) = Inr placed \<and> set on \<subseteq> fst ` set heap \<and>
    fst ` set heap \<subseteq> set hs \<and> host_of ` fst ` set heap = host_of ` set hs \<and>
    (\<forall>h \<in> set on. \<forall>h' \<in> fst ` set heap.
       running conts h + count_list on h \<le> running conts h' + count_list on h' + 1)"
proof (cases "heap = []")
  case True
  with assms(2) have "nodes = [] \<and> placed = []" by (auto simp: assign_hosts_def split: if_splits)
  with True host_heap_ok(3) [OF assms(1)] show ?thesis by (intro exI [of _ "[]"]) simp
next
  case False
  note ok = host_heap_ok [OF assms(1)]
  have ne: "mset heap \<noteq> {#}" using False by simp
  have one: "hq.one_each (mset heap)"
    unfolding hq.one_each_def using ok(1) by (simp add: distinct_count_atmost_1 flip: mset_map)
  have "hq.level {} (mset heap)" by (simp add: hq.level_def)
  from hq.place_spec [OF ok(2) ne this one, of "map Inr nodes"] obtain r q where
    r: "place_nodes heap (map Inr nodes) = (r, q)" "map snd r = map Inr nodes" "hq.level (set (map fst r)) (mset q)"
      "image_mset fst (mset q) = image_mset fst (mset heap)" "set (map fst r) \<subseteq> fst ` set heap"
      "\<forall>e' \<in># mset q. \<exists>e \<in># mset heap. fst e = fst e' \<and> snd e' = snd e @ map snd (filter (\<lambda>x. fst x = fst e) r)"
    unfolding place_nodes_eq by auto
  let ?on = "map fst r"
  have lr: "length r = length nodes" using r(2) by (metis length_map)
  have z: "map (\<lambda>x. (fst x, node_of (snd x))) r = zip ?on nodes" by (rule zip_nodes [OF r(2)])
  have load: "\<exists>e' \<in> set q. fst e' = h \<and> busy e' = running conts h + count_list ?on h" if "h \<in> fst ` set heap" for h
  proof -
    have "fst ` set q = fst ` set heap" using r(4) by (metis set_image_mset set_mset_mset)
    with that have "h \<in> fst ` set q" by simp
    then obtain e' where e': "e' \<in> set q" "fst e' = h" by blast
    with r(6) obtain e where e: "e \<in> set heap" "fst e = h" "snd e' = snd e @ map snd (filter (\<lambda>x. fst x = h) r)"
      by auto
    then have "busy e' = running conts h + count_list ?on h" using ok(4) count_list_filter [of h r] by simp
    with e' show ?thesis by blast
  qed
  have "running conts h + count_list ?on h \<le> running conts h' + count_list ?on h' + 1"
    if "h \<in> set ?on" "h' \<in> fst ` set heap" for h h'
  proof -
    from that(1) r(5) have "h \<in> fst ` set heap" by blast
    from load [OF this] load [OF that(2)] obtain e e' where
      "e \<in> set q" "fst e = h" "busy e = running conts h + count_list ?on h"
      "e' \<in> set q" "fst e' = h'" "busy e' = running conts h' + count_list ?on h'" by blast
    with r(3) that(1) show ?thesis unfolding hq.level_def by (metis set_mset_mset)
  qed
  moreover have "mapE set_host (zip ?on nodes) = Inr placed"
    using assms(2) False r(1) by (simp add: assign_hosts_def mapE_map case_prod_unfold flip: z)
  moreover have "fst ` set heap \<subseteq> set hs" using ok(4) by blast
  ultimately show ?thesis using lr r(5) ok(3) by (intro exI [of _ ?on]) simp
qed

theorem nodes_spread_over_hosts_witness:
  "\<exists>heap placed on. host_heap [''a'', ''b:2222''] [demo_cont\<lparr>sc_ssh_host := ''b''\<rparr>] = Inr heap \<and>
    assign_hosts heap [PDict [(''hostname'', PStr ''n1'')], PDict [(''hostname'', PStr ''n2'')]] = Inr placed \<and>
    mapE set_host (zip on [PDict [(''hostname'', PStr ''n1'')], PDict [(''hostname'', PStr ''n2'')]]) = Inr placed \<and>
    (\<forall>h \<in> set on. \<forall>h' \<in> fst ` set heap.
       running [demo_cont\<lparr>sc_ssh_host := ''b''\<rparr>] h + count_list on h \<le>
       running [demo_cont\<lparr>sc_ssh_host := ''b''\<rparr>] h' + count_list on h' + 1)"
proof -
  let ?c = "demo_cont\<lparr>sc_ssh_host := ''b''\<rparr>"
  let ?ns = "[PDict [(''hostname'', PStr ''n1'')], PDict [(''hostname'', PStr ''n2'')]]"
  have 1: "host_heap [''a'', ''b:2222''] [?c] = Inr [(''a'', []), (''b:2222'', [Inl ?c])]"
  proof -
    have "foldE add_existing (dupdate [] (map (\<lambda>h. (host_of h, (h, []))) [''a'', ''b:2222''])) [?c] =
        Inr [(''a'', ''a'', []), (''b'', ''b:2222'', [Inl ?c])]"
      by (simp add: dupdate_def add_existing_def dindex_def)
    moreover have "heapify busy [(''a'', []), (''b:2222'', [Inl ?c])] = [(''a'', []), (''b:2222'', [Inl ?c])]"
      by (simp add: heap_eval)
    ultimately show ?thesis by (simp add: host_heap_def)
  qed
  have "\<exists>placed. assign_hosts [(''a'', []), (''b:2222'', [Inl ?c])] ?ns = Inr placed"
    by (simp add: assign_hosts_def heap_eval set_host_def node_of_def Let_def)
  then obtain placed where 2: "assign_hosts [(''a'', []), (''b:2222'', [Inl ?c])] ?ns = Inr placed" by (rule exE)
  from nodes_spread_over_hosts [OF 1 2] obtain on where
    on: "mapE set_host (zip on ?ns) = Inr placed"
      "\<forall>h \<in> set on. \<forall>h' \<in> fst ` set ([(''a'', []), (''b:2222'', [Inl ?c])] :: hosted list).
         running [?c] h + count_list on h \<le> running [?c] h' + count_list on h' + 1" by (elim exE conjE) (rule that, assumption+)
  show ?thesis by (rule exI, rule exI, rule exI, rule conjI [OF 1], rule conjI [OF 2], rule conjI [OF on])
qed

section \<open>The missing method\<close>



























text \<open>Two more consequences of the way instances are named and environments are read.\<close>

lemma prefix_takes_other_cluster:
  "of_cluster ''a'' [(''instance'', PStr ''a-b-n1'')] = Inr True \<and>
   get_instance_name (PDict [(''hostname'', PStr ''n1'')]) (PDict [(''name'', PStr ''a-b'')]) = Inr ''a-b-n1''"
  by (simp add: of_cluster_def get_instance_name_def dindex_def p_string_def p_index_def startswith_def)

lemma env_list_breaks_shell:
  "sc_cluster_spec c = PDict [(''env'', PList [PStr ''FOO=BAR''])] \<Longrightarrow> \<exists>m. prep_scmd c cmd env user via = Inl (ValueError m) \<or>
    (\<exists>e. bindE (cmd_text cmd) (as_user user) = Inl e)"
  by (cases "bindE (cmd_text cmd) (as_user user)")
    (simp_all add: prep_scmd_def exec_env_def p_get_def dget_or_def dict_of_def p_iter_def dict_item_def)

end
