(* ===== verification/Topology.thy ===== *)
theory Topology
  imports Config
begin

text \<open>
  The daemons of the scalability test (\<open>scalability/ldmsdutils.py\<close>): their names, levels and
  indices, who aggregates whom, the sets each one is expected to list, and the configuration
  texts and command lines. The file \<open>config.py\<close>, which the user writes, is the record \<open>conf\<close>;
  intervals, ports and counts are natural numbers.
\<close>

section \<open>The configuration\<close>

record conf =
  c_myhost :: string
  c_prefix :: string
  c_samp_hosts :: "string list"
  c_samp_per :: nat
  c_sets_per :: nat
  c_mem :: nat
  c_l1_hosts :: "string list"
  c_l1_per :: nat
  c_l2_hosts :: "string list"
  c_l2_per :: nat
  c_l3_host :: string
  c_samp_base :: nat
  c_l1_base :: nat
  c_l2_base :: nat
  c_l3_base :: nat
  c_conn_interval :: nat
  c_samp_interval :: nat
  c_mon_interval :: nat
  c_xprt :: string
  c_log_level :: string
  c_store :: "string option"
  c_ssh_port :: nat

section \<open>Names and levels\<close>

definition daemon_name :: "string \<Rightarrow> nat \<Rightarrow> string" where
  "daemon_name h p = h @ ''-'' @ str_nat p"

definition daemon_names :: "string list \<Rightarrow> nat \<Rightarrow> nat \<Rightarrow> string list" where
  "daemon_names hs base per = concat (map (\<lambda>h. map (\<lambda>i. daemon_name h (base + i)) [0..<per]) hs)"

definition SAMPLERS :: "conf \<Rightarrow> string list" where
  "SAMPLERS C = daemon_names (c_samp_hosts C) (c_samp_base C) (c_samp_per C)"

definition L1_AGGS :: "conf \<Rightarrow> string list" where
  "L1_AGGS C = daemon_names (c_l1_hosts C) (c_l1_base C) (c_l1_per C)"

definition L2_AGGS :: "conf \<Rightarrow> string list" where
  "L2_AGGS C = daemon_names (c_l2_hosts C) (c_l2_base C) (c_l2_per C)"

definition L3_AGG :: "conf \<Rightarrow> string" where
  "L3_AGG C = daemon_name (c_l3_host C) (c_l3_base C)"

text \<open>By level of aggregation: the names (\<open>DL\<close>), their number (\<open>NDL\<close>), hosts, daemons per host, ports.\<close>

definition DL :: "conf \<Rightarrow> string list list" where
  "DL C = [SAMPLERS C, L1_AGGS C, L2_AGGS C, [L3_AGG C]]"

definition NDL :: "conf \<Rightarrow> nat list" where
  "NDL C = [length (SAMPLERS C), length (L1_AGGS C), length (L2_AGGS C), 1]"

definition NHL :: "conf \<Rightarrow> nat list" where
  "NHL C = [c_samp_per C, c_l1_per C, c_l2_per C, 1]"

definition HL :: "conf \<Rightarrow> string list list" where
  "HL C = [c_samp_hosts C, c_l1_hosts C, c_l2_hosts C, [c_l3_host C]]"

definition BPL :: "conf \<Rightarrow> nat list" where
  "BPL C = [c_samp_base C, c_l1_base C, c_l2_base C, c_l3_base C]"

text \<open>The tables from names to indices.\<close>

definition index_of :: "string list \<Rightarrow> nat dict" where
  "index_of names = dupdate [] (zip names [0..<length names])"

definition sampler_idx :: "conf \<Rightarrow> string \<Rightarrow> nat res" where
  "sampler_idx C name = dindex (index_of (SAMPLERS C)) name"

definition l1_idx :: "conf \<Rightarrow> string \<Rightarrow> nat res" where
  "l1_idx C name = dindex (index_of (L1_AGGS C)) name"

definition l2_idx :: "conf \<Rightarrow> string \<Rightarrow> nat res" where
  "l2_idx C name = dindex (index_of (L2_AGGS C)) name"

section \<open>Handlers\<close>

text \<open>
  An object of \<open>LDMSDSampler\<close>, \<open>LDMSD_L1\<close>, \<open>LDMSD_L2\<close> or \<open>LDMSD_L3\<close>: the class is the level. The lists that
  the methods keep for the next call are computed again.
\<close>

record daemon =
  d_name :: string
  d_host :: string
  d_port :: string
  d_level :: nat
  d_idx :: nat

definition host_and_port :: "string \<Rightarrow> (string \<times> string) res" where
  "host_and_port name =
     (case rsplit1 CHR ''-'' name of
        [h, p] \<Rightarrow> Inr (h, p) | _ \<Rightarrow> Inl (ValueError ''not enough values to unpack (expected 2, got 1)''))"

definition level_idx :: "conf \<Rightarrow> nat \<Rightarrow> string \<Rightarrow> nat res" where
  "level_idx C l name =
     (if l = 0 then sampler_idx C name else if l = 1 then l1_idx C name
      else if l = 2 then l2_idx C name else Inr 0)"

definition mk_daemon :: "conf \<Rightarrow> nat \<Rightarrow> string \<Rightarrow> daemon res" where
  "mk_daemon C l name =
     bindE (host_and_port name) (\<lambda>(h, p). bindE (level_idx C l name) (\<lambda>i.
       Inr \<lparr>d_name = name, d_host = h, d_port = p, d_level = l, d_idx = i\<rparr>))"

definition d_id :: "daemon \<Rightarrow> nat" where
  "d_id d = d_idx d + 1"

definition all_daemons :: "conf \<Rightarrow> nat \<Rightarrow> daemon list res" where
  "all_daemons C l = mapE (mk_daemon C l) (daemon_names (HL C ! l) (BPL C ! l) (NHL C ! l))"

definition getPrdcr :: "conf \<Rightarrow> daemon \<Rightarrow> string list res" where
  "getPrdcr C d =
     (let l = d_level d in
      if l = 0 then Inr []
      else if NDL C ! l = 0 then Inl (OtherError ''ZeroDivisionError'' [])
      else
        (let n = NDL C ! (l - 1) div NDL C ! l; names = DL C ! (l - 1); off = d_idx d * n
         in mapE (\<lambda>i. if off + i < length names then Inr (names ! (off + i)) else Inl IndexError) [0..<n]))"

text \<open>\<open>getExpectedDir\<close>, and \<open>getPrdcrDir\<close> with the class of the level below.\<close>

definition own_sets :: "conf \<Rightarrow> string \<Rightarrow> string list" where
  "own_sets C name = map (\<lambda>i. name @ ''/set_'' @ str_nat i) [0..<c_sets_per C]"

fun expected_dir :: "conf \<Rightarrow> nat \<Rightarrow> string \<Rightarrow> string list res" where
  "expected_dir C 0 name = bindE (mk_daemon C 0 name) (\<lambda>d. Inr (own_sets C (d_name d)))"
| "expected_dir C (Suc l) name =
     bindE (mk_daemon C (Suc l) name) (\<lambda>d. bindE (getPrdcr C d) (\<lambda>ps.
       bindE (mapE (expected_dir C l) ps) (\<lambda>ls. Inr (concat ls))))"

definition missing_dir :: "string list \<Rightarrow> string list \<Rightarrow> string set" where
  "missing_dir edir dir = set edir - set dir"

section \<open>Configuration texts\<close>

definition listen_cfg :: "conf \<Rightarrow> daemon \<Rightarrow> string" where
  "listen_cfg C d = ''listen host='' @ d_host d @ '' port='' @ d_port d @ '' xprt='' @ c_xprt C @ nl"

definition sampler_cfg :: "conf \<Rightarrow> daemon \<Rightarrow> string" where
  "sampler_cfg C d =
     listen_cfg C d @ nl @ ''load name=test_sampler'' @ nl @
     ''config name=test_sampler action=add_schema schema=test num_metrics=2 type=U64'' @ nl @
     concat (map (\<lambda>i. ''config name=test_sampler action=add_set instance='' @ d_name d @ ''/set_'' @ str_nat i @
       '' schema=test component_id='' @ str_nat (d_id d) @ '' producer='' @ d_name d @ nl) [0..<c_sets_per C]) @
     nl @ ''start name=test_sampler interval=1000000 offset=0'' @ nl"

definition prdcr_add :: "conf \<Rightarrow> string \<Rightarrow> string res" where
  "prdcr_add C name =
     bindE (host_and_port name) (\<lambda>(h, p). Inr (''prdcr_add name='' @ name @ '' host='' @ h @ '' port='' @ p @
       '' xprt='' @ c_xprt C @ '' type=active interval='' @ str_nat (c_conn_interval C) @ nl))"

definition updtr_cfg :: "conf \<Rightarrow> nat \<Rightarrow> string" where
  "updtr_cfg C offset =
     nl @ ''updtr_add name=all interval='' @ str_nat (c_samp_interval C) @ '' offset='' @ str_nat offset @ nl @
     ''updtr_prdcr_add name=all regex=.*'' @ nl @ ''updtr_start name=all'' @ nl"

definition store_cfg :: "string \<Rightarrow> string" where
  "store_cfg root =
     nl @ ''load name=store_sos'' @ nl @ ''config name=store_sos path='' @ root @ nl @ nl @
     ''strgp_add name=test_sos plugin=store_sos container=test schema=test'' @ nl @
     ''strgp_prdcr_add name=test_sos regex=.*'' @ nl @ ''strgp_start name=test_sos'' @ nl"

text \<open>The update offsets: a tenth, 2.5 tenths and 4.5 tenths of the interval, rounded down.\<close>

definition update_offset :: "conf \<Rightarrow> nat \<Rightarrow> nat" where
  "update_offset C l =
     (let t = c_samp_interval C in if l = 1 then t div 10 else if l = 2 then (5 * t) div 20 else (9 * t) div 20)"

definition getConfig :: "conf \<Rightarrow> daemon \<Rightarrow> string res" where
  "getConfig C d =
     (if d_level d = 0 then Inr (sampler_cfg C d)
      else
        bindE (if d_level d = 3 then Inr (L2_AGGS C) else getPrdcr C d) (\<lambda>ps.
        bindE (mapE (prdcr_add C) ps) (\<lambda>ls.
          Inr (listen_cfg C d @ concat ls @ ''prdcr_start_regex regex=.*'' @ nl @
            (if d_level d = 3 then (case c_store C of Some (r # rs) \<Rightarrow> store_cfg (r # rs) | _ \<Rightarrow> []) else []) @
            updtr_cfg C (update_offset C (d_level d))))))"

definition pid_file :: "daemon \<Rightarrow> string" where
  "pid_file d = ''pid/'' @ d_host d @ ''/'' @ d_name d @ ''.pid''"

definition conf_file :: "daemon \<Rightarrow> string" where
  "conf_file d = ''conf/'' @ d_host d @ ''/'' @ d_name d @ ''.conf''"

definition log_file :: "daemon \<Rightarrow> string" where
  "log_file d = ''log/'' @ d_host d @ ''/'' @ d_name d @ ''.log''"

definition getCmdline :: "conf \<Rightarrow> daemon \<Rightarrow> bool \<Rightarrow> string res" where
  "getCmdline C d gdb =
     bindE (expected_dir C (d_level d) (d_name d)) (\<lambda>edir.
       Inr ((if gdb then ''gdb --args'' else []) @ '' ldmsd '' @ (if gdb then ''-F'' else []) @ '' -c '' @ conf_file d @
         '' -r '' @ pid_file d @ '' -t -l '' @ log_file d @ '' -v '' @ c_log_level C @ '' '' @
         '' -m '' @ str_nat (c_mem C * length edir) @ '' ''))"

section \<open>The daemons of a host\<close>

definition get_daemons :: "conf \<Rightarrow> (string \<Rightarrow> bool) option \<Rightarrow> daemon list res" where
  "get_daemons C fltr =
     (let h = c_myhost C;
          here = (\<lambda>l hs base per. if h \<in> set hs then mapE (mk_daemon C l) (daemon_names [h] base per) else Inr [])
      in
      bindE (here 0 (c_samp_hosts C) (c_samp_base C) (c_samp_per C)) (\<lambda>d0.
      bindE (here 1 (c_l1_hosts C) (c_l1_base C) (c_l1_per C)) (\<lambda>d1.
      bindE (here 2 (c_l2_hosts C) (c_l2_base C) (c_l2_per C)) (\<lambda>d2.
      bindE (if h = c_l3_host C then bindE (mk_daemon C 3 (L3_AGG C)) (\<lambda>d. Inr [d]) else Inr []) (\<lambda>d3.
        let ds = d0 @ d1 @ d2 @ d3 in
        Inr (case fltr of None \<Rightarrow> ds | Some f \<Rightarrow> filter (\<lambda>d. f (d_name d)) ds))))))"

section \<open>Names are unambiguous\<close>

lemma digits_no_dash: "CHR ''-'' \<notin> set (str_nat n)"
  using digits_of_digit10 [of "CHR ''-''" n] by (auto simp: str_nat_def is_digit_def Let_def)

lemma rsplit1_last: "c \<notin> set b \<Longrightarrow> rsplit1 c (a @ c # b) = [a, b]"
proof -
  assume "c \<notin> set b"
  then have "takeWhile (\<lambda>x. x \<noteq> c) (rev b @ c # t) = rev b \<and> dropWhile (\<lambda>x. x \<noteq> c) (rev b @ c # t) = c # t" for t
    by (induction b arbitrary: t rule: rev_induct) auto
  then show ?thesis by (simp add: rsplit1_def split1_def)
qed

lemma name_parts [simp]: "host_and_port (daemon_name h p) = Inr (h, str_nat p)"
  using rsplit1_last [OF digits_no_dash, of h p] by (simp add: host_and_port_def daemon_name_def)

lemma str_nat_inj: "str_nat m = str_nat n \<longleftrightarrow> m = n"
proof
  assume "str_nat m = str_nat n"
  then have "of_digits 10 (digits_of 10 m) = of_digits 10 (digits_of 10 n)" by (simp add: str_nat_def)
  then show "m = n" by (simp add: of_digits_digits_of)
qed simp

lemma daemon_name_inj [simp]: "daemon_name h p = daemon_name h' p' \<longleftrightarrow> h = h' \<and> p = p'"
proof
  assume "daemon_name h p = daemon_name h' p'"
  then have "host_and_port (daemon_name h p) = host_and_port (daemon_name h' p')" by (rule arg_cong)
  then show "h = h' \<and> p = p'" by (simp add: str_nat_inj)
qed simp

lemma names_distinct: "distinct hs \<Longrightarrow> distinct (daemon_names hs base per)"
  unfolding daemon_names_def
  by (induction hs) (auto simp: distinct_map inj_on_def)

lemma names_length: "length (daemon_names hs base per) = length hs * per"
  unfolding daemon_names_def by (induction hs) (simp_all add: algebra_simps)

lemma names_member: "n \<in> set (daemon_names hs base per) \<longleftrightarrow> (\<exists>h \<in> set hs. \<exists>i < per. n = daemon_name h (base + i))"
  unfolding daemon_names_def by (auto simp: image_iff)

lemma index_of_get: "distinct names \<Longrightarrow> i < length names \<Longrightarrow> dget (index_of names) (names ! i) = Some i"
proof -
  assume d: "distinct names" and i: "i < length names"
  have k: "distinct (dkeys (zip names [0..<length names]))" using d by simp
  have "(names ! i, i) \<in> set (zip names [0..<length names])" using i by (force simp: in_set_zip)
  then have "dget (zip names [0..<length names]) (names ! i) = Some i" using dget_item [OF k] by simp
  then show ?thesis unfolding index_of_def using dupdate_get [OF k, of "[]" "names ! i"] by simp
qed

section \<open>The levels\<close>

text \<open>The hosts of a level are listed once, and there is a daemon on each aggregating level.\<close>

definition topo_ok :: "conf \<Rightarrow> bool" where
  "topo_ok C \<longleftrightarrow> distinct (c_samp_hosts C) \<and> distinct (c_l1_hosts C) \<and> distinct (c_l2_hosts C) \<and>
     0 < NDL C ! 1 \<and> 0 < NDL C ! 2"

lemma less4: "l < 4 \<Longrightarrow> l = 0 \<or> l = 1 \<or> l = 2 \<or> l = (3::nat)"
  by auto

lemma DL_names: "l < 4 \<Longrightarrow> DL C ! l = daemon_names (HL C ! l) (BPL C ! l) (NHL C ! l)"
  by (drule less4) (auto simp: DL_def HL_def BPL_def NHL_def SAMPLERS_def L1_AGGS_def L2_AGGS_def L3_AGG_def daemon_names_def)

lemma NDL_length: "l < 4 \<Longrightarrow> NDL C ! l = length (DL C ! l)"
  by (drule less4) (auto simp: DL_def NDL_def)

lemma DL_distinct: "topo_ok C \<Longrightarrow> l < 4 \<Longrightarrow> distinct (DL C ! l)"
proof -
  assume "topo_ok C" "l < 4"
  then have "distinct (HL C ! l)" by (auto dest!: less4 simp: topo_ok_def HL_def)
  then show "distinct (DL C ! l)" unfolding DL_names [OF \<open>l < 4\<close>] by (rule names_distinct)
qed

lemma level_positive: "topo_ok C \<Longrightarrow> 0 < l \<Longrightarrow> l < 4 \<Longrightarrow> 0 < NDL C ! l"
  by (drule less4) (auto simp: topo_ok_def NDL_def)

lemma level_idx_nth:
  assumes "topo_ok C" "l < 4" "i < NDL C ! l"
  shows "level_idx C l (DL C ! l ! i) = Inr i"
proof -
  have g: "dget (index_of (DL C ! l)) (DL C ! l ! i) = Some i"
    using index_of_get [OF DL_distinct [OF assms(1,2)]] assms(3) NDL_length [OF assms(2)] by simp
  from less4 [OF assms(2)] consider "l = 0" | "l = 1" | "l = 2" | "l = 3" by blast
  then show ?thesis
  proof cases
    case 1
    with g show ?thesis by (simp add: level_idx_def sampler_idx_def dindex_def DL_def)
  next
    case 2
    with g show ?thesis by (simp add: level_idx_def l1_idx_def dindex_def DL_def)
  next
    case 3
    with g show ?thesis by (simp add: level_idx_def l2_idx_def dindex_def DL_def)
  next
    case 4
    with assms(3) show ?thesis by (simp add: level_idx_def NDL_def)
  qed
qed

lemma mk_daemon_nth:
  assumes "topo_ok C" "l < 4" "i < NDL C ! l"
  shows "\<exists>h p. mk_daemon C l (DL C ! l ! i) =
      Inr \<lparr>d_name = DL C ! l ! i, d_host = h, d_port = p, d_level = l, d_idx = i\<rparr> \<and>
    host_and_port (DL C ! l ! i) = Inr (h, p) \<and> h \<in> set (HL C ! l)"
proof -
  have "i < length (DL C ! l)" using assms NDL_length by simp
  then have "DL C ! l ! i \<in> set (daemon_names (HL C ! l) (BPL C ! l) (NHL C ! l))"
    using DL_names [OF assms(2)] by (metis nth_mem)
  then obtain h j where h: "h \<in> set (HL C ! l)" "DL C ! l ! i = daemon_name h (BPL C ! l + j)"
    unfolding names_member by blast
  have hp: "host_and_port (DL C ! l ! i) = Inr (h, str_nat (BPL C ! l + j))" unfolding h(2) by (rule name_parts)
  then have "mk_daemon C l (DL C ! l ! i) =
      Inr \<lparr>d_name = DL C ! l ! i, d_host = h, d_port = str_nat (BPL C ! l + j), d_level = l, d_idx = i\<rparr>"
    unfolding mk_daemon_def using level_idx_nth [OF assms] by simp
  with hp h(1) show ?thesis by blast
qed

definition fan_in :: "conf \<Rightarrow> nat \<Rightarrow> nat" where
  "fan_in C l = NDL C ! (l - 1) div NDL C ! l"

lemma getPrdcr_slice:
  assumes "topo_ok C" "0 < l" "l < 4" "d_level d = l" "d_idx d < NDL C ! l"
  shows "getPrdcr C d = Inr (take (fan_in C l) (drop (d_idx d * fan_in C l) (DL C ! (l - 1))))"
proof -
  let ?n = "fan_in C l" and ?names = "DL C ! (l - 1)" and ?off = "d_idx d * fan_in C l"
  have pos: "0 < NDL C ! l" by (rule level_positive [OF assms(1-3)])
  have "(d_idx d + 1) * ?n \<le> NDL C ! l * ?n" using assms(5) by (intro mult_right_mono) simp_all
  also have "\<dots> \<le> NDL C ! (l - 1)" unfolding fan_in_def by (metis mult.commute div_times_less_eq_dividend)
  also have "\<dots> = length ?names" using assms(3) NDL_length [of "l - 1"] by simp
  finally have le: "?off + ?n \<le> length ?names" by (simp add: algebra_simps)
  have "mapE (\<lambda>i. if ?off + i < length ?names then Inr (?names ! (?off + i)) else Inl IndexError) [0..<?n] =
      Inr (map (\<lambda>i. ?names ! (?off + i)) [0..<?n])"
    by (rule mapE_Inr_map) (use le in auto)
  moreover have "map (\<lambda>i. ?names ! (?off + i)) [0..<?n] = take ?n (drop ?off ?names)"
    using le by (intro nth_equalityI) auto
  moreover have "getPrdcr C d =
      mapE (\<lambda>i. if ?off + i < length ?names then Inr (?names ! (?off + i)) else Inl IndexError) [0..<?n]"
    unfolding getPrdcr_def Let_def assms(4) fan_in_def using assms(2) pos by simp
  ultimately show ?thesis by simp
qed

lemma concat_map_concat: "concat (map (\<lambda>j. concat (map f (g j))) xs) = concat (map f (concat (map g xs)))"
  by (induction xs) simp_all

lemma slices: "concat (map (\<lambda>j. take q (drop (j * q) xs)) [a..<a + n]) = take (n * q) (drop (a * q) xs)"
proof (induction n)
  case (Suc n)
  have d: "n * q + a * q = (a + n) * q" by (simp add: algebra_simps)
  have "Suc n * q = n * q + q" by simp
  then have "take (Suc n * q) (drop (a * q) xs) = take (n * q) (drop (a * q) xs) @ take q (drop ((a + n) * q) xs)"
    by (simp only: take_add drop_drop d)
  with Suc show ?case by simp
qed simp

lemma prdcrs_nth:
  assumes "topo_ok C" "0 < l" "l < 4" "i < NDL C ! l"
  shows "bindE (mk_daemon C l (DL C ! l ! i)) (getPrdcr C) =
      Inr (take (fan_in C l) (drop (i * fan_in C l) (DL C ! (l - 1))))"
proof -
  from mk_daemon_nth [OF assms(1,3,4)] obtain h p where
    m: "mk_daemon C l (DL C ! l ! i) = Inr \<lparr>d_name = DL C ! l ! i, d_host = h, d_port = p, d_level = l, d_idx = i\<rparr>"
    by blast
  show ?thesis
    unfolding m bindE_simps using getPrdcr_slice [OF assms(1-3), of "\<lparr>d_name = DL C ! l ! i, d_host = h, d_port = p, d_level = l, d_idx = i\<rparr>"]
      assms(4) by simp
qed

lemma prdcrs_of_level:
  assumes "topo_ok C" "0 < l" "l < 4"
  shows "mapE (\<lambda>n. bindE (mk_daemon C l n) (getPrdcr C)) (DL C ! l) =
    Inr (map (\<lambda>i. take (fan_in C l) (drop (i * fan_in C l) (DL C ! (l - 1)))) [0..<NDL C ! l])"
proof -
  have "mapE (\<lambda>i. bindE (mk_daemon C l (DL C ! l ! i)) (getPrdcr C)) [0..<NDL C ! l] =
      Inr (map (\<lambda>i. take (fan_in C l) (drop (i * fan_in C l) (DL C ! (l - 1)))) [0..<NDL C ! l])"
    using prdcrs_nth [OF assms] by (intro mapE_Inr_map) simp
  moreover have "map (\<lambda>i. DL C ! l ! i) [0..<NDL C ! l] = DL C ! l"
    unfolding NDL_length [OF assms(3)] by (rule map_nth)
  ultimately show ?thesis using mapE_map [of "\<lambda>n. bindE (mk_daemon C l n) (getPrdcr C)" "\<lambda>i. DL C ! l ! i" "[0..<NDL C ! l]"]
    by simp
qed

text \<open>The number of samplers below a daemon of a level.\<close>

fun below :: "conf \<Rightarrow> nat \<Rightarrow> nat" where
  "below C 0 = 1"
| "below C (Suc l) = fan_in C (Suc l) * below C l"

lemma expected_dir_nth:
  assumes "topo_ok C"
  shows "l < 4 \<Longrightarrow> i < NDL C ! l \<Longrightarrow>
    expected_dir C l (DL C ! l ! i) = Inr (concat (map (own_sets C) (take (below C l) (drop (i * below C l) (SAMPLERS C)))))"
proof (induction l arbitrary: i)
  case 0
  then have i: "i < length (SAMPLERS C)" by (simp add: NDL_def)
  from mk_daemon_nth [OF assms 0] obtain h p where
    m: "mk_daemon C 0 (DL C ! 0 ! i) = Inr \<lparr>d_name = DL C ! 0 ! i, d_host = h, d_port = p, d_level = 0, d_idx = i\<rparr>"
    by blast
  have "take 1 (drop i (SAMPLERS C)) = [SAMPLERS C ! i]" using i by (simp add: take_Suc_conv_app_nth hd_drop_conv_nth)
  with m show ?case by (simp add: DL_def)
next
  case (Suc l)
  let ?n = "fan_in C (Suc l)" and ?S = "SAMPLERS C"
  from mk_daemon_nth [OF assms Suc.prems] obtain h p where m: "mk_daemon C (Suc l) (DL C ! Suc l ! i) =
      Inr \<lparr>d_name = DL C ! Suc l ! i, d_host = h, d_port = p, d_level = Suc l, d_idx = i\<rparr>" (is "_ = Inr ?d")
    by blast
  have n: "(i + 1) * ?n \<le> NDL C ! l"
  proof -
    have "(i + 1) * ?n \<le> NDL C ! Suc l * ?n" using Suc.prems(2) by (intro mult_right_mono) simp_all
    then show ?thesis unfolding fan_in_def by (metis diff_Suc_1 div_times_less_eq_dividend mult.commute order_trans)
  qed
  then have le: "i * ?n + ?n \<le> length (DL C ! l)" using NDL_length [of l C] Suc.prems(1) by (simp add: algebra_simps)
  have ps: "take ?n (drop (i * ?n) (DL C ! l)) = map (\<lambda>j. DL C ! l ! j) [i * ?n..<i * ?n + ?n]"
    using le by (intro nth_equalityI) auto
  have "mapE (expected_dir C l) (map (\<lambda>j. DL C ! l ! j) [i * ?n..<i * ?n + ?n]) =
      Inr (map (\<lambda>j. concat (map (own_sets C) (take (below C l) (drop (j * below C l) ?S)))) [i * ?n..<i * ?n + ?n])"
    unfolding mapE_map using n Suc.prems(1) by (intro mapE_Inr_map Suc.IH) (auto simp: algebra_simps)
  moreover have "getPrdcr C ?d = Inr (map (\<lambda>j. DL C ! l ! j) [i * ?n..<i * ?n + ?n])"
    using getPrdcr_slice [OF assms _ Suc.prems(1), of ?d] Suc.prems(2) ps by simp
  ultimately have "expected_dir C (Suc l) (DL C ! Suc l ! i) =
      Inr (concat (map (\<lambda>j. concat (map (own_sets C) (take (below C l) (drop (j * below C l) ?S)))) [i * ?n..<i * ?n + ?n]))"
    using m by simp
  then show ?case
    unfolding concat_map_concat slices by (simp add: mult.assoc)
qed

section \<open>Properties\<close>

definition demo_conf :: conf where
  "demo_conf = \<lparr>c_myhost = ''b'', c_prefix = ''/opt/ovis'', c_samp_hosts = [''a'', ''b-ib''], c_samp_per = 2, c_sets_per = 2,
     c_mem = 4096, c_l1_hosts = [''b''], c_l1_per = 2, c_l2_hosts = [''b''], c_l2_per = 1, c_l3_host = ''c'',
     c_samp_base = 20, c_l1_base = 30, c_l2_base = 40, c_l3_base = 50, c_conn_interval = 1000000,
     c_samp_interval = 10, c_mon_interval = 10, c_xprt = ''sock'', c_log_level = ''ERROR'', c_store = None,
     c_ssh_port = 22\<rparr>"

lemma demo_topo: "topo_ok demo_conf"
  by (simp add: topo_ok_def demo_conf_def NDL_def L1_AGGS_def L2_AGGS_def daemon_names_def)

text \<open>
  C16: the aggregators of a level share out the daemons of the level below. In order, each gets the
  same number of them (the quotient), no daemon goes to two aggregators, and all are taken
  exactly when the number of aggregators divides the number of daemons below; otherwise the
  last ones are aggregated by nobody.
\<close>

theorem producers_shared_out:
  assumes "topo_ok C" "0 < l" "l < 4"
  shows "\<exists>pss. mapE (\<lambda>n. bindE (mk_daemon C l n) (getPrdcr C)) (DL C ! l) = Inr pss \<and>
    (\<forall>ps \<in> set pss. length ps = NDL C ! (l - 1) div NDL C ! l) \<and>
    concat pss = take (NDL C ! l * (NDL C ! (l - 1) div NDL C ! l)) (DL C ! (l - 1)) \<and>
    distinct (concat pss) \<and> (concat pss = DL C ! (l - 1) \<longleftrightarrow> NDL C ! l dvd NDL C ! (l - 1))"
proof -
  let ?n = "fan_in C l" and ?xs = "DL C ! (l - 1)" and ?N = "NDL C ! l"
  let ?pss = "map (\<lambda>i. take ?n (drop (i * ?n) ?xs)) [0..<?N]"
  have lx: "length ?xs = NDL C ! (l - 1)" using NDL_length [of "l - 1"] assms(3) by simp
  have dx: "distinct ?xs" using DL_distinct [OF assms(1), of "l - 1"] assms(3) by simp
  have le: "?N * ?n \<le> length ?xs" unfolding lx fan_in_def by (metis mult.commute div_times_less_eq_dividend)
  have c: "concat ?pss = take (?N * ?n) ?xs" using slices [of ?n ?xs 0 ?N] by simp
  have len: "length (take ?n (drop (i * ?n) ?xs)) = ?n" if "i < ?N" for i
  proof -
    have "(i + 1) * ?n \<le> ?N * ?n" using that by (intro mult_right_mono) simp_all
    with le show ?thesis by (simp add: algebra_simps)
  qed
  have "concat ?pss = ?xs \<longleftrightarrow> ?N * ?n = length ?xs" unfolding c using le by (metis length_take min.absorb2 take_all_iff order_antisym)
  also have "\<dots> \<longleftrightarrow> ?N dvd NDL C ! (l - 1)"
    unfolding lx fan_in_def by (metis dvd_mult_div_cancel dvd_triv_left)
  finally have all: "concat ?pss = ?xs \<longleftrightarrow> ?N dvd NDL C ! (l - 1)" .
  show ?thesis
    unfolding fan_in_def [symmetric]
    by (rule exI [of _ ?pss], intro conjI prdcrs_of_level [OF assms] all c) (use len c dx in auto)
qed

theorem producers_shared_out_witness:
  "\<exists>pss. mapE (\<lambda>n. bindE (mk_daemon demo_conf 1 n) (getPrdcr demo_conf)) (DL demo_conf ! 1) = Inr pss \<and>
    concat pss = DL demo_conf ! 0"
proof -
  have "NDL demo_conf ! 1 dvd NDL demo_conf ! 0"
    by (simp add: demo_conf_def NDL_def SAMPLERS_def L1_AGGS_def names_length)
  with producers_shared_out [OF demo_topo, of 1] show ?thesis by fastforce
qed

text \<open>
  The top aggregator expects the sets of the samplers. Down the levels, \<open>getExpectedDir\<close> of
  the L3 daemon computes the sets of the samplers that reach it, in order and once each; when
  the levels divide evenly these are all the sets there are.
\<close>

lemma top_expects_all_sets:
  assumes "topo_ok C"
  shows "expected_dir C 3 (L3_AGG C) = Inr (concat (map (own_sets C) (take (below C 3) (SAMPLERS C)))) \<and>
    (NDL C ! 1 dvd NDL C ! 0 \<and> NDL C ! 2 dvd NDL C ! 1 \<longrightarrow>
      expected_dir C 3 (L3_AGG C) = Inr (concat (map (own_sets C) (SAMPLERS C))))"
proof -
  have e: "expected_dir C 3 (L3_AGG C) = Inr (concat (map (own_sets C) (take (below C 3) (SAMPLERS C))))"
    using expected_dir_nth [OF assms, of 3 0] by (simp add: DL_def NDL_def)
  have "below C 3 = NDL C ! 2 * (NDL C ! 1 div NDL C ! 2) * (NDL C ! 0 div NDL C ! 1)"
    by (simp add: numeral_3_eq_3 numeral_2_eq_2 fan_in_def) (simp add: NDL_def)
  moreover have "NDL C ! 2 * (NDL C ! 1 div NDL C ! 2) * (NDL C ! 0 div NDL C ! 1) = length (SAMPLERS C)"
    if "NDL C ! 1 dvd NDL C ! 0 \<and> NDL C ! 2 dvd NDL C ! 1"
    using that NDL_length [of 0 C] by (simp add: DL_def)
  ultimately show ?thesis using e by simp
qed

lemma top_expects_all_sets_instance:
  "expected_dir demo_conf 3 (L3_AGG demo_conf) = Inr (concat (map (own_sets demo_conf) (SAMPLERS demo_conf)))"
proof -
  have "NDL demo_conf ! 1 dvd NDL demo_conf ! 0 \<and> NDL demo_conf ! 2 dvd NDL demo_conf ! 1"
    by (simp add: demo_conf_def NDL_def SAMPLERS_def L1_AGGS_def L2_AGGS_def names_length)
  with top_expects_all_sets [OF demo_topo] show ?thesis by blast
qed

lemma handlers:
  assumes "topo_ok C" "l < 4" "set ns \<subseteq> set (DL C ! l)"
  shows "\<exists>ds. mapE (mk_daemon C l) ns = Inr ds \<and> map (\<lambda>d. (d_level d, d_name d)) ds = map (Pair l) ns \<and>
    (\<forall>d \<in> set ds. host_and_port (d_name d) = Inr (d_host d, d_port d))"
  using assms(3)
proof (induction ns)
  case (Cons n ns)
  then obtain i where "i < NDL C ! l" "n = DL C ! l ! i" using NDL_length [OF assms(2)] by (auto simp: in_set_conv_nth)
  with mk_daemon_nth [OF assms(1,2), of i] obtain h p where
    m: "mk_daemon C l n = Inr \<lparr>d_name = n, d_host = h, d_port = p, d_level = l, d_idx = i\<rparr>" (is "_ = Inr ?d")
    and hp: "host_and_port n = Inr (h, p)" by blast
  from Cons obtain ds where "mapE (mk_daemon C l) ns = Inr ds" "map (\<lambda>d. (d_level d, d_name d)) ds = map (Pair l) ns"
    "\<forall>d \<in> set ds. host_and_port (d_name d) = Inr (d_host d, d_port d)" by auto
  with m hp show ?case by (intro exI [of _ "?d # ds"]) simp
qed simp

definition host_part :: "string \<Rightarrow> string option" where
  "host_part n = (case host_and_port n of Inr (h, p) \<Rightarrow> Some h | Inl _ \<Rightarrow> None)"

lemma names_of_host:
  "distinct hs \<Longrightarrow> filter (\<lambda>n. host_part n = Some h) (daemon_names hs b p) = (if h \<in> set hs then daemon_names [h] b p else [])"
proof (induction hs)
  case (Cons x hs)
  have "filter (\<lambda>n. host_part n = Some h) (map (\<lambda>i. daemon_name x (b + i)) [0..<p]) =
      (if x = h then map (\<lambda>i. daemon_name x (b + i)) [0..<p] else [])"
    by (simp add: filter_map comp_def host_part_def)
  with Cons show ?case by (auto simp: daemon_names_def)
qed (simp add: daemon_names_def)

lemma demo_host: "c_myhost demo_conf = ''b''"
  by (simp add: demo_conf_def)

lemma demo_DL: "DL demo_conf = [[''a-20'', ''a-21'', ''b-ib-20'', ''b-ib-21''], [''b-30'', ''b-31''], [''b-40''], [''c-50'']]"
proof -
  have n: "str_nat 20 = ''20''" "str_nat 21 = ''21''" "str_nat 30 = ''30''" "str_nat 31 = ''31''" "str_nat 40 = ''40''"
      "str_nat 50 = ''50''"
    by (simp_all add: str_nat_def digits_of.simps)
  have u: "[0..<2] = [0, 1 :: nat]" by (simp add: upt_rec)
  show ?thesis
    by (simp add: DL_def demo_conf_def SAMPLERS_def L1_AGGS_def L2_AGGS_def L3_AGG_def daemon_names_def daemon_name_def n u)
qed

lemma get_daemons_host:
  assumes "topo_ok C"
  shows "\<exists>ds. get_daemons C None = Inr ds \<and> (\<forall>d \<in> set ds. d_host d = c_myhost C) \<and>
    map (\<lambda>d. (d_level d, d_name d)) ds =
      concat (map (\<lambda>l. map (Pair l) (filter (\<lambda>n. host_part n = Some (c_myhost C)) (DL C ! l))) [0..<4])"
proof -
  let ?h = "c_myhost C"
  let ?own = "\<lambda>l. filter (\<lambda>n. host_part n = Some ?h) (DL C ! l)"
  have own: "?own l = (if ?h \<in> set (HL C ! l) then daemon_names [?h] (BPL C ! l) (NHL C ! l) else [])" if "l < 4" for l
  proof -
    from less4 [OF that] have "distinct (HL C ! l)" using assms by (auto simp: topo_ok_def HL_def)
    from names_of_host [OF this] show ?thesis unfolding DL_names [OF that] .
  qed
  have ex: "\<exists>ds. mapE (mk_daemon C l) (?own l) = Inr ds \<and> map (\<lambda>d. (d_level d, d_name d)) ds = map (Pair l) (?own l) \<and>
      (\<forall>d \<in> set ds. d_host d = ?h)" if l: "l < 4" for l
  proof -
    from handlers [OF assms l, of "?own l"] obtain ds where ds: "mapE (mk_daemon C l) (?own l) = Inr ds"
      "map (\<lambda>d. (d_level d, d_name d)) ds = map (Pair l) (?own l)"
      "\<forall>d \<in> set ds. host_and_port (d_name d) = Inr (d_host d, d_port d)" by auto
    have "d_host d = ?h" if "d \<in> set ds" for d
    proof -
      have "(d_level d, d_name d) \<in> set (map (Pair l) (?own l))" unfolding ds(2) [symmetric] using that by simp
      then have "host_part (d_name d) = Some ?h" by auto
      with ds(3) that show ?thesis by (simp add: host_part_def)
    qed
    with ds show ?thesis by blast
  qed
  from ex [of 0] ex [of 1] ex [of 2] ex [of 3] obtain d0 d1 d2 d3 where
    d: "mapE (mk_daemon C 0) (?own 0) = Inr d0" "mapE (mk_daemon C 1) (?own 1) = Inr d1"
      "mapE (mk_daemon C 2) (?own 2) = Inr d2" "mapE (mk_daemon C 3) (?own 3) = Inr d3"
    and m: "map (\<lambda>d. (d_level d, d_name d)) d0 = map (Pair 0) (?own 0)" "map (\<lambda>d. (d_level d, d_name d)) d1 = map (Pair 1) (?own 1)"
      "map (\<lambda>d. (d_level d, d_name d)) d2 = map (Pair 2) (?own 2)" "map (\<lambda>d. (d_level d, d_name d)) d3 = map (Pair 3) (?own 3)"
    and h: "\<forall>d \<in> set d0. d_host d = ?h" "\<forall>d \<in> set d1. d_host d = ?h" "\<forall>d \<in> set d2. d_host d = ?h" "\<forall>d \<in> set d3. d_host d = ?h"
    by (auto simp del: One_nat_def)
  have "get_daemons C None = Inr (d0 @ d1 @ d2 @ d3)"
  proof -
    have "(if ?h \<in> set (c_samp_hosts C) then mapE (mk_daemon C 0) (daemon_names [?h] (c_samp_base C) (c_samp_per C)) else Inr []) = Inr d0"
      using d(1) own [of 0] by (simp add: HL_def BPL_def NHL_def split: if_splits)
    moreover have "(if ?h \<in> set (c_l1_hosts C) then mapE (mk_daemon C 1) (daemon_names [?h] (c_l1_base C) (c_l1_per C)) else Inr []) = Inr d1"
      using d(2) own [of 1] by (simp add: HL_def BPL_def NHL_def split: if_splits)
    moreover have "(if ?h \<in> set (c_l2_hosts C) then mapE (mk_daemon C 2) (daemon_names [?h] (c_l2_base C) (c_l2_per C)) else Inr []) = Inr d2"
      using d(3) own [of 2] by (simp add: HL_def BPL_def NHL_def split: if_splits)
    moreover have "(if ?h = c_l3_host C then bindE (mk_daemon C 3 (L3_AGG C)) (\<lambda>d. Inr [d]) else Inr []) = Inr d3"
      using d(4) own [of 3] by (simp add: HL_def BPL_def NHL_def L3_AGG_def daemon_names_def split: if_splits)
    ultimately show ?thesis unfolding get_daemons_def Let_def by (simp only: bindE_simps option.case)
  qed
  moreover have "[0..<4] = [0, 1, 2, 3 :: nat]" by (simp add: upt_rec)
  ultimately show ?thesis using m h by auto
qed

text \<open>
  Every host manages its own daemons. \<open>get_daemons\<close> on a host gives a handler for each daemon
  of the four levels whose name has this host, for no other, and in the order of the levels; so
  the host check of the handlers passes.
\<close>

lemma host_gets_its_daemons:
  assumes "topo_ok C"
  shows "\<exists>ds. get_daemons C None = Inr ds \<and> (\<forall>d \<in> set ds. d_host d = c_myhost C) \<and>
    map (\<lambda>d. (d_level d, d_name d)) ds =
      concat (map (\<lambda>l. map (Pair l) (filter (\<lambda>n. host_part n = Some (c_myhost C)) (DL C ! l))) [0..<4])"
  using assms by (rule get_daemons_host)

lemma host_gets_its_daemons_instance:
  "\<exists>ds. get_daemons demo_conf None = Inr ds \<and>
    map (\<lambda>d. (d_level d, d_name d)) ds = [(1, ''b-30''), (1, ''b-31''), (2, ''b-40'')]"
proof -
  have u: "[0..<4] = [0, 1, 2, 3 :: nat]" by (simp add: upt_rec)
  have "concat (map (\<lambda>l. map (Pair l) (filter (\<lambda>n. host_part n = Some (c_myhost demo_conf)) (DL demo_conf ! l))) [0..<4]) =
      [(1, ''b-30''), (1, ''b-31''), (2, ''b-40'')]"
    by (simp add: u demo_DL host_part_def host_and_port_def rsplit1_def split1_def demo_host)
  with host_gets_its_daemons [OF demo_topo] show ?thesis by (simp only:) (elim exE conjE, rule exI, rule conjI, assumption+)
qed

end
