(* ===== verification/Daemons.thy ===== *)
theory Daemons
  imports Topology Effects Json
begin

text \<open>
  \<open>scalability/ldmsdutils.py\<close>, second part: processes known by their pid files (\<open>Proc\<close>, \<open>LDMSD\<close>,
  \<open>LDMSDMon\<close>), the samples of the monitor (\<open>MonStat\<close>), requests to a daemon and what its answers
  are summed up to, waiting for sets, and the control of all daemons over ssh (\<open>Control\<close>). The
  operating system and the LDMS library are records of effectful programs.
\<close>

section \<open>The system\<close>

text \<open>
  \<open>o_time\<close> is the clock as the text of a float, \<open>o_now\<close> in microseconds. \<open>o_sh\<close> runs a command under
  bash; \<open>o_fork\<close> gives 0 to the child; \<open>o_exec\<close> replaces the process
  by a command under bash.
\<close>

record 'w os =
  o_now :: "('w, int) io"
  o_time :: "('w, string) io"
  o_sleep :: "int \<Rightarrow> ('w, unit) io"
  o_exists :: "string \<Rightarrow> ('w, bool) io"
  o_read :: "string \<Rightarrow> ('w, string) io"
  o_write :: "string \<Rightarrow> string \<Rightarrow> ('w, unit) io"
  o_append :: "string \<Rightarrow> string \<Rightarrow> ('w, unit) io"
  o_unlink :: "string \<Rightarrow> ('w, unit) io"
  o_listdir :: "string \<Rightarrow> ('w, string list) io"
  o_makedirs :: "string \<Rightarrow> ('w, unit) io"
  o_rmtree :: "string \<Rightarrow> ('w, unit) io"
  o_kill :: "int \<Rightarrow> ('w, unit) io"
  o_fork :: "('w, int) io"
  o_exec :: "string \<Rightarrow> ('w, unit) io"
  o_sh :: "string \<Rightarrow> ('w, int \<times> string) io"
  o_print :: "string \<Rightarrow> ('w, unit) io"

text \<open>The calls of the LDMS library; connections and sets are names.\<close>

datatype attr = Attr string "string option" | AttrText string

record 'w ldms =
  x_new :: "string \<Rightarrow> ('w, string) io"
  x_connect :: "string \<Rightarrow> string \<Rightarrow> string \<Rightarrow> ('w, unit) io"
  x_close :: "string \<Rightarrow> ('w, unit) io"
  x_dir :: "string \<Rightarrow> ('w, string list) io"
  x_lookup :: "string \<Rightarrow> string \<Rightarrow> ('w, string) io"
  x_update :: "string \<Rightarrow> ('w, unit) io"
  x_stamp :: "string \<Rightarrow> ('w, int \<times> int) io"
  x_known :: "string \<Rightarrow> bool"
  x_request :: "string \<Rightarrow> string \<Rightarrow> attr list \<Rightarrow> ('w, string) io"

section \<open>Waiting\<close>

text \<open>\<open>cond_wait\<close>: without a limit when the timeout is 0. Times are in microseconds.\<close>

definition too_late :: "'w os \<Rightarrow> int \<Rightarrow> int \<Rightarrow> ('w, bool) io" where
  "too_late sys timeout t0 = (if timeout = 0 then retS False else bindS (o_now sys) (\<lambda>t. retS (timeout \<le> t - t0)))"

partial_function (option) cond_loop ::
  "'w os \<Rightarrow> ('w, bool) io \<Rightarrow> int \<Rightarrow> int \<Rightarrow> string \<Rightarrow> int \<Rightarrow> ('w, unit) io" where
  "cond_loop sys cond timeout interval name t0 w =
     bindS cond (\<lambda>b. if b then retS ()
       else bindS (too_late sys timeout t0) (\<lambda>late.
         if late then raiseS (TimeoutError (name @ '' timed out''))
         else seqS (o_sleep sys interval) (cond_loop sys cond timeout interval name t0))) w"

definition cond_wait :: "'w os \<Rightarrow> ('w, bool) io \<Rightarrow> int \<Rightarrow> int \<Rightarrow> string \<Rightarrow> ('w, unit) io" where
  "cond_wait sys cond timeout interval name = bindS (o_now sys) (\<lambda>t0. cond_loop sys cond timeout interval name t0)"

section \<open>Directories and environment\<close>

definition ldmsd_env :: "conf \<Rightarrow> string dict \<Rightarrow> string dict res" where
  "ldmsd_env C env =
     bindE (dindex env ''PATH'') (\<lambda>path.
     bindE (dindex env ''PYTHONPATH'') (\<lambda>py.
       let p = c_prefix C in
       Inr (dset ''ZAP_LIBPATH'' (p @ ''/lib/ovis-ldms'') (dset ''LDMSD_PLUGIN_LIBPATH'' (p @ ''/lib/ovis-ldms'')
         (dset ''LDMS_AUTH_FILE'' (p @ ''/etc/ldms/ldmsauth.conf'')
         (dset ''PYTHONPATH'' (p @ ''/lib/python3.6/site-packages:'' @ py)
         (dset ''PATH'' (p @ ''/bin:'' @ p @ ''/sbin:'' @ path) env)))))))"

definition work_dirs :: "conf \<Rightarrow> string list" where
  "work_dirs C = map (\<lambda>d. d @ ''/'' @ c_myhost C) [''conf'', ''log'', ''pid'', ''mon'']"

definition dir_init :: "'w os \<Rightarrow> conf \<Rightarrow> ('w, unit) io" where
  "dir_init sys C = forS (work_dirs C) (o_makedirs sys)"

definition dir_cleanup :: "'w os \<Rightarrow> conf \<Rightarrow> ('w, unit) io" where
  "dir_cleanup sys C = forS (work_dirs C) (\<lambda>d. catchS (o_rmtree sys d) (\<lambda>_. retS ()))"

section \<open>Processes\<close>

text \<open>
  \<open>Proc\<close> with what its subclasses define: a name and the tests of \<open>/proc/PID/comm\<close> and
  \<open>/proc/PID/cmdline\<close>. The cached \<open>_pid\<close> is passed and returned.
\<close>

record proc =
  p_name :: string
  p_pid_file :: string
  p_host :: string
  p_comm :: "string \<Rightarrow> bool"
  p_cmdline :: "string \<Rightarrow> bool"

definition ldmsd_proc :: "daemon \<Rightarrow> proc" where
  "ldmsd_proc d = \<lparr>p_name = d_name d, p_pid_file = pid_file d, p_host = d_host d,
     p_comm = (\<lambda>c. c = ''ldmsd''), p_cmdline = contains (d_name d)\<rparr>"

definition mon_proc :: "conf \<Rightarrow> proc" where
  "mon_proc C = \<lparr>p_name = ''ldmsd_mon'', p_pid_file = ''mon/'' @ c_myhost C @ ''/'' @ c_myhost C @ ''.pid'', p_host = c_myhost C,
     p_comm = (\<lambda>c. c \<in> {''ldmsd_mon.py'', ''python3''}), p_cmdline = contains ''ldmsd_mon.py''\<rparr>"

definition mon_file :: "conf \<Rightarrow> string" where
  "mon_file C = ''mon/'' @ c_myhost C @ ''/'' @ c_myhost C @ ''.mon''"

abbreviation alive :: "int option \<Rightarrow> bool" where
  "alive pid \<equiv> pid \<noteq> None \<and> pid \<noteq> Some 0"

definition opt_pid :: "int option \<Rightarrow> string" where
  "opt_pid pid = (case pid of None \<Rightarrow> ''None'' | Some p \<Rightarrow> str_int p)"

definition host_check :: "conf \<Rightarrow> proc \<Rightarrow> ('w, unit) io" where
  "host_check C P =
     (if c_myhost C \<noteq> p_host P
      then raiseS (RuntimeError ''Host mismatch. The process shall only be controlled (start/stop/cleanup) or monitored from the assigned host.'')
      else retS ())"

definition getpid :: "'w os \<Rightarrow> conf \<Rightarrow> proc \<Rightarrow> ('w, int option) io" where
  "getpid sys C P =
     seqS (host_check C P)
     (bindS (o_exists sys (p_pid_file P)) (\<lambda>ex.
      if \<not> ex then retS None
      else catchS
        (bindS (o_read sys (p_pid_file P)) (\<lambda>t.
         bindS (liftE (parse_int t)) (\<lambda>pid.
         bindS (o_read sys (''/proc/'' @ str_int pid @ ''/comm'')) (\<lambda>comm.
         bindS (o_read sys (''/proc/'' @ str_int pid @ ''/cmdline'')) (\<lambda>cmdline.
           if \<not> p_comm P (strip comm) \<or> \<not> p_cmdline P (strip cmdline) then retS None else retS (Some pid))))))
        (\<lambda>_. retS None)))"

definition the_pid :: "'w os \<Rightarrow> conf \<Rightarrow> proc \<Rightarrow> int option \<Rightarrow> ('w, int option) io" where
  "the_pid sys C P cache = (if alive cache then retS cache else getpid sys C P)"

definition stop :: "'w os \<Rightarrow> conf \<Rightarrow> proc \<Rightarrow> ('w, unit) io" where
  "stop sys C P =
     seqS (host_check C P) (bindS (getpid sys C P) (\<lambda>pid.
       case pid of Some p \<Rightarrow> if p = 0 then retS () else o_kill sys p | None \<Rightarrow> retS ()))"

definition fd_num :: "'w os \<Rightarrow> conf \<Rightarrow> proc \<Rightarrow> int option \<Rightarrow> ('w, nat \<times> int option) io" where
  "fd_num sys C P cache =
     seqS (host_check C P) (bindS (the_pid sys C P cache) (\<lambda>pid.
       if \<not> alive pid then retS (0, pid)
       else catchS (bindS (o_listdir sys (''/proc/'' @ opt_pid pid @ ''/fd'')) (\<lambda>l. retS (length l, pid)))
              (\<lambda>_. retS (0, None))))"

section \<open>Samples of /proc/PID/stat\<close>

definition FULL_STAT_METRICS :: "string list" where
  "FULL_STAT_METRICS =
     [''pid'', ''comm'', ''state'', ''ppid'', ''pgrp'', ''session'', ''tty_nr'', ''tpgid'', ''flags'', ''minflt'',
      ''cminflt'', ''majflt'', ''cmajflt'', ''utime'', ''stime'', ''cutime'', ''cstime'', ''priority'', ''nice'',
      ''num_threads'', ''itrealvalue'', ''starttime'', ''vsize'', ''rss'', ''rsslim'', ''startcode'', ''endcode'',
      ''startstack'', ''kstkesp'', ''kstkeip'', ''signal'', ''blocked'', ''sigignore'', ''sigcatch'', ''wchan'',
      ''nswap'', ''cnswap'', ''exit_signal'', ''processor'', ''rt_priority'', ''policy'', ''delayacct_blkio_ticks'',
      ''guest_time'', ''cguest_time'', ''start_data'', ''end_data'', ''start_brk'', ''arg_start'', ''arg_end'',
      ''env_start'', ''env_end'', ''exit_code'']"

definition STAT_METRICS :: "string list" where
  "STAT_METRICS =
     [''state'', ''minflt'', ''cminflt'', ''majflt'', ''cmajflt'', ''utime'', ''stime'', ''cutime'', ''cstime'',
      ''num_threads'', ''starttime'', ''vsize'', ''rss'', ''rsslim'', ''processor'', ''rt_priority'', ''policy'',
      ''delayacct_blkio_ticks'', ''guest_time'', ''cguest_time'', ''exit_code'']"

definition FULL_STAT_METRICS_IDX :: "nat dict" where
  "FULL_STAT_METRICS_IDX = dupdate [] (zip FULL_STAT_METRICS [0..<length FULL_STAT_METRICS])"

definition STAT_METRICS_IDX :: "nat list" where
  "STAT_METRICS_IDX = map (\<lambda>k. dget_or FULL_STAT_METRICS_IDX k 0) STAT_METRICS"

text \<open>\<open>FULL_STAT_METRICS_TYPE[i](v)\<close>: the command and the state are texts, the others numbers.\<close>

definition is_text :: "nat \<Rightarrow> bool" where
  "is_text i \<longleftrightarrow> i = 1 \<or> i = 2"

definition conv :: "nat \<Rightarrow> pval \<Rightarrow> pval res" where
  "conv i v =
     (if is_text i then Inr (PStr (py_str v))
      else (case v of PStr s \<Rightarrow> bindE (parse_int s) (\<lambda>n. Inr (PInt n)) | PInt n \<Rightarrow> Inr (PInt n)
            | _ \<Rightarrow> Inl (TypeError ''int() argument'')))"

text \<open>The text read, \<open>None\<close> when it could not be: then all values are 0.\<close>

definition stat_values :: "string option \<Rightarrow> pval list res" where
  "stat_values t =
     (case t of
        None \<Rightarrow> Inr (replicate (length FULL_STAT_METRICS) (PInt 0))
      | Some s \<Rightarrow>
          let fs = split_on CHR '' '' s in
          if length fs = length FULL_STAT_METRICS then Inr (map PStr fs)
          else Inl (TypeError ''ProcStat takes 52 positional arguments''))"

definition stat :: "'w os \<Rightarrow> conf \<Rightarrow> proc \<Rightarrow> int option \<Rightarrow> ('w, pval list \<times> int option) io" where
  "stat sys C P cache =
     seqS (host_check C P)
     (bindS (catchS (bindS (the_pid sys C P cache) (\<lambda>pid. bindS (o_read sys (''/proc/'' @ opt_pid pid @ ''/stat''))
               (\<lambda>t. retS (Some (strip t), pid))))
             (\<lambda>_. retS (None, None))) (\<lambda>(t, pid).
      bindS (liftE (stat_values t)) (\<lambda>vs. retS (vs, pid))))"

record monstat =
  ms_ts :: string
  ms_name :: string
  ms_fd :: int
  ms_vals :: "pval list"

definition from_LDMSD :: "'w os \<Rightarrow> conf \<Rightarrow> daemon \<Rightarrow> int option \<Rightarrow> ('w, monstat \<times> int option) io" where
  "from_LDMSD sys C d cache =
     bindS (o_time sys) (\<lambda>ts.
     bindS (fd_num sys C (ldmsd_proc d) cache) (\<lambda>(fd, pid).
     bindS (stat sys C (ldmsd_proc d) pid) (\<lambda>(vs, pid').
     bindS (liftE (mapE (\<lambda>i. conv i (vs ! i)) STAT_METRICS_IDX)) (\<lambda>xs.
       retS (\<lparr>ms_ts = ts, ms_name = d_name d, ms_fd = int fd, ms_vals = xs\<rparr>, pid')))))"

definition mon_str :: "monstat \<Rightarrow> string" where
  "mon_str m = join '' '' ([ms_ts m, ms_name m, str_int (ms_fd m)] @ map py_str (ms_vals m))"

text \<open>\<open>from_str\<close>; \<open>fl\<close> is \<open>float\<close>. Fields beyond the last are ignored, missing ones are an error.\<close>

definition mon_parse :: "(string \<Rightarrow> string res) \<Rightarrow> string \<Rightarrow> monstat res" where
  "mon_parse fl s =
     (case split_on CHR '' '' s of
        a # n # f # rest \<Rightarrow>
          bindE (fl a) (\<lambda>ts. bindE (parse_int f) (\<lambda>fd.
          bindE (mapE (\<lambda>(x, i). conv i (PStr x)) (zip rest STAT_METRICS_IDX)) (\<lambda>vs.
            if length vs = length STAT_METRICS then Inr \<lparr>ms_ts = ts, ms_name = n, ms_fd = fd, ms_vals = vs\<rparr>
            else Inl (TypeError ''missing required positional arguments''))))
      | a # _ \<Rightarrow> bindE (fl a) (\<lambda>_. Inl IndexError)
      | [] \<Rightarrow> Inl IndexError)"

section \<open>The monitor\<close>

text \<open>One round of \<open>routine\<close>, with the cached pid of every daemon; the next round begins at a multiple of the interval.\<close>

fun sample_all :: "'w os \<Rightarrow> conf \<Rightarrow> (daemon \<times> int option) list \<Rightarrow> ('w, (daemon \<times> int option) list) io" where
  "sample_all sys C [] = retS []"
| "sample_all sys C ((d, cache) # ds) =
     bindS (from_LDMSD sys C d cache) (\<lambda>(m, pid).
     seqS (o_append sys (mon_file C) (mon_str m @ nl)) (bindS (sample_all sys C ds) (\<lambda>r. retS ((d, pid) # r))))"

definition pause_for :: "int \<Rightarrow> int \<Rightarrow> int" where
  "pause_for interval t0 = (t0 div interval * interval + interval) - t0"

definition next_round :: "'w os \<Rightarrow> conf \<Rightarrow> ('w, unit) io" where
  "next_round sys C =
     (let i = int (c_mon_interval C) in
      bindS (o_now sys) (\<lambda>t0. if i = 0 then raiseS (OtherError ''ZeroDivisionError'' []) else o_sleep sys (pause_for i t0)))"

partial_function (option) routine_loop :: "'w os \<Rightarrow> conf \<Rightarrow> (daemon \<times> int option) list \<Rightarrow> ('w, unit) io" where
  "routine_loop sys C ds w =
     bindS (sample_all sys C ds) (\<lambda>ds'. seqS (next_round sys C) (routine_loop sys C ds')) w"

definition routine :: "'w os \<Rightarrow> conf \<Rightarrow> ('w, unit) io" where
  "routine sys C =
     seqS (host_check C (mon_proc C))
     (seqS (o_append sys (mon_file C) '''')
     (bindS (liftE (get_daemons C None)) (\<lambda>ds. routine_loop sys C (map (\<lambda>d. (d, None)) ds))))"

definition mon_start :: "'w os \<Rightarrow> conf \<Rightarrow> ('w, unit) io" where
  "mon_start sys C =
     seqS (host_check C (mon_proc C))
     (bindS (getpid sys C (mon_proc C)) (\<lambda>pid.
      if alive pid then retS ()
      else bindS (o_fork sys) (\<lambda>p. if p = 0 then routine sys C else o_write sys (p_pid_file (mon_proc C)) (str_int p @ nl))))"

definition unlink_all :: "'w os \<Rightarrow> string list \<Rightarrow> ('w, unit) io" where
  "unlink_all sys fs = forS fs (\<lambda>f. catchS (o_unlink sys f) (\<lambda>_. retS ()))"

definition mon_cleanup :: "'w os \<Rightarrow> conf \<Rightarrow> ('w, unit) io" where
  "mon_cleanup sys C =
     seqS (host_check C (mon_proc C))
     (bindS (getpid sys C (mon_proc C)) (\<lambda>pid.
      if alive pid then raiseS (RuntimeError (''Cannot cleanup, ldmsd_mon is still running (pid: '' @ opt_pid pid @ '')''))
      else unlink_all sys [p_pid_file (mon_proc C), mon_file C]))"

section \<open>Life of a daemon\<close>

definition writeConfig :: "'w os \<Rightarrow> conf \<Rightarrow> daemon \<Rightarrow> ('w, unit) io" where
  "writeConfig sys C d = bindS (liftE (getConfig C d)) (o_write sys (conf_file d))"

definition start :: "'w os \<Rightarrow> conf \<Rightarrow> daemon \<Rightarrow> ('w, unit) io" where
  "start sys C d =
     seqS (host_check C (ldmsd_proc d))
     (bindS (getpid sys C (ldmsd_proc d)) (\<lambda>pid.
      if alive pid then retS ()
      else seqS (writeConfig sys C d)
        (bindS (liftE (getCmdline C d False)) (\<lambda>cmd. bindS (o_sh sys cmd) (\<lambda>_. retS ())))))"

definition store_dir :: "conf \<Rightarrow> string list" where
  "store_dir C = (case c_store C of Some (r # rs) \<Rightarrow> [(r # rs) @ ''/test''] | _ \<Rightarrow> [])"

definition cleanup :: "'w os \<Rightarrow> conf \<Rightarrow> daemon \<Rightarrow> ('w, unit) io" where
  "cleanup sys C d =
     seqS (host_check C (ldmsd_proc d))
     (bindS (getpid sys C (ldmsd_proc d)) (\<lambda>pid.
      if alive pid then raiseS (RuntimeError (''Cannot cleanup, '' @ d_name d @ '' is running (pid: '' @ opt_pid pid @ '')''))
      else seqS (unlink_all sys [conf_file d, pid_file d, log_file d])
        (if d_host d = c_l3_host C then
           bindS (liftE (parse_int (d_port d))) (\<lambda>p. whenS (p = int (c_l3_base C))
             (forS (store_dir C) (\<lambda>f. catchS (o_rmtree sys f) (\<lambda>_. retS ()))))
         else retS ())))"

section \<open>Requests\<close>

text \<open>\<open>req\<close>: attributes the library does not know, and those of some verbs, go into one text attribute.\<close>

definition name_value :: "string \<Rightarrow> string \<times> string option" where
  "name_value s = (case split1 CHR ''='' s of [n, v] \<Rightarrow> (n, Some v) | _ \<Rightarrow> (s, None))"

definition as_text :: "(string \<Rightarrow> bool) \<Rightarrow> string \<Rightarrow> string \<Rightarrow> bool" where
  "as_text known verb name \<longleftrightarrow>
     (verb = ''config'' \<and> name \<noteq> ''name'') \<or> verb = ''env'' \<or>
     (verb = ''auth_add'' \<and> name \<notin> {''name'', ''plugin''}) \<or> \<not> known name"

definition build_req :: "(string \<Rightarrow> bool) \<Rightarrow> string \<Rightarrow> string \<times> attr list" where
  "build_req known line =
     (case split1 CHR '' '' line of
        [verb, args] \<Rightarrow>
          (let ws = split_ws args;
               texts = filter (\<lambda>s. as_text known verb (fst (name_value s))) ws;
               others = filter (\<lambda>s. \<not> as_text known verb (fst (name_value s))) ws
           in (verb, map (\<lambda>s. Attr (fst (name_value s)) (snd (name_value s))) others @
                (if texts = [] then [] else [AttrText (join '' '' texts)])))
      | _ \<Rightarrow> (line, []))"

definition req :: "'w ldms \<Rightarrow> string option \<Rightarrow> string \<Rightarrow> ('w, string) io" where
  "req X conn line =
     (case conn of
        None \<Rightarrow> raiseS (RuntimeError ''Error: no LDMS connection'')
      | Some k \<Rightarrow> let (verb, attrs) = build_req (x_known X) line in x_request X k verb attrs)"

definition set_states :: "string list" where
  "set_states = [''START'', ''LOOKUP'', ''READY'', ''UPDATING'', ''DELETED'']"

definition count_state :: "int dict \<Rightarrow> pval \<Rightarrow> int dict res" where
  "count_state counts s =
     bindE (p_index s ''state'') (\<lambda>v. bindE (case v of PStr k \<Rightarrow> Inr k | _ \<Rightarrow> Inl (KeyError v)) (\<lambda>k.
     bindE (dindex counts k) (\<lambda>n. Inr (dset k (n + 1) counts))))"

definition state_summary :: "pval list \<Rightarrow> int dict res" where
  "state_summary sets = foldE count_state (map (\<lambda>k. (k, 0)) set_states) sets"

definition summary_val :: "int dict \<Rightarrow> pval" where
  "summary_val counts = PDict (map (\<lambda>(k, n). (k, PInt n)) counts)"

definition with_summary :: "pval \<Rightarrow> pval res" where
  "with_summary p =
     bindE (p_index p ''sets'') (\<lambda>v. bindE (p_iter v) (\<lambda>sets. bindE (state_summary sets) (\<lambda>c.
     bindE (p_dict p) (\<lambda>d. Inr (PDict (dset ''set_state_summary'' (summary_val c) d))))))"

definition prdcr_status :: "'w ldms \<Rightarrow> (string \<Rightarrow> string) \<Rightarrow> string option \<Rightarrow> ('w, pval list) io" where
  "prdcr_status X fl conn =
     bindS (req X conn ''prdcr_status'') (\<lambda>msg.
       liftE (bindE (loads fl msg) (\<lambda>v. bindE (p_iter v) (mapE with_summary))))"

definition prdcr_set_status :: "'w ldms \<Rightarrow> (string \<Rightarrow> string) \<Rightarrow> string option \<Rightarrow> ('w, pval) io" where
  "prdcr_set_status X fl conn =
     bindS (req X conn ''prdcr_set_status'') (\<lambda>msg.
       liftE (bindE (loads fl msg) (\<lambda>v. bindE (p_iter v) (\<lambda>sets. bindE (state_summary sets) (\<lambda>c.
         Inr (PDict [(''sets'', v), (''set_state_summary'', summary_val c)]))))))"

section \<open>Sets\<close>

definition connect :: "'w ldms \<Rightarrow> conf \<Rightarrow> daemon \<Rightarrow> string option \<Rightarrow> ('w, string) io" where
  "connect X C d conn =
     seqS (case conn of Some k \<Rightarrow> x_close X k | None \<Rightarrow> retS ())
     (bindS (x_new X (c_xprt C)) (\<lambda>k. seqS (x_connect X k (d_host d) (d_port d)) (retS k)))"

definition disconnect :: "'w ldms \<Rightarrow> string option \<Rightarrow> ('w, string option) io" where
  "disconnect X conn = (case conn of Some k \<Rightarrow> seqS (x_close X k) (retS None) | None \<Rightarrow> retS None)"

definition connected :: "'w ldms \<Rightarrow> conf \<Rightarrow> daemon \<Rightarrow> string option \<Rightarrow> ('w, string) io" where
  "connected X C d conn = (case conn of Some k \<Rightarrow> retS k | None \<Rightarrow> connect X C d None)"

definition list_sets :: "'w ldms \<Rightarrow> conf \<Rightarrow> daemon \<Rightarrow> string option \<Rightarrow> ('w, string list \<times> string) io" where
  "list_sets X C d conn = bindS (connected X C d conn) (\<lambda>k. bindS (x_dir X k) (\<lambda>l. retS (l, k)))"

text \<open>
  The attributes \<open>_dirs\<close> and \<open>_sets\<close> come into being with the first listing and the first lookup.
\<close>

definition attribute :: "string \<Rightarrow> 'a option \<Rightarrow> 'a res" where
  "attribute name a = (case a of Some x \<Rightarrow> Inr x | None \<Rightarrow> Inl (AttributeError name))"

definition lookup_names :: "pval \<Rightarrow> string list option \<Rightarrow> string list res" where
  "lookup_names names dirs =
     (case names of
        PList l \<Rightarrow> mapE p_string l
      | PStr s \<Rightarrow> Inr [s]
      | PNone \<Rightarrow> bindE (attribute ''_dirs'' dirs) (\<lambda>l. if l = [] then Inl (ValueError ''`names` is required'') else Inr l)
      | _ \<Rightarrow> Inl (ValueError ''`names` is required''))"

definition lookup :: "'w ldms \<Rightarrow> conf \<Rightarrow> daemon \<Rightarrow> string option \<Rightarrow> pval \<Rightarrow> string list option \<Rightarrow> ('w, string list \<times> string) io" where
  "lookup X C d conn names dirs =
     bindS (connected X C d conn) (\<lambda>k. bindS (liftE (lookup_names names dirs)) (\<lambda>ns.
     bindS (mapS (x_lookup X k) ns) (\<lambda>sets. retS (sets, k))))"

definition update_sets :: "'w ldms \<Rightarrow> string list \<Rightarrow> string list option \<Rightarrow> ('w, unit) io" where
  "update_sets X sets known =
     bindS (liftE (if sets = [] then attribute ''_sets'' known else Inr sets)) (\<lambda>l. forS l (x_update X))"

text \<open>The time stamps of the sets, in microseconds, the first set read twice; the least and the greatest.\<close>

definition stamps :: "'w ldms \<Rightarrow> string list option \<Rightarrow> ('w, int list) io" where
  "stamps X known =
     bindS (liftE (attribute ''_sets'' known)) (\<lambda>sets.
       if sets = [] then raiseS IndexError
       else mapS (\<lambda>s. bindS (x_stamp X s) (\<lambda>(sec, usec). retS (sec * 1000000 + usec))) (hd sets # sets))"

definition min_ts :: "'w ldms \<Rightarrow> string list option \<Rightarrow> ('w, int) io" where
  "min_ts X sets = bindS (stamps X sets) (\<lambda>ts. retS (fold (\<lambda>t m. if t < m then t else m) (tl ts) (hd ts)))"

definition max_ts :: "'w ldms \<Rightarrow> string list option \<Rightarrow> ('w, int) io" where
  "max_ts X sets = bindS (stamps X sets) (\<lambda>ts. retS (fold (\<lambda>t m. if t > m then t else m) (tl ts) (hd ts)))"

text \<open>Waiting for sets to go and to come back. The connection is there from the first listing on.\<close>

definition sets_gone :: "string list \<Rightarrow> string list \<Rightarrow> string list \<Rightarrow> bool" where
  "sets_gone edir rm dir =
     (if rm \<noteq> [] then \<not> (\<exists>s \<in> set dir. s \<in> set rm) else length dir < length edir)"

definition wait_set_removed ::
  "'w os \<Rightarrow> 'w ldms \<Rightarrow> conf \<Rightarrow> daemon \<Rightarrow> string \<Rightarrow> string list \<Rightarrow> int \<Rightarrow> int \<Rightarrow> ('w, unit) io" where
  "wait_set_removed sys X C d k rm timeout interval =
     cond_wait sys (bindS (list_sets X C d (Some k)) (\<lambda>(l, _).
         if rm \<noteq> [] then retS (sets_gone [] rm l)
         else bindS (liftE (expected_dir C (d_level d) (d_name d))) (\<lambda>e. retS (sets_gone e [] l))))
       timeout interval (d_name d @ '' (some) sets removed'')"

definition wait_set_restored ::
  "'w os \<Rightarrow> 'w ldms \<Rightarrow> conf \<Rightarrow> daemon \<Rightarrow> string \<Rightarrow> int \<Rightarrow> int \<Rightarrow> ('w, unit) io" where
  "wait_set_restored sys X C d k timeout interval =
     cond_wait sys (bindS (list_sets X C d (Some k)) (\<lambda>(l, _).
         bindS (liftE (expected_dir C (d_level d) (d_name d))) (\<lambda>e. retS (length l = length e))))
       timeout interval (d_name d @ '' sets restored'')"

text \<open>\<open>Conn\<close>: the transports of all aggregators with their levels.\<close>

definition agg_conns :: "conf \<Rightarrow> (string \<times> string \<times> int \<times> nat) list res" where
  "agg_conns C =
     mapE (\<lambda>(n, l). bindE (host_and_port n) (\<lambda>(h, p). bindE (parse_int p) (\<lambda>i. Inr (n, h, i, l))))
       (map (\<lambda>n. (n, 1)) (L1_AGGS C) @ map (\<lambda>n. (n, 2)) (L2_AGGS C) @ [(L3_AGG C, 3)])"

section \<open>Control\<close>

definition all_handlers :: "conf \<Rightarrow> daemon list res" where
  "all_handlers C = bindE (mapE (all_daemons C) [0, 1, 2, 3]) (\<lambda>ls. Inr (concat ls))"

definition by_name :: "daemon list \<Rightarrow> daemon dict" where
  "by_name ds = dupdate [] (map (\<lambda>d. (d_name d, d)) ds)"

definition add_host :: "daemon list dict \<Rightarrow> daemon \<Rightarrow> daemon list dict" where
  "add_host tbl d = dset (d_host d) (dget_or tbl (d_host d) [] @ [d]) tbl"

definition by_host :: "daemon list \<Rightarrow> daemon list dict" where
  "by_host ds = foldl add_host [] ds"

definition wanted :: "daemon list \<Rightarrow> string list \<Rightarrow> daemon list res" where
  "wanted ds names = (if names \<noteq> [] then mapE (dindex (by_name ds)) names else Inr ds)"

definition ctrl_cmd :: "conf \<Rightarrow> string \<Rightarrow> string \<Rightarrow> bool \<Rightarrow> string \<times> daemon list \<Rightarrow> string" where
  "ctrl_cmd C src cmd named = (\<lambda>(h, l).
     (if h \<noteq> c_myhost C then ''ssh '' @ '' -p '' @ str_nat (c_ssh_port C) @ '' '' @ h @ '' '' else []) @
     src @ ''/ldmsd_ctl.py '' @ cmd @ (if named then concat (map (\<lambda>d. '' '' @ d_name d) l) else []))"

definition ctrl :: "'w os \<Rightarrow> conf \<Rightarrow> string \<Rightarrow> string \<Rightarrow> string list \<Rightarrow> ('w, string list) io" where
  "ctrl sys C src cmd names =
     bindS (liftE (bindE (all_handlers C) (\<lambda>ds. wanted ds names))) (\<lambda>ds.
     mapS (\<lambda>hl. let c = ctrl_cmd C src cmd (names \<noteq> []) hl in
       bindS (o_sh sys c) (\<lambda>(rc, out).
         if rc \<noteq> 0 then raiseS (RuntimeError (''cmd `'' @ c @ ''` error, rc: '' @ str_int rc)) else retS out)) (by_host ds))"

definition status :: "'w os \<Rightarrow> (string \<Rightarrow> string) \<Rightarrow> conf \<Rightarrow> string \<Rightarrow> string list \<Rightarrow> ('w, pval dict) io" where
  "status sys fl C src names =
     bindS (ctrl sys C src ''-jl status'' names) (\<lambda>outs.
       liftE (foldE (\<lambda>coll out. bindE (loads fl out) (\<lambda>v. bindE (p_dict v) (\<lambda>d. Inr (dupdate coll d)))) [] outs))"

definition ctrl_wait ::
  "'w os \<Rightarrow> (string \<Rightarrow> string) \<Rightarrow> conf \<Rightarrow> string \<Rightarrow> string \<Rightarrow> (pval \<Rightarrow> bool) \<Rightarrow> string \<Rightarrow> string list \<Rightarrow> int \<Rightarrow> ('w, unit) io" where
  "ctrl_wait sys fl C src cmd good name names timeout =
     bindS (ctrl sys C src cmd names) (\<lambda>_.
       if timeout < 0 then retS ()
       else cond_wait sys (bindS (status sys fl C src names) (\<lambda>d. retS (list_all (\<lambda>(k, v). good v) d))) timeout 1000000 name)"

definition ctrl_start :: "'w os \<Rightarrow> (string \<Rightarrow> string) \<Rightarrow> conf \<Rightarrow> string \<Rightarrow> string list \<Rightarrow> int \<Rightarrow> ('w, unit) io" where
  "ctrl_start sys fl C src names timeout = ctrl_wait sys fl C src ''start'' truthy ''ldmsds started'' names timeout"

definition ctrl_stop :: "'w os \<Rightarrow> (string \<Rightarrow> string) \<Rightarrow> conf \<Rightarrow> string \<Rightarrow> string list \<Rightarrow> int \<Rightarrow> ('w, unit) io" where
  "ctrl_stop sys fl C src names timeout = ctrl_wait sys fl C src ''stop'' (\<lambda>v. \<not> truthy v) ''ldmsds stopped'' names timeout"

section \<open>The lines of the monitor\<close>

text \<open>A sampled value of the type of its column, without a space.\<close>

definition typed :: "nat \<Rightarrow> pval \<Rightarrow> bool" where
  "typed i v \<longleftrightarrow> (if is_text i then \<exists>s. v = PStr s \<and> CHR '' '' \<notin> set s else \<exists>n. v = PInt n)"

lemma conv_typed:
  assumes "conv i v = Inr x" "v = PInt n \<or> v = PStr s \<and> CHR '' '' \<notin> set s"
  shows "typed i x"
  using assms str_int_no_space by (auto simp: conv_def typed_def res_simps split: if_splits)

lemma conv_text: "typed i v \<Longrightarrow> conv i (PStr (py_str v)) = Inr v \<and> CHR '' '' \<notin> set (py_str v)"
  using str_int_no_space by (auto simp: conv_def typed_def parse_int_str_int)

lemma stat_idx: "list_all (\<lambda>i. i < 52) STAT_METRICS_IDX"
  by code_simp

lemma stat_len: "length STAT_METRICS_IDX = length STAT_METRICS"
  by (simp add: STAT_METRICS_IDX_def)

lemma mon_roundtrip:
  assumes "list_all2 typed STAT_METRICS_IDX (ms_vals m)" "CHR '' '' \<notin> set (ms_ts m)" "CHR '' '' \<notin> set (ms_name m)"
    "fl (ms_ts m) = Inr (ms_ts m)"
  shows "mon_parse fl (mon_str m) = Inr m"
proof -
  have c: "mapE (\<lambda>(x, i). conv i (PStr x)) (zip (map py_str vs) is) = Inr vs \<and> (\<forall>v \<in> set vs. CHR '' '' \<notin> set (py_str v))"
    if "list_all2 typed is vs" for "is" vs
    using that by (induction rule: list_all2_induct) (auto dest: conv_text)
  have "split_on CHR '' '' (mon_str m) = [ms_ts m, ms_name m, str_int (ms_fd m)] @ map py_str (ms_vals m)"
    unfolding mon_str_def using assms(2,3) c [OF assms(1)] str_int_no_space by (intro split_on_join) auto
  with c [OF assms(1)] assms(4) list_all2_lengthD [OF assms(1)] show ?thesis
    by (simp add: mon_parse_def parse_int_str_int stat_len)
qed


lemma stat_fields:
  assumes "stat_values t = Inr vs"
  shows "length vs = 52 \<and> (\<forall>v \<in> set vs. v = PInt 0 \<or> (\<exists>s. v = PStr s \<and> CHR '' '' \<notin> set s))"
proof -
  have l: "length FULL_STAT_METRICS = 52" by (simp add: FULL_STAT_METRICS_def)
  show ?thesis
  proof (cases t)
    case None
    with assms l show ?thesis by (auto simp: stat_values_def)
  next
    case (Some s)
    with assms l have "length vs = 52 \<and> vs = map PStr (split_on CHR '' '' s)"
      by (auto simp: stat_values_def Let_def split: if_splits)
    then show ?thesis using split_on_clean by auto
  qed
qed

lemma stat_read: "stat sys C P cache w = Some (Inr (vs, pid), w') \<Longrightarrow> \<exists>t. stat_values t = Inr vs"
  unfolding stat_def by (auto simp: bindS_Inr io_simps)

lemma from_LDMSD_typed:
  assumes "from_LDMSD sys C d cache w = Some (Inr (m, pid), w')"
  shows "\<exists>w1. o_time sys w = Some (Inr (ms_ts m), w1) \<and> ms_name m = d_name d \<and> list_all2 typed STAT_METRICS_IDX (ms_vals m)"
proof -
  from assms obtain ts w1 vs pid1 pid2 w2 where t: "o_time sys w = Some (Inr ts, w1)"
    and s: "stat sys C (ldmsd_proc d) pid1 w2 = Some (Inr (vs, pid2), w')"
    and m: "mapE (\<lambda>i. conv i (vs ! i)) STAT_METRICS_IDX = Inr (ms_vals m)" "ms_ts m = ts" "ms_name m = d_name d"
    unfolding from_LDMSD_def by (auto simp: bindS_Inr io_simps)
  have "typed i x" if "i \<in> set STAT_METRICS_IDX" "conv i (vs ! i) = Inr x" for i x
  proof -
    have "i < 52" using stat_idx that(1) by (simp add: list_all_iff)
    with stat_read [OF s] stat_fields have "vs ! i = PInt 0 \<or> (\<exists>s. vs ! i = PStr s \<and> CHR '' '' \<notin> set s)" by (metis nth_mem)
    with conv_typed [OF that(2)] show ?thesis by blast
  qed
  then have "list_all2 typed STAT_METRICS_IDX (ms_vals m)"
    using m(1) unfolding mapE_Inr by (auto simp: list_all2_conv_all_nth)
  with t m show ?thesis by simp
qed

text \<open>The system of the examples: files, a constant clock, nothing else.\<close>

definition file_os :: "string \<Rightarrow> (string dict) os" where
  "file_os ts = \<lparr>o_now = retS 0, o_time = retS ts, o_sleep = (\<lambda>_. retS ()),
     o_exists = (\<lambda>f. getS (\<lambda>fs. f \<in> set (dkeys fs))), o_read = (\<lambda>f fs. Some (dindex fs f, fs)),
     o_write = (\<lambda>f t. updS (dset f t)), o_append = (\<lambda>f t. updS (\<lambda>fs. dset f (dget_or fs f [] @ t) fs)),
     o_unlink = (\<lambda>f. updS (dpop f)), o_listdir = (\<lambda>f. getS (map fst)), o_makedirs = (\<lambda>_. retS ()), o_rmtree = (\<lambda>_. retS ()),
     o_kill = (\<lambda>_. retS ()), o_fork = retS 1, o_exec = (\<lambda>_. retS ()), o_sh = (\<lambda>_. retS (0, [])), o_print = (\<lambda>_. retS ())\<rparr>"
text \<open>A running daemon.\<close>

definition demo_daemon :: daemon where
  "demo_daemon = \<lparr>d_name = ''b-7'', d_host = ''b'', d_port = ''7'', d_level = 1, d_idx = 0\<rparr>"

definition demo_files :: "string dict" where
  "demo_files = [(pid_file demo_daemon, ''9'' @ nl), (''/proc/9/comm'', ''ldmsd'' @ nl), (''/proc/9/cmdline'', ''ldmsd -c b-7''),
     (''/proc/9/stat'', ''9 (ldmsd) S'' @ concat (replicate 49 '' 5''))]"

lemma file_os_calls [simp]:
  "o_exists (file_os t) f = getS (\<lambda>fs. f \<in> set (dkeys fs))" "o_read (file_os t) f = (\<lambda>fs. Some (dindex fs f, fs))"
  "o_time (file_os t) = retS t" "o_listdir (file_os t) f = getS (map fst)"
  by (simp_all add: file_os_def)

lemma demo_parts [simp]: "d_host demo_daemon = ''b''" "d_name demo_daemon = ''b-7''" "c_myhost demo_conf = ''b''"
  by (simp_all add: demo_conf_def demo_daemon_def)

lemma demo_checks [simp]: "host_check demo_conf (ldmsd_proc demo_daemon) = retS ()" "p_pid_file (ldmsd_proc demo_daemon) = pid_file demo_daemon"
    "p_comm (ldmsd_proc demo_daemon) ''ldmsd''" "p_cmdline (ldmsd_proc demo_daemon) ''ldmsd -c b-7''"
  by (simp_all add: host_check_def ldmsd_proc_def startswith_def)

lemma demo_pid: "getpid (file_os t) demo_conf (ldmsd_proc demo_daemon) demo_files = Some (Inr (Some 9), demo_files)"
proof -
  have t: "parse_int (''9'' @ nl) = Inr 9" "strip (''ldmsd'' @ nl) = ''ldmsd''" "strip ''ldmsd -c b-7'' = ''ldmsd -c b-7''"
      "''/proc/'' @ str_int 9 @ ''/comm'' = ''/proc/9/comm''" "''/proc/'' @ str_int 9 @ ''/cmdline'' = ''/proc/9/cmdline''"
    by code_simp+
  have d: "dindex demo_files (pid_file demo_daemon) = Inr (''9'' @ nl)" "dindex demo_files ''/proc/9/comm'' = Inr (''ldmsd'' @ nl)"
      "dindex demo_files ''/proc/9/cmdline'' = Inr ''ldmsd -c b-7''" "pid_file demo_daemon \<in> fst ` set demo_files"
    by (simp_all add: demo_files_def dindex_def pid_file_def demo_daemon_def)
  show ?thesis
    unfolding getpid_def
    by (simp add: bindS_def getS_def retS_def catchS_def liftE_def d t del: append.simps)
qed

lemma demo_fds: "fd_num (file_os t) demo_conf (ldmsd_proc demo_daemon) None demo_files = Some (Inr (4, Some 9), demo_files)"
  using demo_pid by (simp add: fd_num_def the_pid_def bindS_def getS_def retS_def catchS_def demo_files_def)

lemma stat_idx_eq: "STAT_METRICS_IDX = [2, 9, 10, 11, 12, 13, 14, 15, 16, 19, 21, 22, 23, 24, 38, 39, 40, 41, 42, 43, 51]"
  by code_simp

abbreviation demo_stat :: string where
  "demo_stat \<equiv> ''9 (ldmsd) S'' @ concat (replicate 49 '' 5'')"

lemma demo_stat_ok: "strip demo_stat = demo_stat"
    "stat_values (Some demo_stat) = Inr ([PStr ''9'', PStr ''(ldmsd)'', PStr ''S''] @ replicate 49 (PStr ''5''))"
  by code_simp+

lemma demo_read: "stat (file_os t) demo_conf (ldmsd_proc demo_daemon) (Some 9) demo_files =
    Some (Inr ([PStr ''9'', PStr ''(ldmsd)'', PStr ''S''] @ replicate 49 (PStr ''5''), Some 9), demo_files)"
proof -
  have s: "''/proc/'' @ opt_pid (Some 9) @ ''/stat'' = ''/proc/9/stat''" by (simp add: opt_pid_def str_int_def str_nat_def digits_of.simps)
  have d: "dindex demo_files ''/proc/9/stat'' = Inr demo_stat"
    by (simp add: demo_files_def dindex_def pid_file_def demo_daemon_def)
  show ?thesis
    unfolding stat_def
    by (simp add: the_pid_def bindS_def retS_def catchS_def liftE_def demo_stat_ok s d
        del: append.simps replicate.simps concat.simps)
qed

lemma demo_conv: "conv 2 (PStr ''S'') = Inr (PStr ''S'')" "\<not> is_text i \<Longrightarrow> conv i (PStr ''5'') = Inr (PInt 5)"
proof -
  have "parse_int ''5'' = Inr 5" by code_simp
  then show "\<not> is_text i \<Longrightarrow> conv i (PStr ''5'') = Inr (PInt 5)" by (simp add: conv_def)
qed (simp add: conv_def is_text_def)

lemma demo_convs: "mapE (\<lambda>i. conv i (([PStr ''9'', PStr ''(ldmsd)'', PStr ''S''] @ replicate 49 (PStr ''5'')) ! i)) STAT_METRICS_IDX =
      Inr (PStr ''S'' # replicate 20 (PInt 5))"
proof -
  have n: "([PStr ''9'', PStr ''(ldmsd)'', PStr ''S''] @ replicate 49 (PStr ''5'')) ! i = PStr ''5''" if "3 \<le> i" "i < 52" for i
    using that by (auto simp: nth_append nth_Cons')
  have "([PStr ''9'', PStr ''(ldmsd)'', PStr ''S''] @ replicate 49 (PStr ''5'')) ! 2 = PStr ''S''"
    by (simp add: nth_append)
  then show ?thesis
    by (simp add: stat_idx_eq demo_conv is_text_def n del: append.simps) (simp add: numeral_eq_Suc)
qed

lemma demo_sample:
  "from_LDMSD (file_os ''1'') demo_conf demo_daemon None demo_files =
     Some (Inr (\<lparr>ms_ts = ''1'', ms_name = ''b-7'', ms_fd = 4, ms_vals = PStr ''S'' # replicate 20 (PInt 5)\<rparr>, Some 9), demo_files)"
  unfolding from_LDMSD_def
  by (simp add: bindS_def retS_def liftE_def demo_fds demo_read demo_convs del: append.simps replicate.simps)


text \<open>
  What the monitor writes can be read back. The line of every sample that \<open>from_LDMSD\<close> takes of a
  daemon, running or not, is parsed by \<open>from_str\<close> to the same sample, provided the name of
  the daemon and the text of the clock have no space and \<open>float\<close> reads the clock text back.
\<close>

lemma monitor_line_read_back:
  assumes "from_LDMSD sys C d cache w = Some (Inr (m, pid), w')"
    and "\<And>w ts w'. o_time sys w = Some (Inr ts, w') \<Longrightarrow> fl ts = Inr ts \<and> CHR '' '' \<notin> set ts"
    and "CHR '' '' \<notin> set (d_name d)"
  shows "mon_parse fl (mon_str m) = Inr m"
proof -
  from from_LDMSD_typed [OF assms(1)] obtain w1 where "o_time sys w = Some (Inr (ms_ts m), w1)" "ms_name m = d_name d"
    "list_all2 typed STAT_METRICS_IDX (ms_vals m)" by blast
  with assms(2,3) show ?thesis by (intro mon_roundtrip) auto
qed

lemma monitor_line_read_back_instance:
  "mon_parse Inr (mon_str \<lparr>ms_ts = ''1'', ms_name = ''b-7'', ms_fd = 4, ms_vals = PStr ''S'' # replicate 20 (PInt 5)\<rparr>) =
     Inr \<lparr>ms_ts = ''1'', ms_name = ''b-7'', ms_fd = 4, ms_vals = PStr ''S'' # replicate 20 (PInt 5)\<rparr>"
  by (rule monitor_line_read_back [OF demo_sample]) (auto simp: retS_def)

section \<open>Waiting ends\<close>

lemma cond_loop_ends:
  assumes c: "clock_ok time d (o_now sys) (o_sleep sys interval) cond" and d: "0 < d" and t: "0 < timeout"
  shows "\<exists>r w'. cond_loop sys cond timeout interval name t0 w = Some (r, w') \<and> time w \<le> time w' \<and>
    ((r = Inr () \<and> (\<exists>w1. cond w1 = Some (Inr True, w'))) \<or>
     (r = Inl (TimeoutError (name @ '' timed out'')) \<and> timeout \<le> time w' - t0) \<or>
     (\<exists>e w1. r = Inl e \<and> cond w1 = Some (Inl e, w')))"
proof (induction "nat (timeout - (time w - t0))" arbitrary: w rule: less_induct)
  case less
  obtain r w1 where cw: "cond w = Some (r, w1)" "time w \<le> time w1" using c unfolding clock_ok_def by blast
  have now: "o_now sys w1 = Some (Inr (time w1), w1)" using c by (simp add: clock_ok_def)
  obtain w2 where sl: "o_sleep sys interval w1 = Some (Inr (), w2)" "time w1 + d \<le> time w2"
    using c unfolding clock_ok_def by blast
  show ?case
  proof (cases "r = Inr False")
    case False
    have "cond_loop sys cond timeout interval name t0 w = Some (case r of Inl e \<Rightarrow> Inl e | Inr _ \<Rightarrow> Inr (), w1)"
      using cw False by (subst cond_loop.simps) (cases r; auto simp: io_simps)
    with cw False show ?thesis by (cases r) auto
  next
    case True
    show ?thesis
    proof (cases "timeout \<le> time w1 - t0")
      case late: True
      have "cond_loop sys cond timeout interval name t0 w = Some (Inl (TimeoutError (name @ '' timed out'')), w1)"
        using late t now
        by (subst cond_loop.simps, subst bindS_apply(3) [where m = cond and w = w, OF cw(1) [unfolded True]])
          (simp add: io_simps too_late_def)
      with late cw show ?thesis by blast
    next
      case False
      have "cond_loop sys cond timeout interval name t0 w = cond_loop sys cond timeout interval name t0 w2"
        using False t now sl
        by (subst cond_loop.simps, subst bindS_apply(3) [where m = cond and w = w, OF cw(1) [unfolded True]])
          (simp add: io_simps too_late_def)
      moreover have "nat (timeout - (time w2 - t0)) < nat (timeout - (time w - t0))"
        using False cw(2) sl(2) d by linarith
      from less [OF this] obtain r' w' where "cond_loop sys cond timeout interval name t0 w2 = Some (r', w')" "time w2 \<le> time w'"
        "(r' = Inr () \<and> (\<exists>w1. cond w1 = Some (Inr True, w'))) \<or>
         (r' = Inl (TimeoutError (name @ '' timed out'')) \<and> timeout \<le> time w' - t0) \<or>
         (\<exists>e w1. r' = Inl e \<and> cond w1 = Some (Inl e, w'))" by blast
      moreover have "time w \<le> time w2" using cw(2) sl(2) d by linarith
      ultimately show ?thesis by (intro exI [of _ r'] exI [of _ w']) auto
    qed
  qed
qed

text \<open>A world that is its clock.\<close>

definition clock_os :: "int os" where
  "clock_os = \<lparr>o_now = getS id, o_time = retS [], o_sleep = (\<lambda>i. updS (\<lambda>w. w + i)), o_exists = (\<lambda>_. retS False),
     o_read = (\<lambda>_. retS []), o_write = (\<lambda>_ _. retS ()), o_append = (\<lambda>_ _. retS ()), o_unlink = (\<lambda>_. retS ()),
     o_listdir = (\<lambda>_. retS []), o_makedirs = (\<lambda>_. retS ()), o_rmtree = (\<lambda>_. retS ()), o_kill = (\<lambda>_. retS ()),
     o_fork = retS 1, o_exec = (\<lambda>_. retS ()), o_sh = (\<lambda>_. retS (0, [])), o_print = (\<lambda>_. retS ())\<rparr>"

text \<open>
  Waiting ends. With a clock that sleeping advances, \<open>cond_wait\<close> with a time limit always returns:
  without a result when the condition was found true, with \<open>TimeoutError\<close> after the limit at the
  earliest, or with the exception of the condition.
\<close>

lemma wait_ends:
  assumes "clock_ok time d (o_now sys) (o_sleep sys interval) cond" "0 < d" "0 < timeout"
  shows "\<exists>r w'. cond_wait sys cond timeout interval name w = Some (r, w') \<and>
    ((r = Inr () \<and> (\<exists>w1. cond w1 = Some (Inr True, w'))) \<or>
     (r = Inl (TimeoutError (name @ '' timed out'')) \<and> timeout \<le> time w' - time w) \<or>
     (\<exists>e w1. r = Inl e \<and> cond w1 = Some (Inl e, w')))"
proof -
  have "o_now sys w = Some (Inr (time w), w)" using assms(1) by (simp add: clock_ok_def)
  then have "cond_wait sys cond timeout interval name w = cond_loop sys cond timeout interval name (time w) w"
    by (simp add: cond_wait_def io_simps)
  with cond_loop_ends [OF assms, of name "time w" w] show ?thesis by auto
qed

lemma wait_ends_instance:
  "\<exists>r w'. cond_wait clock_os (retS False) 5 2 ''x'' 0 = Some (r, w') \<and>
     r = Inl (TimeoutError (''x'' @ '' timed out'')) \<and> 5 \<le> w'"
proof -
  have "clock_ok (\<lambda>w. w) 2 (o_now clock_os) (o_sleep clock_os 2) (retS False)"
    by (simp add: clock_ok_def clock_os_def getS_def updS_def retS_def)
  from wait_ends [OF this, of 5 "''x''" 0] show ?thesis by (auto simp: retS_def)
qed

section \<open>Summaries of the set states\<close>

lemma dset_nth_keys: "dget d k = Some n \<Longrightarrow> dkeys (dset k m d) = dkeys d"
  by (induction d) (auto split: if_splits)

lemma dset_sum:
  "distinct (dkeys d) \<Longrightarrow> dget d k = Some n \<Longrightarrow> sum_list (map snd (dset k m d)) = sum_list (map snd d) - n + (m :: int)"
proof (induction d)
  case (Cons x d)
  show ?case
  proof (cases "fst x = k")
    case True
    with Cons.prems have "k \<notin> set (dkeys d)" by auto
    with True Cons.prems show ?thesis by (cases x) simp
  next
    case False
    with Cons show ?thesis by (cases x) simp
  qed
qed simp

lemma summary_counts:
  assumes "foldE count_state c sets = Inr c'" "distinct (dkeys c)"
  shows "dkeys c' = dkeys c \<and> sum_list (map snd c') = sum_list (map snd c) + int (length sets) \<and>
    (\<forall>k. dget c k \<noteq> None \<longrightarrow> dget c' k = Some (the (dget c k) +
       int (length (filter (\<lambda>s. p_index s ''state'' = Inr (PStr k)) sets))))"
  using assms
proof (induction sets arbitrary: c)
  case (Cons s sets)
  from Cons.prems(1) obtain c1 where s: "count_state c s = Inr c1" and f: "foldE count_state c1 sets = Inr c'"
    by (auto simp: res_simps)
  from s obtain k n where k: "p_index s ''state'' = Inr (PStr k)" "dget c k = Some n" "c1 = dset k (n + 1) c"
  proof -
    from s obtain v where v: "p_index s ''state'' = Inr v"
      "bindE (case v of PStr k \<Rightarrow> Inr k | _ \<Rightarrow> Inl (KeyError v)) (\<lambda>k. bindE (dindex c k) (\<lambda>n. Inr (dset k (n + 1) c))) = Inr c1"
      unfolding count_state_def by (simp only: bindE_Inr) blast
    then show ?thesis using that by (cases v) (auto simp: dindex_def res_simps split: option.splits)
  qed
  have kc: "dkeys c1 = dkeys c" unfolding k(3) by (rule dset_nth_keys [OF k(2)])
  have sc: "sum_list (map snd c1) = sum_list (map snd c) + 1"
    unfolding k(3) using dset_sum [OF Cons.prems(2) k(2), of "n + 1"] by simp
  have g: "dget c1 j = (if j = k then Some (n + 1) else dget c j)" for j unfolding k(3) by (rule dset_get)
  from Cons.IH [OF f] Cons.prems(2) kc have ih: "dkeys c' = dkeys c1" "sum_list (map snd c') = sum_list (map snd c1) + int (length sets)"
    "\<forall>k. dget c1 k \<noteq> None \<longrightarrow> dget c' k = Some (the (dget c1 k) +
       int (length (filter (\<lambda>s. p_index s ''state'' = Inr (PStr k)) sets)))" by simp_all
  have "dget c' j = Some (the (dget c j) + int (length (filter (\<lambda>s. p_index s ''state'' = Inr (PStr j)) (s # sets))))"
    if "dget c j \<noteq> None" for j
    using ih(3) [rule_format, of j] that k(1,2) g [of j] by (cases "j = k") auto
  with ih kc sc show ?case by simp
qed simp

text \<open>The summary of a producer's sets counts every set once: its counts add up to the number of sets.\<close>

lemma state_summary_total:
  assumes "state_summary sets = Inr c"
  shows "dkeys c = set_states \<and> sum_list (map snd c) = int (length sets) \<and>
    (\<forall>k \<in> set set_states. dget c k = Some (int (length (filter (\<lambda>s. p_index s ''state'' = Inr (PStr k)) sets))))"
proof -
  let ?c0 = "map (\<lambda>k. (k, 0 :: int)) set_states"
  have z: "dget ?c0 k = Some 0" if "k \<in> set set_states" for k using that by (auto simp: set_states_def)
  have c0: "dkeys ?c0 = set_states" "distinct (dkeys ?c0)" "sum_list (map snd ?c0) = 0" by (simp_all add: set_states_def)
  from summary_counts [OF assms [unfolded state_summary_def] c0(2)] have
    c: "dkeys c = dkeys ?c0" "sum_list (map snd c) = sum_list (map snd ?c0) + int (length sets)"
      "\<forall>k. dget ?c0 k \<noteq> None \<longrightarrow> dget c k = Some (the (dget ?c0 k) +
         int (length (filter (\<lambda>s. p_index s ''state'' = Inr (PStr k)) sets)))" by blast+
  have "dget c k = Some (int (length (filter (\<lambda>s. p_index s ''state'' = Inr (PStr k)) sets)))" if "k \<in> set set_states" for k
    using c(3) [THEN spec, of k] unfolding z [OF that] by (simp only: option.sel option.distinct add_0 simp_thms)
  then show ?thesis using c(1,2) c0(1,3) by (intro conjI ballI; simp only: add_0)
qed

end
