(* ===== verification/Scripts.thy ===== *)
theory Scripts
  imports Daemons "HOL-Library.List_Lexorder" "HOL-Library.Char_ord"
begin

text \<open>
  The command line scripts of the scalability test: \<open>ldmsd_ctl.py\<close> and \<open>ldmsd_mon.py\<close> on one host, and
  \<open>cluster.py\<close>, which runs them on all hosts from several threads. The working directory is
  \<open>WORK_DIR\<close>; parsed arguments are parameters, the exit status is the result.
\<close>

section \<open>ldmsd_ctl.py\<close>

text \<open>\<open>str(e)\<close>.\<close>

definition exc_str :: "pyerr \<Rightarrow> string" where
  "exc_str e =
     (case e of
        TypeError m \<Rightarrow> m | KeyError v \<Rightarrow> py_repr v | ValueError m \<Rightarrow> m | RuntimeError m \<Rightarrow> m | AttributeError m \<Rightarrow> m
      | IndexError \<Rightarrow> ''list index out of range'' | NameError m \<Rightarrow> m | LookupError m \<Rightarrow> m | AssertionError \<Rightarrow> []
      | TimeoutError m \<Rightarrow> m | OtherError k m \<Rightarrow> m)"

definition ctl_filter :: "string list \<Rightarrow> (string \<Rightarrow> bool) option" where
  "ctl_filter names = (if names \<noteq> [] then Some (\<lambda>n. n \<in> set names) else None)"

text \<open>The lambda \<open>INT\<close>.\<close>

definition pid_int :: "int option \<Rightarrow> int" where
  "pid_int x = (case x of Some p \<Rightarrow> p | None \<Rightarrow> 0)"

definition gdb_start :: "'w os \<Rightarrow> conf \<Rightarrow> daemon list \<Rightarrow> daemon \<Rightarrow> ('w, unit) io" where
  "gdb_start sys C ds d =
     seqS (whenS (1 < length ds) (o_print sys (''`gdb-start` supports only 1 daemon, selecting '' @ d_name d @ '' and ignore the rest.'')))
     (seqS (writeConfig sys C d)
     (bindS (liftE (getCmdline C d True)) (\<lambda>cmd. seqS (o_print sys (''cmd: '' @ cmd)) (o_exec sys cmd))))"

text \<open>The functions of \<open>fn_tbl\<close>, on one daemon, with the table of the pids seen.\<close>

definition fn_tbl :: "string list" where
  "fn_tbl = [''status'', ''start'', ''stop'', ''cleanup'', ''gdb-start'']"

definition ctl_fn :: "'w os \<Rightarrow> conf \<Rightarrow> string \<Rightarrow> daemon list \<Rightarrow> int dict \<Rightarrow> daemon \<Rightarrow> ('w, int dict) io" where
  "ctl_fn sys C cmd ds tbl d =
     (let P = ldmsd_proc d in
      if cmd = ''status'' then bindS (getpid sys C P) (\<lambda>pid. retS (dset (d_name d) (pid_int pid) tbl))
      else seqS
        (if cmd = ''start'' then bindS (the_pid sys C P None) (\<lambda>pid. whenS (\<not> alive pid) (start sys C d))
         else if cmd = ''stop'' then bindS (the_pid sys C P None) (\<lambda>pid. whenS (alive pid) (stop sys C P))
         else if cmd = ''cleanup'' then cleanup sys C d
         else gdb_start sys C ds d)
        (retS tbl))"

text \<open>The loop: an exception is printed, the others still have their turn, and the exit status will be 1.\<close>

fun ctl_loop :: "'w os \<Rightarrow> conf \<Rightarrow> string \<Rightarrow> daemon list \<Rightarrow> daemon list \<Rightarrow> int dict \<Rightarrow> int \<Rightarrow> ('w, int dict \<times> int) io" where
  "ctl_loop sys C cmd ds [] tbl rc = retS (tbl, rc)"
| "ctl_loop sys C cmd ds (d # r) tbl rc =
     bindS (catchS (bindS (ctl_fn sys C cmd ds tbl d) (\<lambda>t. retS (t, rc)))
             (\<lambda>e. seqS (o_print sys (exc_str e)) (retS (tbl, 1))))
       (\<lambda>(t, c). ctl_loop sys C cmd ds r t c)"

definition table_val :: "int dict \<Rightarrow> pval" where
  "table_val tbl = PDict (map (\<lambda>(k, i). (k, PInt i)) tbl)"

definition status_line :: "string \<times> int \<Rightarrow> string" where
  "status_line = (\<lambda>(k, v). k @ '' '' @ (if v \<noteq> 0 then ''is running, pid: '' @ str_int v else ''is not running''))"

definition report :: "bool \<Rightarrow> int dict \<Rightarrow> string list" where
  "report lst tbl =
     (if lst then map status_line (sort_key fst tbl) @ [replicate 80 CHR ''-''] else []) @
     [str_nat (length (filter (\<lambda>(k, v). v \<noteq> 0) tbl)) @ '' out of '' @ str_nat (length tbl) @ '' daemons are running'']"

definition ctl_main :: "'w os \<Rightarrow> conf \<Rightarrow> bool \<Rightarrow> bool \<Rightarrow> string \<Rightarrow> string list \<Rightarrow> ('w, int) io" where
  "ctl_main sys C lst json cmd names =
     seqS (dir_init sys C)
     (bindS (liftE (get_daemons C (ctl_filter names))) (\<lambda>ds.
      if cmd \<notin> set fn_tbl then seqS (o_print sys (''Unknown command '' @ CHR 0x27 # cmd @ [CHR 0x27])) (retS (- 1))
      else bindS (ctl_loop sys C cmd ds ds [] 0) (\<lambda>(tbl, rc).
        if cmd = ''status'' then
          (if json then seqS (o_print sys (dumps_ind 2 0 (table_val tbl))) (retS 0)
           else seqS (forS (report lst tbl) (o_print sys)) (retS rc))
        else retS rc)))"

section \<open>ldmsd_mon.py\<close>

definition mon_status :: "'w os \<Rightarrow> conf \<Rightarrow> bool \<Rightarrow> ('w, unit) io" where
  "mon_status sys C json =
     bindS (getpid sys C (mon_proc C)) (\<lambda>pid.
       o_print sys
         (if json then ''{'' @ CHR 0x22 # ''mon'' @ CHR 0x22 # '': '' @ str_int (pid_int pid) @ ''}''
          else if alive pid then ''ldmsd_mon is running, pid: '' @ opt_pid pid
          else ''ldmsd_mon is NOT running''))"

definition mon_fn :: "'w os \<Rightarrow> conf \<Rightarrow> bool \<Rightarrow> string \<Rightarrow> ('w, unit) io" where
  "mon_fn sys C json cmd =
     (let P = mon_proc C in
      if cmd = ''start'' then bindS (the_pid sys C P None) (\<lambda>pid. whenS (\<not> alive pid) (mon_start sys C))
      else if cmd = ''stop'' then bindS (the_pid sys C P None) (\<lambda>pid. whenS (alive pid) (stop sys C P))
      else if cmd = ''status'' then mon_status sys C json
      else if cmd = ''cleanup'' then mon_cleanup sys C
      else o_print sys (''Unknown command: '' @ cmd))"

definition mon_main :: "'w os \<Rightarrow> conf \<Rightarrow> bool \<Rightarrow> string \<Rightarrow> ('w, int) io" where
  "mon_main sys C json cmd =
     seqS (dir_init sys C)
     (catchS (seqS (mon_fn sys C json cmd) (retS 0)) (\<lambda>e. seqS (o_print sys (exc_str e)) (retS 1)))"

section \<open>cluster.py\<close>

definition cmd_map :: "string \<Rightarrow> bool \<Rightarrow> bool \<Rightarrow> string dict" where
  "cmd_map src lst json =
     (let L = (if lst then '' -l'' else []); J = (if json then '' -j'' else []);
          ctl = (\<lambda>c. src @ ''/ldmsd_ctl.py '' @ c); mon = (\<lambda>c. src @ ''/ldmsd_mon.py '' @ c);
          both = (\<lambda>c. ctl c @ '' '' @ L @ ''; '' @ mon c @ '';'')
      in [(''ldmsd_status'', ctl ''status'' @ L @ J), (''ldmsd_start'', ctl ''start'' @ L @ J),
          (''ldmsd_stop'', ctl ''stop'' @ L @ J), (''ldmsd_cleanup'', ctl ''cleanup'' @ L @ J),
          (''mon_status'', mon ''status'' @ J), (''mon_start'', mon ''start'' @ J),
          (''mon_stop'', mon ''stop'' @ J), (''mon_cleanup'', mon ''cleanup'' @ J),
          (''all_start'', both ''start''), (''all_stop'', both ''stop''),
          (''all_status'', both ''status''), (''all_cleanup'', both ''cleanup'')])"

definition cluster_cmd :: "string \<Rightarrow> bool \<Rightarrow> bool \<Rightarrow> string \<Rightarrow> string option" where
  "cluster_cmd src lst json command = dget (cmd_map src lst json) (map (\<lambda>c. if c = CHR ''-'' then CHR ''_'' else c) command)"

definition host_cmd :: "conf \<Rightarrow> string \<Rightarrow> string \<Rightarrow> string" where
  "host_cmd C cmd h =
     (let quoted = CHR 0x27 # cmd @ [CHR 0x27] in
      if h = c_myhost C then ''bash -c '' @ quoted
      else ''ssh '' @ '' -p '' @ str_nat (c_ssh_port C) @ '' '' @ h @ '' '' @ quoted)"




text \<open>
  The threads. Each goes through its load in order; the threads take turns in any way. \<open>run h\<close> is what the command on the
  host \<open>h\<close> gives: its exit status and its two outputs.
\<close>

type_synonym proc_result = "int \<times> string \<times> string"

inductive thread_step ::
  "(string \<Rightarrow> proc_result) \<Rightarrow> string list list \<times> proc_result dict \<Rightarrow> string list list \<times> proc_result dict \<Rightarrow> bool"
  for run where
  host_done: "i < length ls \<Longrightarrow> ls ! i = h # hs \<Longrightarrow> thread_step run (ls, procs) (ls[i := hs], dset h (run h) procs)"

inductive_cases thread_stepE: "thread_step run s s'"







section \<open>The loads\<close>




section \<open>Groups by host\<close>





section \<open>Control reaches every daemon\<close>




lemma get_daemons_filter:
  "get_daemons C None = Inr ds \<Longrightarrow> get_daemons C (Some f) = Inr (filter (\<lambda>d. f (d_name d)) ds)"
  unfolding get_daemons_def Let_def by (auto simp: res_simps)

lemma host_daemons:
  assumes "topo_ok C"
  shows "\<exists>es. get_daemons (C\<lparr>c_myhost := h\<rparr>) fltr = Inr es \<and> (\<forall>d \<in> set es. d_host d = h) \<and>
    set (map (\<lambda>d. (d_level d, d_name d)) es) =
      {(l, n). l < 4 \<and> n \<in> set (DL C ! l) \<and> host_part n = Some h \<and> (case fltr of None \<Rightarrow> True | Some f \<Rightarrow> f n)}"
proof -
  let ?C = "C\<lparr>c_myhost := h\<rparr>"
  have dl: "DL ?C = DL C" by (simp add: DL_def SAMPLERS_def L1_AGGS_def L2_AGGS_def L3_AGG_def)
  have t: "topo_ok ?C" using assms by (simp add: topo_ok_def NDL_def SAMPLERS_def L1_AGGS_def L2_AGGS_def)
  from get_daemons_host [OF t] obtain es where es: "get_daemons ?C None = Inr es" "\<forall>d \<in> set es. d_host d = h"
    "map (\<lambda>d. (d_level d, d_name d)) es = concat (map (\<lambda>l. map (Pair l) (filter (\<lambda>n. host_part n = Some h) (DL C ! l))) [0..<4])"
    by (auto simp: dl)
  from arg_cong [OF es(3), of set] have se: "(\<lambda>d. (d_level d, d_name d)) ` set es = {(l, n). l < 4 \<and> n \<in> set (DL C ! l) \<and> host_part n = Some h}"
    by auto
  show ?thesis
  proof (cases fltr)
    case None
    with es(1,2) se show ?thesis by auto
  next
    case (Some f)
    have "(\<lambda>d. (d_level d, d_name d)) ` {d \<in> set es. f (d_name d)} = {x \<in> (\<lambda>d. (d_level d, d_name d)) ` set es. f (snd x)}" by auto
    with Some es(2) se get_daemons_filter [OF es(1), of f] show ?thesis by auto
  qed
qed






section \<open>The threads\<close>















section \<open>Status\<close>

lemma getpid_ok:
  assumes "p_host P = c_myhost C" "\<And>f w. \<exists>b w'. o_exists sys f w = Some (Inr b, w')" "getpid sys C P w = Some (r, w')"
  shows "\<exists>x. r = Inr x"
proof -
  from assms(2) [of "p_pid_file P" w] obtain b w1 where b: "o_exists sys (p_pid_file P) w = Some (Inr b, w1)" by blast
  have h: "host_check C P = retS ()" using assms(1) by (simp add: host_check_def)
  from assms(3) show ?thesis
    unfolding getpid_def h bindS_units bindS_apply(3) [where m = "o_exists sys (p_pid_file P)" and w = w, OF b]
    by (auto simp: catchS_def retS_def split: if_splits option.splits sum.splits)
qed

lemma status_loop:
  assumes "\<forall>d \<in> set r. d_host d = c_myhost C" "\<And>f w. \<exists>b w'. o_exists sys f w = Some (Inr b, w')"
    "ctl_loop sys C ''status'' ds r tbl rc w = Some (x, w')" "distinct (dkeys tbl)"
  shows "\<exists>t. x = Inr (t, rc) \<and> set (dkeys t) = set (dkeys tbl) \<union> d_name ` set r \<and> distinct (dkeys t)"
  using assms(1,3,4)
proof (induction r arbitrary: tbl w)
  case Nil
  then show ?case by (auto simp: retS_def)
next
  case (Cons d r)
  let ?P = "ldmsd_proc d"
  have ph: "p_host ?P = c_myhost C" using Cons.prems(1) by (simp add: ldmsd_proc_def)
  show ?case
  proof (cases "getpid sys C ?P w")
    case None
    with Cons.prems(2) show ?thesis by (simp add: ctl_fn_def Let_def bindS_def catchS_def)
  next
    case (Some q)
    obtain g w1 where q: "q = (g, w1)" by force
    from getpid_ok [OF ph assms(2) Some [unfolded q]] obtain pid where g: "g = Inr pid" by blast
    let ?t = "dset (d_name d) (pid_int pid) tbl"
    have "ctl_loop sys C ''status'' ds r ?t rc w1 = Some (x, w')"
      using Cons.prems(2) Some q g by (simp add: ctl_fn_def Let_def bindS_def catchS_def retS_def)
    moreover have "distinct (dkeys ?t)" using Cons.prems(3) by (rule dset_distinct)
    moreover have "set (dkeys ?t) = insert (d_name d) (set (dkeys tbl))" by (simp add: dset_keys)
    ultimately show ?thesis using Cons.IH [of ?t w1] Cons.prems(1) by auto
  qed
qed

lemma no_files_loop:
  "\<forall>d \<in> set r. d_host d = c_myhost C \<Longrightarrow> \<exists>t. ctl_loop (file_os ts) C ''status'' ds r tbl 0 [] = Some (Inr (t, 0), [])"
proof (induction r arbitrary: tbl)
  case (Cons d r)
  have "getpid (file_os ts) C (ldmsd_proc d) [] = Some (Inr None, [])"
    using Cons.prems by (simp add: getpid_def host_check_def ldmsd_proc_def bindS_def getS_def retS_def)
  with Cons show ?case by (simp add: ctl_fn_def Let_def bindS_def catchS_def retS_def)
qed (simp add: retS_def)

text \<open>
  A status request always succeeds and is read back. On a host, \<open>ldmsd_ctl.py status\<close> of the
  daemons of the host meets no exception (testing a path never raises one), its table has exactly
  the names of the selected daemons, and the JSON text it prints is read by \<open>Control.status\<close> as the same table.
\<close>

lemma status_read_back:
  assumes "topo_ok C" "\<And>f w. \<exists>b w'. o_exists sys f w = Some (Inr b, w')"
    "get_daemons C (ctl_filter names) = Inr ds" "ctl_loop sys C ''status'' ds ds [] 0 w = Some (r, w')"
  shows "\<exists>tbl. r = Inr (tbl, 0) \<and> set (dkeys tbl) = d_name ` set ds \<and>
    loads fl (dumps_ind 2 0 (table_val tbl)) = Inr (table_val tbl)"
proof -
  have "c_myhost C = c_myhost C" "C\<lparr>c_myhost := c_myhost C\<rparr> = C" by simp_all
  with host_daemons [OF assms(1), of "c_myhost C" "ctl_filter names"] assms(3) have "\<forall>d \<in> set ds. d_host d = c_myhost C" by auto
  from status_loop [OF this assms(2,4)] obtain t where t: "r = Inr (t, 0)" "set (dkeys t) = d_name ` set ds" "distinct (dkeys t)" by auto
  from loads_table [OF t(3), of fl 2] t show ?thesis unfolding table_val_def by blast
qed


lemma status_read_back_instance:
  "\<exists>ds tbl. get_daemons demo_conf (ctl_filter []) = Inr ds \<and> ds \<noteq> [] \<and>
     ctl_loop (file_os ''1'') demo_conf ''status'' ds ds [] 0 [] = Some (Inr (tbl, 0), []) \<and>
     set (dkeys tbl) = d_name ` set ds \<and> loads id (dumps_ind 2 0 (table_val tbl)) = Inr (table_val tbl)"
proof -
  have "demo_conf\<lparr>c_myhost := ''b''\<rparr> = demo_conf" by (simp add: demo_conf_def)
  with host_daemons [OF demo_topo, of "''b''" "ctl_filter []"] obtain ds where ds: "get_daemons demo_conf (ctl_filter []) = Inr ds"
    "\<forall>d \<in> set ds. d_host d = ''b''"
    "set (map (\<lambda>d. (d_level d, d_name d)) ds) = {(l, n). l < 4 \<and> n \<in> set (DL demo_conf ! l) \<and> host_part n = Some ''b'' \<and>
      (case ctl_filter [] of None \<Rightarrow> True | Some f \<Rightarrow> f n)}" by auto
  have "(2, ''b-40'') \<in> set (map (\<lambda>d. (d_level d, d_name d)) ds)"
    unfolding ds(3) by (simp add: demo_DL ctl_filter_def host_part_def host_and_port_def rsplit1_def split1_def)
  then have "ds \<noteq> []" by auto
  from no_files_loop [of ds demo_conf "''1''" ds "[]"] ds(2) demo_host obtain t where
    t: "ctl_loop (file_os ''1'') demo_conf ''status'' ds ds [] 0 [] = Some (Inr (t, 0), [])" by (simp only:) blast
  have e: "\<exists>b w'. o_exists (file_os ''1'') f w = Some (Inr b, w')" for f w by (simp add: getS_def)
  have "\<exists>tbl. Inr (t, 0) = (Inr (tbl, 0) :: pyerr + int dict \<times> int) \<and> set (dkeys tbl) = d_name ` set ds \<and>
      loads id (dumps_ind 2 0 (table_val tbl)) = Inr (table_val tbl)"
    by (rule status_read_back [OF demo_topo e ds(1) t])
  with \<open>ds \<noteq> []\<close> t ds(1) show ?thesis by auto
qed

end
