(* ===== verification/Tadad.thy ===== *)
theory Tadad
  imports TemplateSpec TadaTest TadaDb Json
begin

text \<open>
  The result server \<open>tadad\<close>: it collects the datagrams of every test and, when a test is finished,
  writes its verdicts into the database. With the client (theory \<open>TadaTest\<close>), the texts of the
  datagrams (theory \<open>Json\<close>) and the mapping of objects to rows (theory \<open>TadaDb\<close>) this gives the way
  of a verdict from the test to the database.
\<close>

section \<open>Collecting the messages\<close>

text \<open>The table \<open>results\<close>: the messages of each unfinished test. Ids are compared as values; lists and dicts are no keys.\<close>

type_synonym results = "(pval \<times> msg list) list"

definition messages_of :: "results \<Rightarrow> pval \<Rightarrow> msg list res" where
  "messages_of R k =
     (if \<not> hashable k then Inl (TypeError ''unhashable type'')
      else (case map_of R k of None \<Rightarrow> Inl (KeyError k) | Some b \<Rightarrow> Inr b))"

text \<open>One message: the new table and, when the test is finished, its id and all its messages.\<close>

definition collect :: "msg \<Rightarrow> results \<Rightarrow> (results \<times> (pval \<times> msg list) option) res" where
  "collect m R =
     (case dget m ''test-id'' of
        None \<Rightarrow> Inr (R, None)
      | Some k \<Rightarrow>
          if \<not> truthy k then Inr (R, None)
          else (let ty = dget_or m ''msg-type'' PNone in
            if ty = PStr ''test-start'' then
              (if hashable k then Inr (AList.update k [m] R, None) else Inl (TypeError ''unhashable type''))
            else if ty = PStr ''assert-status'' then
              bindE (messages_of R k) (\<lambda>b. Inr (AList.update k (b @ [m]) R, None))
            else if ty = PStr ''test-finish'' then
              bindE (messages_of R k) (\<lambda>b. Inr (AList.update k (b @ [m]) R, Some (k, b @ [m])))
            else Inr (R, None)))"

section \<open>Writing a test\<close>














section \<open>The server\<close>



section \<open>Tests do not mix\<close>


definition has_type :: "string \<Rightarrow> msg \<Rightarrow> bool" where
  "has_type t m \<longleftrightarrow> dget m ''msg-type'' = Some (PStr t)"

definition of_test :: "string \<Rightarrow> msg \<Rightarrow> bool" where
  "of_test i m \<longleftrightarrow> dget m ''test-id'' = Some (PStr i)"















section \<open>Verdicts in the table\<close>













section \<open>One report\<close>












section \<open>A whole test\<close>



















section \<open>Over the wire\<close>








section \<open>What the client sends\<close>














section \<open>Properties\<close>
















text \<open>
  A report of a test that the server does not know (its start was lost, or the server was restarted) raises, which ends the server.
\<close>

lemma stray_report_ends_server:
  "of_test i m \<Longrightarrow> i \<noteq> [] \<Longrightarrow> has_type ''assert-status'' m \<Longrightarrow> map_of R (PStr i) = None \<Longrightarrow> collect m R = Inl (KeyError (PStr i))"
  by (simp add: collect_def of_test_def has_type_def dget_or_def messages_of_def)

end
