(* ===== verification/DecompOut.thy ===== *)
theory DecompOut
  imports Json
begin

text \<open>
  \<open>python/decomp_out.py\<close>: reading the files of the CSV and Kafka stores back into a schema and rows of
  values, printed as JSON, one line each. The store \<open>sos\<close> is read by the SOS library only and is left out.
\<close>

section \<open>Values\<close>

text \<open>\<open>int(s)\<close> with its underscores between digits.\<close>

definition int_of :: "string \<Rightarrow> int res" where
  "int_of s =
     (let t = strip s;
          neg = startswith ''-'' t;
          u = (if neg \<or> startswith ''+'' t then tl t else t);
          ps = split_on CHR ''_'' u
      in if list_all (\<lambda>p. p \<noteq> [] \<and> list_all is_digit p) ps
         then Inr ((if neg then - 1 else 1) * int (of_digits 10 (concat ps)))
         else Inl (ValueError (''invalid literal for int() with base 10: '' @ s)))"

text \<open>\<open>float(s)\<close> is a parameter: the text of the number, or \<open>None\<close> where it raises.\<close>

definition csv_val :: "(string \<Rightarrow> string option) \<Rightarrow> string \<Rightarrow> pval" where
  "csv_val fl v = (case int_of v of Inr i \<Rightarrow> PInt i | Inl _ \<Rightarrow> (case fl v of Some r \<Rightarrow> PFloat r | None \<Rightarrow> PStr v))"

definition is_num :: "string \<Rightarrow> bool" where
  "is_num v = (case int_of v of Inr _ \<Rightarrow> True | Inl _ \<Rightarrow> False)"

section \<open>Columns of a CSV file\<close>

text \<open>What is done with a field: \<open>csv_col_ts_usec\<close>, \<open>csv_atomic\<close>, \<open>csv_array_first\<close>, \<open>csv_array_append\<close>.\<close>

datatype act = Ts_usec | Atomic | Array_first | Array_append

definition do_act :: "(string \<Rightarrow> string option) \<Rightarrow> act \<Rightarrow> pval list \<Rightarrow> string \<Rightarrow> pval list res" where
  "do_act fl a row v =
     (case a of
        Ts_usec \<Rightarrow> Inr row
      | Atomic \<Rightarrow> Inr (row @ [csv_val fl v])
      | Array_first \<Rightarrow> Inr (row @ [PList [csv_val fl v]])
      | Array_append \<Rightarrow>
          (if row = [] then Inl IndexError
           else case last row of
               PList xs \<Rightarrow> Inr (butlast row @ [PList (xs @ [csv_val fl v])])
             | _ \<Rightarrow> Inl (AttributeError ''append'')))"

text \<open>The common prefix of two texts; a text without it (\<open>replace\<close> removes the prefix at the start).\<close>

fun common :: "string \<Rightarrow> string \<Rightarrow> string" where
  "common (a # s) (b # t) = (if a = b then a # common s t else [])"
| "common _ _ = []"

definition prefix :: "string \<Rightarrow> string \<Rightarrow> string \<times> string \<times> string" where
  "prefix s t = (let p = common s t in (p, drop (length p) s, drop (length p) t))"

definition col_step :: "string \<Rightarrow> string \<Rightarrow> string \<Rightarrow> string list \<times> act list \<Rightarrow> (string list \<times> act list) res" where
  "col_step prev c nxt = (\<lambda>(cols, acts).
     if c = ''Time'' then Inr (cols @ [''Time''], acts @ [Atomic])
     else if endswith ''_usec'' c then Inr (cols, acts @ [Ts_usec])
     else (case prefix c nxt of (p, a, b) \<Rightarrow>
       if p \<noteq> [] \<and> a = ''0'' then Inr (cols @ [p], acts @ [Array_first])
       else (case prefix prev c of (p, a, b) \<Rightarrow>
         if cols = [] then Inl IndexError
         else if p = last cols \<and> is_num b then Inr (cols, acts @ [Array_append])
         else Inr (cols @ [c], acts @ [Atomic]))))"

text \<open>Every column with its successor; that of the last one is the empty text.\<close>

definition next_head :: "string list \<Rightarrow> string" where
  "next_head h = (case h of [] \<Rightarrow> [] | d # _ \<Rightarrow> d)"

fun col_loop :: "string \<Rightarrow> string list \<Rightarrow> string list \<times> act list \<Rightarrow> (string list \<times> act list) res" where
  "col_loop prev [] s = Inr s"
| "col_loop prev (c # h) s = bindE (col_step prev c (next_head h) s) (col_loop c h)"

section \<open>Reading the files\<close>

text \<open>
  A file is the list of its lines. Lines are printed until the first exception; that is the second
  component of the result.
\<close>

definition csv_row :: "(string \<Rightarrow> string option) \<Rightarrow> act list \<Rightarrow> string \<Rightarrow> pval list res" where
  "csv_row fl acts l = foldE (\<lambda>row (v, a). do_act fl a row v) [] (zip (split_on CHR '','' (strip l)) acts)"

definition schema_line :: "string list \<Rightarrow> string" where
  "schema_line cols = dumps (PDict [(''cols'', PList (map PStr cols)), (''indices'', PList [])])"

fun print_rows :: "(string \<Rightarrow> pval list res) \<Rightarrow> string list \<Rightarrow> string list \<times> unit res" where
  "print_rows f [] = ([], Inr ())"
| "print_rows f (l # ls) =
     (case f l of
        Inl e \<Rightarrow> ([], Inl e)
      | Inr row \<Rightarrow> (case print_rows f ls of (out, r) \<Rightarrow> (dumps (PList row) # out, r)))"

definition csv_header :: "string list \<Rightarrow> string list" where
  "csv_header ls = split_on CHR '','' (drop 1 (strip (case ls of [] \<Rightarrow> [] | l # _ \<Rightarrow> l)))"

definition csv_proc :: "(string \<Rightarrow> string option) \<Rightarrow> string list \<Rightarrow> string list \<times> unit res" where
  "csv_proc fl ls =
     (case col_loop [] (csv_header ls) ([], []) of
        Inl e \<Rightarrow> ([], Inl e)
      | Inr (cols, acts) \<Rightarrow> (case print_rows (csv_row fl acts) (drop 1 ls) of (out, r) \<Rightarrow> (schema_line cols # out, r)))"

text \<open>\<open>KEY.findall\<close>: the texts in quotes that a colon follows, from the left.\<close>

function key_findall :: "string \<Rightarrow> string list" where
  "key_findall [] = []"
| "key_findall (c # s) =
     (let k = takeWhile (\<lambda>x. x \<noteq> CHR 0x22) s; t = dropWhile (\<lambda>x. x \<noteq> CHR 0x22) s in
      if c = CHR 0x22 \<and> k \<noteq> [] \<and> take 2 t = [CHR 0x22, CHR '':''] then k # key_findall (drop 2 t) else key_findall s)"
  by pat_completeness auto

termination
proof (relation "measure length", goal_cases)
  case (2 c s k t)
  then show ?case using length_dropWhile_le [of "\<lambda>x. x \<noteq> CHR 0x22" s] by auto
qed simp_all

definition kafka_row :: "(string \<Rightarrow> string) \<Rightarrow> string list \<Rightarrow> string \<Rightarrow> pval list res" where
  "kafka_row fl keys l =
     bindE (loads fl l) (\<lambda>obj. case obj of
        PDict d \<Rightarrow> (if set (dkeys d) = set keys then mapE (dindex d) keys else Inl AssertionError)
      | _ \<Rightarrow> Inl (AttributeError ''keys''))"

definition kafka_proc :: "(string \<Rightarrow> string) \<Rightarrow> string list \<Rightarrow> string list \<times> unit res" where
  "kafka_proc fl ls =
     (case ls of
        [] \<Rightarrow> ([], Inl IndexError)
      | l # _ \<Rightarrow> (let keys = key_findall l in
          case print_rows (kafka_row fl keys) ls of (out, r) \<Rightarrow> (schema_line keys # out, r)))"

text \<open>The table of the stores; the reader of \<open>sos\<close> is a parameter, and so are the lines of the file.\<close>

definition decomp_main ::
  "(string \<Rightarrow> string option) \<Rightarrow> (string \<Rightarrow> string) \<Rightarrow> (string list \<Rightarrow> string list \<times> unit res) \<Rightarrow> string \<Rightarrow> string list \<Rightarrow>
    string list \<times> unit res" where
  "decomp_main fl jfl sos_proc store ls =
     (case dget [(''sos'', sos_proc), (''csv'', csv_proc fl), (''kafka'', kafka_proc jfl)] store of
        None \<Rightarrow> ([''Unknown store: '' @ store], Inl (OtherError ''SystemExit'' ''-1''))
      | Some p \<Rightarrow> p ls)"

section \<open>What can be read back\<close>

text \<open>
  The columns of a store: the time, a \<open>_usec\<close> column that is dropped, a scalar, an array of which every
  element has a column of its own. \<open>readable\<close> says when the heads of the columns do not mislead
  the reader: arrays have 2 to 11 elements, the head after an array does not begin with the array's name, a scalar is
  not the name before it and a number, and it is not a name that ends in zero and shares the
  rest with the next head.
\<close>

datatype column = Time | Usec string | Scalar string | Array string nat

fun headers :: "column \<Rightarrow> string list" where
  "headers Time = [''Time'']"
| "headers (Usec n) = [n @ ''_usec'']"
| "headers (Scalar n) = [n]"
| "headers (Array n k) = map (\<lambda>i. n @ str_nat i) [0..<k]"

fun shown :: "column \<Rightarrow> string list" where
  "shown Time = [''Time'']"
| "shown (Usec n) = []"
| "shown (Scalar n) = [n]"
| "shown (Array n k) = [n]"

fun actions :: "column \<Rightarrow> act list" where
  "actions Time = [Atomic]"
| "actions (Usec n) = [Ts_usec]"
| "actions (Scalar n) = [Atomic]"
| "actions (Array n k) = Array_first # replicate (k - 1) Array_append"

fun readable :: "string option \<Rightarrow> column list \<Rightarrow> bool" where
  "readable q [] = True"
| "readable q (Time # cs) = readable (Some ''Time'') cs"
| "readable q (Usec n # cs) = readable q cs"
| "readable q (Scalar n # cs) =
     (n \<noteq> ''Time'' \<and> \<not> endswith ''_usec'' n \<and>
      (case q of None \<Rightarrow> False | Some m \<Rightarrow> \<not> (startswith m n \<and> is_num (drop (length m) n))) \<and>
      (let nxt = next_head (concat (map headers cs)) in
        \<not> (endswith ''0'' n \<and> butlast n \<noteq> [] \<and> startswith (butlast n) nxt \<and> \<not> startswith n nxt)) \<and>
      readable (Some n) cs)"
| "readable q (Array n k # cs) =
     (n \<noteq> [] \<and> 2 \<le> k \<and> k \<le> 11 \<and> \<not> startswith n (next_head (concat (map headers cs))) \<and> readable (Some n) cs)"

lemma common_app: "common (x @ s) (x @ t) = x @ common s t"
  by (induction x) simp_all

lemma common_is_prefix: "\<exists>u v. s = common s t @ u \<and> t = common s t @ v"
  by (induction s t rule: common.induct) auto

lemma common_start: "length n \<le> length (common (n @ s) t) \<Longrightarrow> startswith n t"
proof (induction n arbitrary: t)
  case (Cons a n)
  then show ?case by (cases t) (auto simp: startswith_def split: if_splits)
qed (simp add: startswith_def)

lemma small_index: "i < 10 \<Longrightarrow> str_nat i = [digit_char i]"
  by (simp add: str_nat_def digits_of_small)

lemma digit_texts: "digit_char 0 = CHR ''0''" "digit_char (Suc 0) = CHR ''1''" "digit_char 9 = CHR ''9''"
  by code_simp+

lemma index_ten: "str_nat 10 = ''10''"
  by (simp add: str_nat_def digits_of.simps digit_texts)

lemma index_digits: "list_all is_digit (str_nat i)" "str_nat i \<noteq> []"
  by (simp_all add: str_nat_def all_digits10 digits_of_ne)

lemma index_no_word: "n @ str_nat i \<noteq> ''Time''" "\<not> endswith ''_usec'' (n @ str_nat i)"
proof -
  have l: "is_digit (last (n @ str_nat i))" using index_digits [of i] by (simp add: list_all_iff)
  then show "n @ str_nat i \<noteq> ''Time''" by (auto simp: is_digit_def)
  have "\<not> is_digit (last (x @ ''_usec''))" for x by (simp add: is_digit_def)
  with l show "\<not> endswith ''_usec'' (n @ str_nat i)" unfolding endswith_iff by metis
qed

lemma is_num_index: "is_num (str_nat i)"
proof -
  have d: "\<And>c. c \<in> set (str_nat i) \<Longrightarrow> is_digit c" using index_digits(1) by (simp add: list_all_iff)
  have "strip (str_nat i) = str_nat i"
    by (rule strip_no_space) (use d digit_no_space in \<open>auto simp: list_all_iff\<close>)
  moreover have "\<not> startswith ''-'' (str_nat i)" "\<not> startswith ''+'' (str_nat i)"
    using d [of "hd (str_nat i)"] index_digits(2) by (auto simp: startswith_one is_digit_def)
  moreover have "split_on CHR ''_'' (str_nat i) = [str_nat i]"
    by (rule split_on_no_sep) (use d [of "CHR ''_''"] in \<open>auto simp: is_digit_def\<close>)
  ultimately show ?thesis using index_digits [of i] by (simp add: is_num_def int_of_def)
qed

lemma first_element:
  assumes "n \<noteq> []" "1 < k"
  shows "prefix (n @ str_nat 0) (n @ str_nat 1) = (n, ''0'', ''1'')"
  by (simp add: prefix_def common_app small_index digit_texts)

lemma later_element:
  assumes "1 \<le> i" "i \<le> 10" "nxt = n @ str_nat (Suc i) \<and> i < 10 \<or> \<not> startswith n nxt"
  shows "case prefix (n @ str_nat i) nxt of (p, a, b) \<Rightarrow> \<not> (p \<noteq> [] \<and> a = ''0'')"
    "prefix (n @ str_nat (i - 1)) (n @ str_nat i) = (n, str_nat (i - 1), str_nat i)"
proof -
  show "prefix (n @ str_nat (i - 1)) (n @ str_nat i) = (n, str_nat (i - 1), str_nat i)"
  proof (cases "i = 10")
    case True
    then show ?thesis by (simp add: prefix_def common_app small_index index_ten digit_texts)
  next
    case False
    then have "digit_char (i - 1) \<noteq> digit_char i" using assms(1,2) by (simp add: digit_char_inj)
    with False assms(1,2) show ?thesis by (simp add: prefix_def common_app small_index)
  qed
  show "case prefix (n @ str_nat i) nxt of (p, a, b) \<Rightarrow> \<not> (p \<noteq> [] \<and> a = ''0'')"
  proof (cases "startswith n nxt")
    case True
    with assms(3) have n: "nxt = n @ str_nat (Suc i)" "i < 10" by auto
    have "digit_char i = CHR ''0'' \<longleftrightarrow> i = 0" using digit_char_inj [of i 0] n(2) unfolding digit_texts by simp
    with assms(1) have "digit_char i \<noteq> CHR ''0''" by simp
    moreover have "common (str_nat i) (str_nat (Suc i)) = []"
    proof (cases "i = 9")
      case True
      then show ?thesis by (simp add: small_index index_ten digit_texts)
    next
      case False
      then show ?thesis using n(2) by (simp add: small_index digit_char_inj)
    qed
    ultimately show ?thesis using n by (simp add: prefix_def common_app small_index)
  next
    case False
    then have "length (common (n @ str_nat i) nxt) < length n" using common_start [of n "str_nat i" nxt] by force
    moreover have "0 < length (str_nat i)" using index_digits(2) by simp
    ultimately have "2 \<le> length (drop (length (common (n @ str_nat i) nxt)) (n @ str_nat i))" by (simp only: length_drop length_append)
    then have "drop (length (common (n @ str_nat i) nxt)) (n @ str_nat i) \<noteq> ''0''" by (auto simp del: drop_append length_drop)
    then show ?thesis by (simp add: prefix_def Let_def del: drop_append)
  qed
qed

lemma element_step:
  assumes "1 \<le> i" "i \<le> 10" "nxt = n @ str_nat (Suc i) \<and> i < 10 \<or> \<not> startswith n nxt"
  shows "col_step (n @ str_nat (i - 1)) (n @ str_nat i) nxt (cols @ [n], acts) = Inr (cols @ [n], acts @ [Array_append])"
  using later_element [OF assms] index_no_word [of n i] is_num_index [of i]
  by (auto simp: col_step_def split: prod.splits)

lemma array_tail:
  assumes "1 \<le> i" "i \<le> k" "k \<le> 11" "\<not> startswith n (next_head h)"
  shows "col_loop (n @ str_nat (i - 1)) (map (\<lambda>j. n @ str_nat j) [i..<k] @ h) (cols @ [n], acts) =
    col_loop (n @ str_nat (k - 1)) h (cols @ [n], acts @ replicate (k - i) Array_append)"
  using assms(1,2)
proof (induction "k - i" arbitrary: i acts)
  case 0
  then show ?case by simp
next
  case (Suc d)
  then have i: "i < k" by simp
  have nxt: "next_head (map (\<lambda>j. n @ str_nat j) [Suc i..<k] @ h) = n @ str_nat (Suc i) \<and> i < 10 \<or>
      \<not> startswith n (next_head (map (\<lambda>j. n @ str_nat j) [Suc i..<k] @ h))"
  proof (cases "Suc i < k")
    case True
    with assms(3) show ?thesis by (simp add: upt_conv_Cons next_head_def)
  next
    case False
    with assms(4) show ?thesis by simp
  qed
  have "i \<le> 10" using i assms(3) by simp
  from element_step [OF Suc.prems(1) this nxt] have "col_loop (n @ str_nat (i - 1)) (map (\<lambda>j. n @ str_nat j) [i..<k] @ h) (cols @ [n], acts) =
      col_loop (n @ str_nat i) (map (\<lambda>j. n @ str_nat j) [Suc i..<k] @ h) (cols @ [n], acts @ [Array_append])"
    using i by (simp add: upt_conv_Cons)
  also have "\<dots> = col_loop (n @ str_nat (k - 1)) h (cols @ [n], (acts @ [Array_append]) @ replicate (k - Suc i) Array_append)"
    using Suc(1) [of "Suc i" "acts @ [Array_append]"] Suc(2) i by simp
  finally show ?case using i by (simp flip: replicate_Suc add: Suc_diff_Suc)
qed

lemma usec_no_time: "n @ ''_usec'' \<noteq> ''Time''"
proof
  assume "n @ ''_usec'' = ''Time''"
  then have "last (n @ ''_usec'') = last ''Time''" by (rule arg_cong)
  then show False by simp
qed

lemma scalar_no_array:
  assumes "\<not> (endswith ''0'' n \<and> butlast n \<noteq> [] \<and> startswith (butlast n) nxt \<and> \<not> startswith n nxt)" "prefix n nxt = (p, a, b)"
  shows "\<not> (p \<noteq> [] \<and> a = ''0'')"
proof
  assume p: "p \<noteq> [] \<and> a = ''0''"
  obtain u v where u: "n = common n nxt @ u" "nxt = common n nxt @ v" using common_is_prefix by blast
  have c: "common n nxt = p" "a = drop (length p) n" "b = drop (length p) nxt" using assms(2) by (auto simp: prefix_def Let_def)
  then have n: "n = p @ ''0''" using u p by auto
  moreover have "startswith p nxt" using u(2) c(1) by (metis startswith_append)
  moreover have "\<not> startswith n nxt"
  proof
    assume "startswith n nxt"
    then have "nxt = n @ drop (length n) nxt" unfolding startswith_def by (metis append_take_drop_id)
    then have "common (n @ []) nxt = n @ common [] (drop (length n) nxt)" by (metis common_app)
    then show False using c(1) n by simp
  qed
  ultimately show False using assms(1) p by (auto simp: endswith_iff)
qed

lemma columns_found:
  "readable q cs \<Longrightarrow> (case q of None \<Rightarrow> cols = [] | Some m \<Rightarrow> cols \<noteq> [] \<and> last cols = m) \<Longrightarrow>
    col_loop prev (concat (map headers cs)) (cols, acts) = Inr (cols @ concat (map shown cs), acts @ concat (map actions cs))"
proof (induction q cs arbitrary: prev cols acts rule: readable.induct)
  case (1 q)
  then show ?case by simp
next
  case (2 q cs)
  have "readable (Some ''Time'') cs" using 2(2) by simp
  from 2(1) [OF this, of "cols @ [''Time'']"] show ?case by (simp add: col_step_def)
next
  case (3 q n cs)
  have "readable q cs" using 3(2) by simp
  from 3(1) [OF this 3(3)] show ?case by (simp add: col_step_def usec_no_time endswith_iff)
next
  case (4 q n cs)
  let ?nxt = "next_head (concat (map headers cs))"
  obtain m where q: "q = Some m" "\<not> (startswith m n \<and> is_num (drop (length m) n))" using 4(2) by (auto split: option.splits)
  have c: "cols \<noteq> []" "last cols = m" using 4(3) q by auto
  obtain p a b where p: "prefix n ?nxt = (p, a, b)" by (metis prod_cases3)
  have "\<not> (p \<noteq> [] \<and> a = ''0'')" by (rule scalar_no_array [OF _ p]) (use 4(2) in \<open>simp add: Let_def\<close>)
  moreover obtain p' a' b' where p': "prefix prev n = (p', a', b')" by (metis prod_cases3)
  moreover have "\<not> (p' = last cols \<and> is_num b')"
  proof
    assume l: "p' = last cols \<and> is_num b'"
    obtain u v where "n = common prev n @ v" using common_is_prefix by blast
    then have "startswith p' n \<and> b' = drop (length p') n" using p' unfolding prefix_def Let_def by (metis prod.inject startswith_append)
    with l c(2) q(2) show False by auto
  qed
  ultimately have "col_step prev n ?nxt (cols, acts) = Inr (cols @ [n], acts @ [Atomic])"
    using 4(2) c p by (simp add: col_step_def)
  moreover have "readable (Some n) cs" using 4(2) by (simp add: Let_def)
  from 4(1) [OF this, of "cols @ [n]"] have "col_loop n (concat (map headers cs)) (cols @ [n], acts @ [Atomic]) =
      Inr ((cols @ [n]) @ concat (map shown cs), (acts @ [Atomic]) @ concat (map actions cs))" by simp
  ultimately show ?case by simp
next
  case (5 q n k cs)
  let ?h = "concat (map headers cs)"
  have n: "n \<noteq> []" "2 \<le> k" "k \<le> 11" "\<not> startswith n (next_head ?h)" "readable (Some n) cs" using 5(2) by auto
  have k: "[0..<k] = 0 # 1 # [2..<k]" using n(2) by (simp add: upt_conv_Cons numeral_2_eq_2)
  have "col_step prev (n @ str_nat 0) (n @ str_nat 1) (cols, acts) = Inr (cols @ [n], acts @ [Array_first])"
    using first_element [OF n(1), of k] n(1,2) index_no_word [of n 0] by (simp add: col_step_def)
  then have "col_loop prev (concat (map headers (Array n k # cs))) (cols, acts) =
      col_loop (n @ str_nat (1 - 1)) (map (\<lambda>j. n @ str_nat j) [1..<k] @ ?h) (cols @ [n], acts @ [Array_first])"
    using n(2) by (simp add: k next_head_def upt_conv_Cons numeral_2_eq_2)
  also have "\<dots> = col_loop (n @ str_nat (k - 1)) ?h (cols @ [n], (acts @ [Array_first]) @ replicate (k - 1) Array_append)"
    using n by (intro array_tail) auto
  also have "\<dots> = Inr ((cols @ [n]) @ concat (map shown cs), ((acts @ [Array_first]) @ replicate (k - 1) Array_append) @ concat (map actions cs))"
    using 5(1) [OF n(5)] by simp
  finally show ?case by simp
qed


text \<open>The texts of the fields; a row has one value for every column, a list for an array.\<close>

definition cell_text :: "pval \<Rightarrow> string" where
  "cell_text v = (case v of PInt i \<Rightarrow> str_int i | PFloat r \<Rightarrow> r | PStr s \<Rightarrow> s | _ \<Rightarrow> [])"

definition clean :: "string \<Rightarrow> bool" where
  "clean s = list_all (\<lambda>c. c \<noteq> CHR '','' \<and> \<not> is_space c) s"

definition cell_ok :: "(string \<Rightarrow> string option) \<Rightarrow> pval \<Rightarrow> bool" where
  "cell_ok fl v \<longleftrightarrow> clean (cell_text v) \<and> csv_val fl (cell_text v) = v"

fun field_texts :: "pval \<Rightarrow> string list" where
  "field_texts (PList vs) = map cell_text vs"
| "field_texts v = [cell_text v]"

definition field_ok :: "(string \<Rightarrow> string option) \<Rightarrow> column \<Rightarrow> pval \<Rightarrow> bool" where
  "field_ok fl c v = (case c of
     Array n k \<Rightarrow> (case v of PList vs \<Rightarrow> length vs = k \<and> list_all (cell_ok fl) vs | _ \<Rightarrow> False)
   | _ \<Rightarrow> cell_ok fl v)"

definition kept :: "column \<Rightarrow> pval \<Rightarrow> pval list" where
  "kept c v = (case c of Usec n \<Rightarrow> [] | _ \<Rightarrow> [v])"

definition csv_line :: "string list \<Rightarrow> string" where
  "csv_line ts = join '','' ts @ nl"

definition csv_file :: "column list \<Rightarrow> pval list list \<Rightarrow> string list" where
  "csv_file cs rows = (CHR ''#'' # csv_line (concat (map headers cs))) # map (\<lambda>r. csv_line (concat (map field_texts r))) rows"

lemma int_of_digits: "list_all is_digit s \<Longrightarrow> s \<noteq> [] \<Longrightarrow> split_on CHR ''_'' s = [s]"
  by (rule split_on_no_sep) (auto simp: list_all_iff is_digit_def)

lemma parse_int_int_of: "parse_int s = Inr i \<Longrightarrow> int_of s = Inr i"
  using int_of_digits unfolding parse_int_def int_of_def Let_def by (auto split: if_splits)

lemma csv_val_int: "csv_val fl (str_int i) = PInt i"
  by (simp add: csv_val_def parse_int_int_of [OF parse_int_str_int])

lemma digits_clean: "list_all is_digit s \<Longrightarrow> clean s"
  by (auto simp: clean_def list_all_iff digit_no_space) (auto simp: is_digit_def)

lemma int_cell: "cell_ok fl (PInt i)"
proof -
  have "clean (str_nat n)" for n by (simp add: str_nat_def all_digits10 digits_clean)
  then have "clean (str_int i)" by (simp add: clean_def str_int_def is_space_def)
  then show ?thesis by (simp add: cell_ok_def cell_text_def csv_val_int)
qed

lemma strip_line:
  assumes "list_all (\<lambda>c. \<not> is_space c) s"
  shows "strip (s @ nl) = s"
proof (cases "s = []")
  case True
  then show ?thesis by (simp add: strip_by_def is_space_def)
next
  case False
  have sp: "is_space (CHR 0x0A)" by (simp add: is_space_def)
  have "dropWhile is_space (s @ nl) = s @ nl" using False assms by (cases s) auto
  then have "strip (s @ nl) = rev (dropWhile is_space (rev s))" using sp by (simp add: strip_by_def)
  moreover have "dropWhile is_space (rev s) = rev s" using False assms by (simp add: dropWhile_eq_self_iff list_all_iff hd_rev)
  ultimately show ?thesis by simp
qed

lemma in_join: "c \<in> set (join sep ts) \<Longrightarrow> c \<in> set sep \<or> (\<exists>t \<in> set ts. c \<in> set t)"
  by (auto simp: join_def split: list.splits)

lemma clean_join:
  assumes "list_all clean ts"
  shows "list_all (\<lambda>c. \<not> is_space c) (join '','' ts)"
proof -
  have "\<not> is_space CHR '',''" by (simp add: is_space_def)
  moreover have "\<not> is_space c" if "t \<in> set ts" "c \<in> set t" for t c using assms that by (simp add: clean_def list_all_iff)
  ultimately show ?thesis unfolding list_all_iff by (auto dest!: in_join)
qed

lemma fields_of_line:
  assumes "list_all clean ts" "ts \<noteq> []"
  shows "split_on CHR '','' (strip (csv_line ts)) = ts"
  unfolding csv_line_def strip_line [OF clean_join [OF assms(1)]]
  by (rule split_on_join) (use assms in \<open>auto simp: clean_def list_all_iff\<close>)

lemma array_row:
  "foldE (\<lambda>row (v, a). do_act fl a row v) (row @ [PList xs]) (zip (map cell_text vs) (replicate (length vs) Array_append)) =
    Inr (row @ [PList (xs @ map (\<lambda>v. csv_val fl (cell_text v)) vs)])"
proof (induction vs arbitrary: xs)
  case (Cons v vs)
  have "do_act fl Array_append (row @ [PList xs]) (cell_text v) = Inr (row @ [PList (xs @ [csv_val fl (cell_text v)])])"
    by (simp add: do_act_def)
  with Cons show ?case by simp
qed simp

lemma scalar_texts: "cell_ok fl v \<Longrightarrow> field_texts v = [cell_text v]"
  by (cases v) (auto simp: cell_ok_def csv_val_def split: sum.splits option.splits)

lemma cells_read: "list_all (cell_ok fl) vs \<Longrightarrow> map (\<lambda>v. csv_val fl (cell_text v)) vs = vs"
  by (induction vs) (auto simp: cell_ok_def)

definition sized :: "column \<Rightarrow> bool" where
  "sized c = (case c of Array n k \<Rightarrow> k \<noteq> 0 | _ \<Rightarrow> True)"

lemma field_read:
  assumes "field_ok fl c v" "sized c"
  shows "foldE (\<lambda>row (v, a). do_act fl a row v) row (zip (field_texts v) (actions c)) = Inr (row @ kept c v)"
    "length (field_texts v) = length (actions c)" "list_all clean (field_texts v)"
proof -
  have "foldE (\<lambda>row (v, a). do_act fl a row v) row (zip (field_texts v) (actions c)) = Inr (row @ kept c v) \<and>
    length (field_texts v) = length (actions c) \<and> list_all clean (field_texts v)"
  proof (cases c)
    case (Array n k)
    with assms obtain w vs where v: "v = PList (w # vs)" "Suc (length vs) = k" "list_all (cell_ok fl) (w # vs)"
      by (cases v; cases "case v of PList vs \<Rightarrow> vs | _ \<Rightarrow> []") (auto simp: field_ok_def sized_def)
    have k: "k = Suc (length vs)" using v(2) by simp
    have first: "do_act fl Array_first row (cell_text w) = Inr (row @ [PList [w]])" using v(3) by (simp add: do_act_def cell_ok_def)
    have "foldE (\<lambda>row (v, a). do_act fl a row v) row (zip (field_texts v) (actions c)) =
        foldE (\<lambda>row (v, a). do_act fl a row v) (row @ [PList [w]]) (zip (map cell_text vs) (replicate (length vs) Array_append))"
      by (simp add: Array v(1) k first)
    also have "\<dots> = Inr (row @ [v])" using cells_read [of fl vs] v(3) by (simp add: array_row v(1))
    finally show ?thesis using v(3) k by (auto simp: Array v(1) kept_def list_all_iff cell_ok_def)
  qed (use assms in \<open>auto simp: field_ok_def scalar_texts do_act_def cell_ok_def kept_def\<close>)
  then show "foldE (\<lambda>row (v, a). do_act fl a row v) row (zip (field_texts v) (actions c)) = Inr (row @ kept c v)"
    "length (field_texts v) = length (actions c)" "list_all clean (field_texts v)" by auto
qed

lemma fields_read:
  "list_all2 (field_ok fl) cs r \<Longrightarrow> list_all sized cs \<Longrightarrow>
    foldE (\<lambda>row (v, a). do_act fl a row v) row (zip (concat (map field_texts r)) (concat (map actions cs))) =
      Inr (row @ concat (map2 kept cs r)) \<and> list_all clean (concat (map field_texts r))"
proof (induction cs r arbitrary: row rule: list_all2_induct)
  case (Cons c cs v r)
  from Cons have f: "field_ok fl c v" "sized c" "list_all sized cs" by auto
  show ?case using field_read [OF f(1,2)] Cons.IH [OF f(3)] by (simp add: zip_append foldE_append)
qed simp

lemma readable_sized: "readable q cs \<Longrightarrow> list_all sized cs"
  by (induction q cs rule: readable.induct) (auto simp: sized_def Let_def)

lemma row_read:
  assumes "list_all2 (field_ok fl) cs r" "readable q cs" "cs \<noteq> []"
  shows "csv_row fl (concat (map actions cs)) (csv_line (concat (map field_texts r))) = Inr (concat (map2 kept cs r))"
proof -
  obtain c cs' v r' where cr: "cs = c # cs'" "r = v # r'" using assms(1,3) by (cases cs; cases r) auto
  have "field_ok fl c v" "sized c" using assms(1) readable_sized [OF assms(2)] by (auto simp: cr)
  then have "field_texts v \<noteq> []" using field_read(2) [of fl c v] by (cases c) (auto simp: sized_def)
  then have ne: "concat (map field_texts r) \<noteq> []" by (simp add: cr)
  note f = fields_read [OF assms(1) readable_sized [OF assms(2)], of "[]"]
  show ?thesis using f fields_of_line [OF _ ne] by (simp add: csv_row_def)
qed

lemma rows_printed: "(\<And>l. l \<in> set ls \<Longrightarrow> f (g l) = Inr (h l)) \<Longrightarrow> print_rows f (map g ls) = (map (\<lambda>l. dumps (PList (h l))) ls, Inr ())"
  by (induction ls) simp_all

section \<open>Properties\<close>

text \<open>
  C19: CSV round trip. A CSV file whose heads are readable and whose fields are clean is read back exactly: the
  first line printed names the columns, an array under the name its elements share, and every
  further line is the row of values, arrays gathered again, without the \<open>_usec\<close> columns.
\<close>

theorem csv_read_back:
  assumes "readable None cs" "cs \<noteq> []" "list_all clean (concat (map headers cs))" "\<forall>r \<in> set rows. list_all2 (field_ok fl) cs r"
  shows "csv_proc fl (csv_file cs rows) =
    (schema_line (concat (map shown cs)) # map (\<lambda>r. dumps (PList (concat (map2 kept cs r)))) rows, Inr ())"
proof -
  have ne: "concat (map headers cs) \<noteq> []" using assms(1,2) by (cases cs; cases "hd cs") auto
  have "CHR ''#'' # csv_line (concat (map headers cs)) = (CHR ''#'' # join '','' (concat (map headers cs))) @ nl"
    by (simp add: csv_line_def)
  then have "strip (CHR ''#'' # csv_line (concat (map headers cs))) = CHR ''#'' # join '','' (concat (map headers cs))"
    using strip_line [of "CHR ''#'' # join '','' (concat (map headers cs))"] clean_join [OF assms(3)] by (simp add: is_space_def)
  moreover have "split_on CHR '','' (join '','' (concat (map headers cs))) = concat (map headers cs)"
    by (rule split_on_join) (use ne assms(3) in \<open>auto simp: clean_def list_all_iff\<close>)
  ultimately have h: "csv_header (csv_file cs rows) = concat (map headers cs)" by (simp add: csv_header_def csv_file_def)
  have "print_rows (csv_row fl (concat (map actions cs))) (map (\<lambda>r. csv_line (concat (map field_texts r))) rows) =
      (map (\<lambda>r. dumps (PList (concat (map2 kept cs r)))) rows, Inr ())"
    by (rule rows_printed) (use row_read [OF _ assms(1,2)] assms(4) in blast)
  with h columns_found [OF assms(1), of "[]" "[]" "[]"] show ?thesis by (simp add: csv_proc_def csv_file_def)
qed


theorem csv_read_back_witness:
  "csv_proc (\<lambda>_. None) (csv_file [Time, Usec ''Time'', Scalar ''id'', Array ''a'' 3, Scalar ''x''] [[PInt 1, PInt 5, PInt 7, PList [PInt 10, PInt 11, PInt 12], PInt 4]]) =
    (schema_line [''Time'', ''id'', ''a'', ''x''] # [dumps (PList [PInt 1, PInt 7, PList [PInt 10, PInt 11, PInt 12], PInt 4])], Inr ())"
proof -
  let ?cs = "[Time, Usec ''Time'', Scalar ''id'', Array ''a'' 3, Scalar ''x'']"
  let ?r = "[PInt 1, PInt 5, PInt 7, PList [PInt 10, PInt 11, PInt 12], PInt 4]"
  have three: "[0..<3] = [0, 1, 2::nat]" by (simp add: upt_rec)
  have num: "\<not> is_num ''x''" "\<not> is_num ''id''" by code_simp+
  have "readable None ?cs" by code_simp
  moreover have "list_all clean (concat (map headers ?cs))" by code_simp
  moreover have "\<forall>r \<in> set [?r]. list_all2 (field_ok (\<lambda>_. None)) ?cs r" by (simp add: field_ok_def int_cell)
  ultimately show ?thesis using csv_read_back [of ?cs "[?r]" "\<lambda>_. None"] by (simp add: kept_def)
qed

lemma long_array_splits:
  "col_loop [] [''Time'', ''a0'', ''a1'', ''a2'', ''a3'', ''a4'', ''a5'', ''a6'', ''a7'', ''a8'', ''a9'', ''a10'', ''a11''] ([], []) =
    Inr ([''Time'', ''a'', ''a1''], [Atomic, Array_first] @ replicate 9 Array_append @ [Array_first, Array_append])"
  by code_simp

lemma first_column_not_time: "col_loop [] [''id'', ''x''] ([], []) = Inl IndexError"
  by code_simp


section \<open>Kafka files\<close>

text \<open>
  Keys that \<open>KEY\<close> finds, and values whose text does not mislead it: no quotes, or a string without escapes.
\<close>

definition unescaped :: "string \<Rightarrow> bool" where
  "unescaped s = list_all (\<lambda>c. c \<noteq> CHR 0x22 \<and> esc c = [c]) s"

definition plain_key :: "string \<Rightarrow> bool" where
  "plain_key k \<longleftrightarrow> k \<noteq> [] \<and> hd k \<noteq> CHR '':'' \<and> unescaped k"

definition quiet :: "pval \<Rightarrow> bool" where
  "quiet v \<longleftrightarrow> (case v of PStr s \<Rightarrow> unescaped s | _ \<Rightarrow> CHR 0x22 \<notin> set (dumps v))"

lemma unescaped_text: "unescaped s \<Longrightarrow> json_str s = CHR 0x22 # s @ [CHR 0x22] \<and> CHR 0x22 \<notin> set s"
proof -
  assume u: "unescaped s"
  then have "concat (map esc s) = s" by (induction s) (auto simp: unescaped_def)
  with u show ?thesis by (auto simp: json_str_def unescaped_def list_all_iff)
qed

lemma find_skip: "CHR 0x22 \<notin> set s \<Longrightarrow> key_findall (s @ t) = key_findall t"
  by (induction s) (auto simp: Let_def)

lemma span_quote:
  "CHR 0x22 \<notin> set s \<Longrightarrow> takeWhile (\<lambda>x. x \<noteq> CHR 0x22) (s @ CHR 0x22 # t) = s"
  "CHR 0x22 \<notin> set s \<Longrightarrow> dropWhile (\<lambda>x. x \<noteq> CHR 0x22) (s @ CHR 0x22 # t) = CHR 0x22 # t"
  by (induction s) auto

lemma find_key: "k \<noteq> [] \<Longrightarrow> CHR 0x22 \<notin> set k \<Longrightarrow> key_findall (CHR 0x22 # k @ CHR 0x22 # CHR '':'' # t) = k # key_findall t"
  by (simp add: span_quote)

lemma find_no_key:
  assumes "CHR 0x22 \<notin> set s" "t = [] \<or> hd t \<noteq> CHR '':''"
  shows "key_findall (CHR 0x22 # s @ CHR 0x22 # t) = key_findall (CHR 0x22 # t)"
proof -
  have "take 2 (CHR 0x22 # t) \<noteq> [CHR 0x22, CHR '':'']" using assms(2) by (cases t) auto
  then have "key_findall (CHR 0x22 # s @ CHR 0x22 # t) = key_findall (s @ CHR 0x22 # t)"
    by (subst key_findall.simps(2)) (simp only: span_quote [OF assms(1)] Let_def simp_thms if_False)
  then show ?thesis by (simp only: find_skip [OF assms(1)])
qed

text \<open>What follows a value: the next item, or the end.\<close>

definition follows :: "string \<Rightarrow> bool" where
  "follows t \<longleftrightarrow> (\<exists>k u. t = '', '' @ CHR 0x22 # k @ u \<and> plain_key k) \<or> (CHR 0x22 \<notin> set t \<and> (t = [] \<or> hd t \<noteq> CHR '':''))"

lemma find_closing: "follows t \<Longrightarrow> key_findall (CHR 0x22 # t) = key_findall t"
proof (cases "CHR 0x22 \<in> set t")
  case False
  then have d: "dropWhile (\<lambda>x. x \<noteq> CHR 0x22) t = []" by (auto simp: dropWhile_eq_Nil_conv)
  have "take 2 (dropWhile (\<lambda>x. x \<noteq> CHR 0x22) t) \<noteq> [CHR 0x22, CHR '':'']" unfolding d by simp
  then show ?thesis by (subst key_findall.simps(2)) (simp only: Let_def simp_thms if_False)
next
  case True
  assume "follows t"
  with True obtain k u where t: "t = '', '' @ CHR 0x22 # k @ u" "plain_key k" unfolding follows_def by blast
  obtain c k' where k: "k = c # k'" "c \<noteq> CHR '':''" using t(2) by (cases k) (auto simp: plain_key_def)
  show ?thesis
    using find_no_key [of "'', ''" "k @ u"] k find_skip [of "'', ''" "CHR 0x22 # k @ u"] by (simp add: t(1) del: key_findall.simps)
qed

lemma find_value: "quiet v \<Longrightarrow> follows t \<Longrightarrow> key_findall (dumps v @ t) = key_findall t"
proof (cases "CHR 0x22 \<in> set (dumps v)")
  case False
  then show ?thesis by (rule find_skip)
next
  case True
  assume q: "quiet v" and f: "follows t"
  from q True obtain s where v: "v = PStr s" "unescaped s" by (cases v) (auto simp: quiet_def)
  have "t = [] \<or> hd t \<noteq> CHR '':''" using f by (auto simp: follows_def)
  then show ?thesis using find_no_key [of s t] find_closing [OF f] unescaped_text [OF v(2)] by (simp add: v(1) del: key_findall.simps)
qed

abbreviation kafka_item :: "string \<times> pval \<Rightarrow> string" where
  "kafka_item \<equiv> \<lambda>(k, v). json_str k @ '': '' @ dumps v"

lemma items_follow:
  "\<forall>(k, v) \<in> set d. plain_key k \<and> quiet v \<Longrightarrow> CHR 0x22 \<notin> set t \<Longrightarrow> t = [] \<or> hd t \<noteq> CHR '':'' \<Longrightarrow>
    follows (concat (map (\<lambda>x. '', '' @ kafka_item x) d) @ t)"
proof (cases d)
  case (Cons x d')
  assume a: "\<forall>(k, v) \<in> set d. plain_key k \<and> quiet v"
  obtain k v where x: "x = (k, v)" by force
  with a Cons have k: "plain_key k" "json_str k = CHR 0x22 # k @ [CHR 0x22]" using unescaped_text [of k] by (auto simp: plain_key_def)
  then show ?thesis unfolding follows_def Cons x by (auto simp: k(2))
qed (simp add: follows_def)

lemma find_item:
  assumes "plain_key k" "quiet v" "follows t"
  shows "key_findall (kafka_item (k, v) @ t) = k # key_findall t"
proof -
  have k: "k \<noteq> []" "CHR 0x22 \<notin> set k" "json_str k = CHR 0x22 # k @ [CHR 0x22]"
    using assms(1) unescaped_text [of k] by (auto simp: plain_key_def)
  have "key_findall (kafka_item (k, v) @ t) = k # key_findall ('' '' @ dumps v @ t)"
    using find_key [OF k(1,2), of "'' '' @ dumps v @ t"] by (simp add: k(3) del: key_findall.simps)
  also have "key_findall ('' '' @ dumps v @ t) = key_findall t"
    using find_skip [of "'' ''" "dumps v @ t"] find_value [OF assms(2,3)] by (simp del: key_findall.simps)
  finally show ?thesis .
qed

lemma find_items:
  assumes "CHR 0x22 \<notin> set t" "t = [] \<or> hd t \<noteq> CHR '':''"
  shows "\<forall>(k, v) \<in> set d. plain_key k \<and> quiet v \<Longrightarrow>
    key_findall (concat (map (\<lambda>x. '', '' @ kafka_item x) d) @ t) = dkeys d"
proof (induction d)
  case Nil
  then show ?case using find_skip [OF assms(1), of "[]"] by simp
next
  case (Cons x d)
  obtain k v where x: "x = (k, v)" by force
  let ?r = "concat (map (\<lambda>x. '', '' @ kafka_item x) d) @ t"
  from Cons.prems x have kv: "plain_key k" "quiet v" "\<forall>(k, v) \<in> set d. plain_key k \<and> quiet v" by auto
  have "key_findall (concat (map (\<lambda>x. '', '' @ kafka_item x) (x # d)) @ t) = key_findall ('', '' @ (kafka_item (k, v) @ ?r))"
    by (simp add: x del: key_findall.simps)
  also have "\<dots> = key_findall (kafka_item (k, v) @ ?r)" by (rule find_skip) simp
  also have "\<dots> = k # key_findall ?r" by (rule find_item [OF kv(1,2) items_follow [OF kv(3) assms]])
  finally show ?case using Cons.IH [OF kv(3)] by (simp only: x list.map fst_conv)
qed

lemma keys_of_line:
  assumes "d \<noteq> []" "\<forall>(k, v) \<in> set d. plain_key k \<and> quiet v"
  shows "key_findall (dumps (PDict d) @ nl) = dkeys d"
proof -
  obtain k v d' where d: "d = (k, v) # d'" using assms(1) by (cases d) auto
  have t: "CHR 0x22 \<notin> set (CHR 0x7D # nl)" "CHR 0x7D # nl = [] \<or> hd (CHR 0x7D # nl) \<noteq> CHR '':''" by simp_all
  have kv: "plain_key k" "quiet v" "\<forall>(k, v) \<in> set d'. plain_key k \<and> quiet v" using assms(2) d by auto
  let ?r = "concat (map (\<lambda>x. '', '' @ kafka_item x) d') @ CHR 0x7D # nl"
  have "dumps (PDict d) @ nl = ''{'' @ (kafka_item (k, v) @ ?r)" by (simp add: d join_comma comp_def del: append.simps)
  then have "key_findall (dumps (PDict d) @ nl) = key_findall (kafka_item (k, v) @ ?r)"
    using find_skip [of "''{''" "kafka_item (k, v) @ ?r"] by (simp only: list.set) simp
  also have "\<dots> = k # key_findall ?r" by (rule find_item [OF kv(1,2) items_follow [OF kv(3) t]])
  also have "key_findall ?r = dkeys d'" by (rule find_items [OF t kv(3)])
  finally show ?thesis by (simp only: d list.map fst_conv)
qed

lemma loads_line: "json_ok fl v \<Longrightarrow> loads fl (dumps v @ nl) = Inr v"
proof -
  assume v: "json_ok fl v"
  obtain c s where c: "dumps v = c # s" "\<not> json_ws c" using dumps_hd [OF v] jdepth_le [of v] by (cases "dumps v") auto
  have s: "skip_ws (dumps v @ nl) = dumps v @ nl" by (rule skip_ws_id) (simp add: c)
  have d: "jdepth v < length (dumps v @ nl) + 1" using jdepth_le [of v] by simp
  have "delim nl" by (simp add: delim_def)
  from val_dumps [OF v d this] have "val fl (length (dumps v @ nl) + 1) (dumps v @ nl) = Inr (v, nl)" .
  moreover have "skip_ws nl = []" by (simp add: json_ws_def)
  ultimately show ?thesis unfolding loads_def s by (simp only: bindE_simps prod.case simp_thms if_True)
qed

text \<open>
  Kafka rows. When every line of a Kafka file is the JSON object of a row with the keys of the first one, the names and
  texts are free of quotes and escapes, and values may be numbers, lists of numbers or texts, the
  columns are the keys of the first row in its order and every row is printed in that order,
  whatever order its own keys have.
\<close>

lemma kafka_read_back:
  assumes "d \<noteq> []" "\<forall>(k, v) \<in> set d. plain_key k \<and> quiet v" "\<forall>e \<in> set (d # ds). json_ok fl (PDict e) \<and> set (dkeys e) = set (dkeys d)"
  shows "kafka_proc fl (map (\<lambda>e. dumps (PDict e) @ nl) (d # ds)) =
    (schema_line (dkeys d) # map (\<lambda>e. dumps (PList (map (\<lambda>k. the (dget e k)) (dkeys d)))) (d # ds), Inr ())"
proof -
  have "kafka_row fl (dkeys d) (dumps (PDict e) @ nl) = Inr (map (\<lambda>k. the (dget e k)) (dkeys d))" if e: "e \<in> set (d # ds)" for e
  proof -
    have "dindex e k = Inr (the (dget e k))" if "k \<in> set (dkeys d)" for k
    proof -
      have "k \<in> set (dkeys e)" using assms(3) e that by blast
      then obtain v where "dget e k = Some v" using dget_None_iff [of e k] by (cases "dget e k") auto
      then show ?thesis by (simp add: dindex_def)
    qed
    then have "mapE (dindex e) (dkeys d) = Inr (map (\<lambda>k. the (dget e k)) (dkeys d))" by (rule mapE_Inr_map)
    moreover have "json_ok fl (PDict e)" "set (dkeys e) = set (dkeys d)" using assms(3) e by blast+
    ultimately show ?thesis using loads_line [of fl "PDict e"] by (simp add: kafka_row_def del: dumps.simps set_map json_ok.simps)
  qed
  then have "print_rows (kafka_row fl (dkeys d)) (map (\<lambda>e. dumps (PDict e) @ nl) (d # ds)) =
      (map (\<lambda>e. dumps (PList (map (\<lambda>k. the (dget e k)) (dkeys d)))) (d # ds), Inr ())"
    by (rule rows_printed)
  with keys_of_line [OF assms(1,2)] show ?thesis
    by (simp add: kafka_proc_def Let_def del: dumps.simps)
qed

lemma kafka_read_back_instance:
  "kafka_proc id (map (\<lambda>e. dumps (PDict e) @ nl) [[(''ts'', PInt 1), (''host'', PStr ''n1'')], [(''host'', PStr ''n2''), (''ts'', PInt 2)]]) =
    (schema_line [''ts'', ''host''] # [dumps (PList [PInt 1, PStr ''n1'']), dumps (PList [PInt 2, PStr ''n2''])], Inr ())"
proof -
  let ?d = "[(''ts'', PInt 1), (''host'', PStr ''n1'')]"
  let ?e = "[(''host'', PStr ''n2''), (''ts'', PInt 2)]"
  have "\<forall>(k, v) \<in> set ?d. plain_key k \<and> quiet v" by code_simp
  then show ?thesis using kafka_read_back [of ?d "[?e]" id] by (auto simp del: dumps.simps)
qed

end
