(* ===== verification/DirLookup.thy ===== *)
theory DirLookup
  imports Json
begin

text \<open>
  \<open>python/ldms_ls.py\<close>, the program that lists the sets of a daemon as JSON: the directory, and the metrics of the
  sets, which two kinds of callbacks of the LDMS library fetch while the main thread waits on a
  reference counter. The library decides when it calls back; the threads are a step relation.
\<close>

section \<open>Dictionaries of objects\<close>

text \<open>The attributes of an object in the order of \<open>dir\<close>; \<open>None\<close> stands for a callable.\<close>

type_synonym attrs = "(pval option) dict"

definition as_dict :: "attrs \<Rightarrow> pval dict" where
  "as_dict o' = List.map_filter (\<lambda>(a, v). case v of None \<Rightarrow> None | Some x \<Rightarrow> if startswith ''_'' a then None else Some (a, x)) o'"

text \<open>\<open>d.pop(k)\<close> raises when the key is missing; \<open>t[i]\<close> of a list or a tuple.\<close>

definition pop_key :: "string \<Rightarrow> pval dict \<Rightarrow> (pval \<times> pval dict) res" where
  "pop_key k d = bindE (dindex d k) (\<lambda>v. Inr (v, dpop k d))"

definition item_at :: "pval \<Rightarrow> nat \<Rightarrow> pval res" where
  "item_at t i =
     (case t of
        PList xs \<Rightarrow> if i < length xs then Inr (xs ! i) else Inl IndexError
      | PTuple xs \<Rightarrow> if i < length xs then Inr (xs ! i) else Inl IndexError
      | _ \<Rightarrow> Inl (TypeError ''not subscriptable''))"

definition time_of :: "pval \<Rightarrow> pval res" where
  "time_of t = bindE (item_at t 0) (\<lambda>s. bindE (item_at t 1) (\<lambda>u. Inr (PDict [(''sec'', s), (''usec'', u)])))"

definition dir2dict :: "attrs \<Rightarrow> pval dict res" where
  "dir2dict o' =
     foldE (\<lambda>d k. bindE (pop_key k d) (\<lambda>(t, d'). bindE (time_of t) (\<lambda>v. Inr (dset k v d')))) (as_dict o') [''timestamp'', ''duration'']"

text \<open>\<open>set2dict\<close>; the metrics are \<open>s.as_dict()\<close>.\<close>

definition set2dict :: "attrs \<Rightarrow> pval dict \<Rightarrow> pval dict res" where
  "set2dict s metrics =
     bindE (foldE (\<lambda>d (k, k'). bindE (pop_key k d) (\<lambda>(t, d'). Inr (dset k' t d'))) (as_dict s)
        [(''transaction_duration'', ''duration''), (''transaction_timestamp'', ''timestamp'')])
       (\<lambda>d. Inr (dset ''metrics'' (PDict metrics) d))"

text \<open>The options of the authentication: \<open>name=value\<close>.\<close>

definition auth_opts :: "string list option \<Rightarrow> (string dict) option res" where
  "auth_opts args =
     (case args of
        None \<Rightarrow> Inr None
      | Some os \<Rightarrow>
          bindE (foldE (\<lambda>d a. case split_on CHR ''='' a of [k, v] \<Rightarrow> Inr (dset k v d) | _ \<Rightarrow> Inl (ValueError ''unpack'')) [] os)
            (\<lambda>d. Inr (Some d)))"

section \<open>The reference counter and the threads\<close>

text \<open>
  The main thread: before \<open>ref_count.get()\<close>, before \<open>x.lookup()\<close>, in \<open>wait_zero\<close> with the lock free, asleep in
  \<open>cond.wait\<close>, after \<open>wait_zero\<close>. The thread of the lookup callbacks: between callbacks, after \<open>ref_count.get()\<close>
  with the set of the callback (none when the lookup has failed) and \<open>more\<close>, after \<open>lset.update()\<close>.
\<close>

datatype main_pc = Start | Ready | Wait | Asleep | Done

datatype cb_pc = Idle | Got "string option" bool | Sent bool

record ls =
  main :: main_pc
  ref_count :: int
  todo :: "string option list"
  cb :: cb_pc
  issued :: "string list"
  stored :: "string list"
  lsets :: "string list"
  errors :: "pyerr list"
  held :: bool

definition ls_start :: ls where
  "ls_start = \<lparr>main = Start, ref_count = 0, todo = [], cb = Idle, issued = [], stored = [], lsets = [], errors = [], held = False\<rparr>"

definition get :: "ls \<Rightarrow> ls" where
  "get s = s\<lparr>ref_count := ref_count s + 1\<rparr>"

text \<open>\<open>put\<close>: a failed assertion leaves the lock held; the last reference wakes a sleeping \<open>wait_zero\<close>.\<close>

definition put :: "ls \<Rightarrow> ls" where
  "put s =
     (if ref_count s \<le> 0 then s\<lparr>errors := errors s @ [AssertionError], held := True\<rparr>
      else if ref_count s = 1 \<and> main s = Asleep then s\<lparr>ref_count := 0, main := Wait\<rparr>
      else s\<lparr>ref_count := ref_count s - 1\<rparr>)"

text \<open>
  The steps. \<open>found\<close> are the lookups that the library answers, \<open>known\<close> the names of the directory. Lookup
  callbacks run one after the other; an update may be answered at any time after \<open>lset.update()\<close>.
\<close>

inductive ls_step :: "string option list \<Rightarrow> string list \<Rightarrow> ls \<Rightarrow> ls \<Rightarrow> bool" for found known where
  main_get: "main s = Start \<Longrightarrow> \<not> held s \<Longrightarrow> ls_step found known s ((get s)\<lparr>main := Ready\<rparr>)"
| main_lookup: "main s = Ready \<Longrightarrow> ls_step found known s (s\<lparr>main := Wait, todo := found\<rparr>)"
| wait_end: "main s = Wait \<Longrightarrow> \<not> held s \<Longrightarrow> \<not> 0 < ref_count s \<Longrightarrow> ls_step found known s (s\<lparr>main := Done\<rparr>)"
| wait_sleep: "main s = Wait \<Longrightarrow> \<not> held s \<Longrightarrow> 0 < ref_count s \<Longrightarrow> ls_step found known s (s\<lparr>main := Asleep\<rparr>)"
| lookup_get: "cb s = Idle \<Longrightarrow> todo s = x # xs \<Longrightarrow> \<not> held s \<Longrightarrow> ls_step found known s ((get s)\<lparr>cb := Got x (xs \<noteq> []), todo := xs\<rparr>)"
| lookup_update: "cb s = Got (Some x) m \<Longrightarrow> ls_step found known s (s\<lparr>cb := Sent m, issued := issued s @ [x]\<rparr>)"
| lookup_failed: "cb s = Got None m \<Longrightarrow> ls_step found known s (s\<lparr>cb := Idle, errors := errors s @ [AttributeError ''update'']\<rparr>)"
| lookup_more: "cb s = Sent True \<Longrightarrow> ls_step found known s (s\<lparr>cb := Idle\<rparr>)"
| lookup_last: "cb s = Sent False \<Longrightarrow> \<not> held s \<Longrightarrow> ls_step found known s ((put s)\<lparr>cb := Idle\<rparr>)"
| update_store: "x \<in> set (issued s) \<Longrightarrow> x \<in> set known \<Longrightarrow>
    ls_step found known s (s\<lparr>issued := remove1 x (issued s), stored := stored s @ [x], lsets := lsets s @ [x]\<rparr>)"
| update_unknown: "x \<in> set (issued s) \<Longrightarrow> x \<notin> set known \<Longrightarrow>
    ls_step found known s (s\<lparr>issued := remove1 x (issued s), errors := errors s @ [KeyError (PStr x)]\<rparr>)"
| update_put: "x \<in> set (stored s) \<Longrightarrow> \<not> held s \<Longrightarrow> ls_step found known s ((put s)\<lparr>stored := remove1 x (stored s)\<rparr>)"

section \<open>The output\<close>

text \<open>
  After \<open>wait_zero\<close>: the metrics of every set that has an \<open>lset\<close> are added to its entry; \<open>json_obj\<close> and the number of
  metrics (an empty set is false) are parameters.
\<close>

definition with_metrics :: "(string \<Rightarrow> pval dict) \<Rightarrow> (string \<Rightarrow> nat) \<Rightarrow> string list \<Rightarrow> (pval dict) dict \<Rightarrow> (pval dict) dict" where
  "with_metrics json_obj metrics_no got sets =
     map (\<lambda>(k, d). (k, if k \<in> set got \<and> metrics_no k \<noteq> 0 then dupdate d (json_obj k) else d)) sets"

definition ls_output :: "(pval dict) dict \<Rightarrow> string" where
  "ls_output sets = dumps_ind 2 0 (PDict (map (\<lambda>(k, d). (k, PDict d)) sets))"

definition dir_sets :: "attrs dict \<Rightarrow> (pval dict) dict res" where
  "dir_sets dirs = bindE (mapE (\<lambda>(k, o'). bindE (dir2dict o') (\<lambda>d. Inr (k, d))) dirs) (\<lambda>kds. Inr (dupdate [] kds))"


inductive_cases ls_stepE: "ls_step found known s t"

section \<open>The references\<close>

text \<open>The references that are still to be put: of the lookup, of a callback that runs, of updates, of failed callbacks.\<close>

definition lookup_ref :: "ls \<Rightarrow> nat" where
  "lookup_ref s = (if main s = Ready \<or> todo s \<noteq> [] \<or> (case cb s of Idle \<Rightarrow> False | _ \<Rightarrow> True) then 1 else 0)"

definition cb_ref :: "ls \<Rightarrow> nat" where
  "cb_ref s = (case cb s of Got x m \<Rightarrow> 1 | _ \<Rightarrow> 0)"

definition refs :: "ls \<Rightarrow> nat" where
  "refs s = lookup_ref s + cb_ref s + length (issued s) + length (stored s) + length (errors s)"

text \<open>A lookup is accounted for: it is to come, it is answered and under way, or its set is there, or a callback has failed.\<close>

definition accounted :: "ls \<Rightarrow> string option \<Rightarrow> bool" where
  "accounted s x \<longleftrightarrow> x \<in> set (todo s) \<or> (\<exists>m. cb s = Got x m) \<or> x \<in> Some ` set (issued s @ lsets s) \<or> errors s \<noteq> []"

definition fresh_state :: "ls \<Rightarrow> bool" where
  "fresh_state s \<longleftrightarrow> todo s = [] \<and> cb s = Idle \<and> issued s = [] \<and> stored s = [] \<and> lsets s = [] \<and> errors s = []"

definition more_ok :: "ls \<Rightarrow> bool" where
  "more_ok s \<longleftrightarrow> (case cb s of Idle \<Rightarrow> True | Got x m \<Rightarrow> m = (todo s \<noteq> []) | Sent m \<Rightarrow> m = (todo s \<noteq> [])) \<and>
     (main s \<in> {Start, Ready} \<longrightarrow> fresh_state s)"

definition count_ok :: "ls \<Rightarrow> bool" where
  "count_ok s \<longleftrightarrow> \<not> held s \<and> int (refs s) \<le> ref_count s \<and> (errors s = [] \<longrightarrow> ref_count s = int (refs s)) \<and>
     (main s = Asleep \<longrightarrow> 0 < ref_count s) \<and> (main s = Done \<longrightarrow> refs s = 0)"

definition found_ok :: "string option list \<Rightarrow> ls \<Rightarrow> bool" where
  "found_ok found s \<longleftrightarrow> (main s \<notin> {Start, Ready} \<longrightarrow> (\<forall>x \<in> set found. accounted s x))"

definition names_ok :: "string option list \<Rightarrow> string list \<Rightarrow> ls \<Rightarrow> bool" where
  "names_ok found known s \<longleftrightarrow> set (lsets s) \<subseteq> set known \<and> AssertionError \<notin> set (errors s) \<and> Some ` set (issued s) \<subseteq> set found \<and> Some ` set (lsets s) \<subseteq> set found \<and> set (todo s) \<subseteq> set found \<and>
     (case cb s of Got x m \<Rightarrow> x \<in> set found | _ \<Rightarrow> True)"

definition ls_inv :: "string option list \<Rightarrow> string list \<Rightarrow> ls \<Rightarrow> bool" where
  "ls_inv found known s \<longleftrightarrow> more_ok s \<and> count_ok s \<and> found_ok found s \<and> names_ok found known s"

lemma inv_start: "ls_inv found known ls_start"
  by (simp add: ls_inv_def more_ok_def count_ok_def found_ok_def names_ok_def fresh_state_def ls_start_def refs_def lookup_ref_def cb_ref_def)

lemma length_remove1_in: "x \<in> set xs \<Longrightarrow> length xs = Suc (length (remove1 x xs))"
  by (induction xs) auto

lemma put_fields [simp]:
  "todo (put s) = todo s" "cb (put s) = cb s" "issued (put s) = issued s" "stored (put s) = stored s" "lsets (put s) = lsets s"
  "0 < ref_count s \<Longrightarrow> errors (put s) = errors s" "0 < ref_count s \<Longrightarrow> held (put s) = held s"
  "0 < ref_count s \<Longrightarrow> ref_count (put s) = ref_count s - 1"
  "main (put s) = (if ref_count s = 1 \<and> main s = Asleep then Wait else main s)"
  by (simp_all add: put_def)

lemma get_fields [simp]:
  "main (get s) = main s" "ref_count (get s) = ref_count s + 1" "todo (get s) = todo s" "cb (get s) = cb s" "issued (get s) = issued s"
  "stored (get s) = stored s" "lsets (get s) = lsets s" "errors (get s) = errors s" "held (get s) = held s"
  by (simp_all add: get_def)

lemma more_step:
  assumes "found \<noteq> []" "ls_step found known s t" "more_ok s"
  shows "more_ok t"
  using assms(2)
proof cases
  case lookup_last
  with assms(3) show ?thesis by (auto simp: more_ok_def fresh_state_def split: cb_pc.splits)
next
  case (update_put x)
  with assms(3) show ?thesis by (auto simp: more_ok_def fresh_state_def split: cb_pc.splits)
qed (use assms(3) in \<open>auto simp: more_ok_def fresh_state_def split: cb_pc.splits\<close>)

lemma ref_positive: "count_ok s \<Longrightarrow> refs s \<noteq> 0 \<Longrightarrow> 0 < ref_count s"
  by (simp add: count_ok_def)

lemmas ref_defs = refs_def lookup_ref_def cb_ref_def

lemma stored_positive: "count_ok s \<Longrightarrow> x \<in> set (stored s) \<Longrightarrow> 0 < ref_count s"
  by (rule ref_positive) (cases "stored s"; simp add: ref_defs)+

lemma count_step:
  assumes "found \<noteq> []" "ls_step found known s t" "more_ok s" "count_ok s"
  shows "count_ok t"
  using assms(2)
proof cases
  case main_get
  with assms(3,4) show ?thesis by (simp add: count_ok_def more_ok_def fresh_state_def ref_defs)
next
  case main_lookup
  with assms show ?thesis by (simp add: count_ok_def more_ok_def fresh_state_def ref_defs)
next
  case wait_end
  then have "refs s = 0" using assms(4) by (simp add: count_ok_def)
  moreover from this have "refs t = 0" using wait_end by (simp add: ref_defs split: if_splits)
  ultimately show ?thesis using wait_end assms(4) by (simp add: count_ok_def)
next
  case wait_sleep
  with assms show ?thesis by (simp add: count_ok_def ref_defs)
next
  case (lookup_get x xs)
  with assms(3,4) show ?thesis by (auto simp: count_ok_def more_ok_def ref_defs)
next
  case (lookup_update x m)
  with assms(3,4) show ?thesis by (auto simp: count_ok_def more_ok_def ref_defs)
next
  case (lookup_failed m)
  with assms(3,4) show ?thesis by (auto simp: count_ok_def more_ok_def ref_defs)
next
  case lookup_more
  with assms(3,4) show ?thesis by (auto simp: count_ok_def more_ok_def ref_defs)
next
  case lookup_last
  then have r: "refs s = Suc (refs t)" "0 < ref_count s" using assms(3) ref_positive [OF assms(4)]
    by (auto simp: more_ok_def ref_defs fresh_state_def put_def)
  then show ?thesis using assms(4) lookup_last by (auto simp: count_ok_def)
next
  case (update_store x)
  with assms(3,4) length_remove1_in [OF update_store(2)] show ?thesis by (auto simp: count_ok_def ref_defs)
next
  case (update_unknown x)
  with assms(3,4) length_remove1_in [OF update_unknown(2)] show ?thesis by (auto simp: count_ok_def ref_defs)
next
  case (update_put x)
  then have "refs s = Suc (refs (s\<lparr>stored := remove1 x (stored s)\<rparr>))" using length_remove1_in [of x "stored s"] by (simp add: ref_defs)
  moreover from this have p: "0 < ref_count s" using ref_positive [OF assms(4)] by simp
  moreover have "refs t = refs (s\<lparr>stored := remove1 x (stored s)\<rparr>)" using update_put p by (auto simp: ref_defs)
  ultimately show ?thesis using assms(4) update_put by (auto simp: count_ok_def)
qed

lemma found_step:
  assumes "ls_step found known s t" "more_ok s" "count_ok s" "found_ok found s"
  shows "found_ok found t"
  using assms(1)
proof cases
  case lookup_last
  then have "0 < ref_count s" using ref_positive [OF assms(3)] by (simp add: ref_defs)
  with lookup_last assms(4) show ?thesis by (auto simp: found_ok_def accounted_def)
next
  case (update_put x)
  then have "0 < ref_count s" using stored_positive [OF assms(3)] by blast
  with update_put assms(4) show ?thesis by (auto simp: found_ok_def accounted_def)
next
  case (update_store x)
  have "accounted t y" if "accounted s y" for y
    using that in_set_remove1 [of _ x "issued s"] update_store(1) by (cases y) (auto simp: accounted_def)
  moreover have "main t = main s" using update_store(1) by simp
  ultimately show ?thesis using assms(4) by (simp add: found_ok_def)
next
  case (lookup_get x xs)
  then show ?thesis using assms(2,4) by (auto simp: found_ok_def accounted_def more_ok_def fresh_state_def)
next
  case (lookup_update x m)
  then show ?thesis using assms(2,4) by (auto simp: found_ok_def accounted_def more_ok_def fresh_state_def)
qed (use assms(2,4) in \<open>auto simp: found_ok_def accounted_def more_ok_def fresh_state_def\<close>)

lemma remove1_sub: "set (remove1 x xs) \<subseteq> set xs"
  by (rule set_remove1_subset)

lemma names_step:
  assumes "ls_step found known s t" "count_ok s" "names_ok found known s"
  shows "names_ok found known t"
  using assms(1)
proof cases
  case lookup_last
  then have "0 < ref_count s" using ref_positive [OF assms(2)] by (simp add: ref_defs)
  with lookup_last assms(3) show ?thesis by (auto simp: names_ok_def)
next
  case (update_put x)
  then have "0 < ref_count s" using stored_positive [OF assms(2)] by blast
  with update_put assms(3) show ?thesis by (auto simp: names_ok_def split: cb_pc.splits)
next
  case (update_store x)
  then show ?thesis using assms(3) remove1_sub [of x "issued s"] by (auto simp: names_ok_def split: cb_pc.splits)
next
  case (update_unknown x)
  then show ?thesis using assms(3) remove1_sub [of x "issued s"] by (auto simp: names_ok_def split: cb_pc.splits)
qed (use assms(3) in \<open>auto simp: names_ok_def split: cb_pc.splits\<close>)

lemma reachable_inv:
  assumes "found \<noteq> []" "(ls_step found known)\<^sup>*\<^sup>* ls_start s"
  shows "ls_inv found known s"
  using assms(2)
proof (induction rule: rtranclp_induct)
  case (step s t)
  then show ?case
    using more_step [OF assms(1) step(2)] count_step [OF assms(1) step(2)] found_step [OF step(2)] names_step [OF step(2)]
    by (simp add: ls_inv_def)
qed (rule inv_start)

lemma done_complete:
  assumes "ls_inv found known s" "main s = Done"
  shows "errors s = [] \<and> ref_count s = 0 \<and> set found = Some ` set (lsets s) \<and> set (lsets s) \<subseteq> set known"
proof -
  have r: "refs s = 0" using assms by (simp add: ls_inv_def count_ok_def)
  then have e: "todo s = []" "cb s = Idle" "issued s = []" "errors s = []"
    by (auto simp: ref_defs split: if_splits cb_pc.splits)
  moreover have "\<forall>x \<in> set found. accounted s x" using assms by (simp add: ls_inv_def found_ok_def)
  ultimately have "set found \<subseteq> Some ` set (lsets s)" by (auto simp: accounted_def)
  then show ?thesis using assms(1) r e by (auto simp: ls_inv_def count_ok_def names_ok_def)
qed

section \<open>Progress\<close>

text \<open>A bound on the steps that are left, and that a step can be made.\<close>

definition steps_left :: "string option list \<Rightarrow> ls \<Rightarrow> nat" where
  "steps_left found s =
     (case main s of Start \<Rightarrow> 9 * length found + 9 | Ready \<Rightarrow> 9 * length found + 5 | Wait \<Rightarrow> 2 | Asleep \<Rightarrow> 1 | Done \<Rightarrow> 0) +
     9 * length (todo s) + (case cb s of Idle \<Rightarrow> 0 | Got x m \<Rightarrow> 8 | Sent m \<Rightarrow> 3) + 4 * length (issued s) + 3 * length (stored s)"

lemma step_decreases:
  assumes "ls_step found known s t" "more_ok s"
  shows "steps_left found t < steps_left found s"
  using assms(1)
proof cases
  case (update_store x)
  then show ?thesis using length_remove1_in [OF update_store(2)] by (simp add: steps_left_def)
next
  case (update_unknown x)
  then show ?thesis using length_remove1_in [OF update_unknown(2)] by (simp add: steps_left_def)
next
  case (update_put x)
  then show ?thesis using length_remove1_in [OF update_put(2)] by (simp add: steps_left_def split: main_pc.splits)
next
  case lookup_last
  then show ?thesis by (simp add: steps_left_def split: main_pc.splits)
next
  case main_lookup
  then show ?thesis using assms(2) by (simp add: steps_left_def more_ok_def fresh_state_def)
qed (simp_all add: steps_left_def)

definition all_answered :: "string option list \<Rightarrow> string list \<Rightarrow> bool" where
  "all_answered found known \<longleftrightarrow> (\<forall>x \<in> set found. case x of None \<Rightarrow> False | Some n \<Rightarrow> n \<in> set known)"

lemma no_errors:
  assumes "found \<noteq> []" "all_answered found known" "(ls_step found known)\<^sup>*\<^sup>* ls_start s"
  shows "errors s = []"
  using assms(3)
proof (induction rule: rtranclp_induct)
  case base
  show ?case by (simp add: ls_start_def)
next
  case (step s t)
  have inv: "ls_inv found known s" by (rule reachable_inv [OF assms(1) step(1)])
  then have n: "names_ok found known s" "count_ok s" by (simp_all add: ls_inv_def)
  from step(2) show ?case
  proof cases
    case (lookup_failed m)
    then have "None \<in> set found" using n by (simp add: names_ok_def)
    with assms(2) show ?thesis by (force simp: all_answered_def)
  next
    case (update_unknown x)
    then have "Some x \<in> set found" using n by (auto simp: names_ok_def)
    with assms(2) update_unknown show ?thesis by (force simp: all_answered_def)
  next
    case lookup_last
    then have "0 < ref_count s" using ref_positive [OF n(2)] by (simp add: ref_defs)
    with lookup_last step(3) show ?thesis by simp
  next
    case (update_put x)
    then have "0 < ref_count s" using stored_positive [OF n(2)] by blast
    with update_put step(3) show ?thesis by simp
  qed (use step(3) in simp_all)
qed

lemma step_enabled:
  assumes "ls_inv found known s" "all_answered found known" "errors s = []" "main s \<noteq> Done"
  shows "\<exists>t. ls_step found known s t"
proof -
  have h: "\<not> held s" "ref_count s = int (refs s)" using assms(1,3) by (auto simp: ls_inv_def count_ok_def)
  have n: "names_ok found known s" using assms(1) by (simp add: ls_inv_def)
  show ?thesis
  proof (cases "main s")
    case Start
    then show ?thesis using ls_step.main_get h(1) by blast
  next
    case Ready
    then show ?thesis using ls_step.main_lookup by blast
  next
    case Wait
    then show ?thesis using ls_step.wait_end ls_step.wait_sleep h(1) by blast
  next
    case Asleep
    then have r: "refs s \<noteq> 0" using assms(1) h(2) by (simp add: ls_inv_def count_ok_def)
    show ?thesis
    proof (cases "cb s")
      case (Got x m)
      then show ?thesis using ls_step.lookup_update ls_step.lookup_failed by (cases x) blast+
    next
      case (Sent m)
      then consider "cb s = Sent True" | "cb s = Sent False" by (cases m) simp_all
      then show ?thesis using ls_step.lookup_more ls_step.lookup_last h(1) by cases blast+
    next
      case Idle
      consider x xs where "todo s = x # xs" | x where "x \<in> set (issued s)" | x where "x \<in> set (stored s)"
        using r assms(3) Idle Asleep by (cases "todo s"; cases "issued s"; cases "stored s") (auto simp: ref_defs)
      then show ?thesis
        using ls_step.lookup_get [OF Idle] ls_step.update_store ls_step.update_unknown ls_step.update_put h(1)
        by cases blast+
    qed
  next
    case Done
    with assms(4) show ?thesis by simp
  qed
qed

lemma run_to_end:
  assumes "found \<noteq> []" "all_answered found known"
  shows "(ls_step found known)\<^sup>*\<^sup>* ls_start s \<Longrightarrow> \<exists>t. (ls_step found known)\<^sup>*\<^sup>* s t \<and> main t = Done"
proof (induction "steps_left found s" arbitrary: s rule: less_induct)
  case less
  note inv = reachable_inv [OF assms(1) less(2)]
  show ?case
  proof (cases "main s = Done")
    case False
    from step_enabled [OF inv assms(2) no_errors [OF assms less(2)] False] obtain t where t: "ls_step found known s t" by blast
    have "(ls_step found known)\<^sup>*\<^sup>* ls_start t" using less(2) t by (rule rtranclp.rtrancl_into_rtrancl)
    with less(1) step_decreases [OF t] inv obtain u where "(ls_step found known)\<^sup>*\<^sup>* t u" "main u = Done"
      unfolding ls_inv_def by blast
    with t show ?thesis by (blast intro: converse_rtranclp_into_rtranclp)
  qed blast
qed

lemma no_infinite_run:
  assumes "found \<noteq> []" "f 0 = ls_start" "\<And>i. ls_step found known (f i) (f (Suc i))"
  shows False
proof -
  have r: "(ls_step found known)\<^sup>*\<^sup>* ls_start (f i)" for i
    by (induction i) (use assms(2,3) in \<open>auto intro: rtranclp.rtrancl_into_rtrancl\<close>)
  have d: "steps_left found (f (Suc i)) < steps_left found (f i)" for i
    using step_decreases [OF assms(3)] reachable_inv [OF assms(1) r] by (simp add: ls_inv_def)
  have "steps_left found (f i) + i \<le> steps_left found (f 0)" for i
  proof (induction i)
    case (Suc i)
    with d [of i] show ?case by linarith
  qed simp
  from this [of "Suc (steps_left found (f 0))"] show False by simp
qed

section \<open>Properties\<close>

text \<open>
  C10: the list is complete. However the callbacks and the main thread take turns, the assertion of \<open>put\<close> never
  fails; when \<open>wait_zero\<close> returns, no callback has failed, every set of the lookup has been updated, and
  the output has its metrics: the table printed does not depend on the order of the callbacks.
\<close>

theorem listing_complete:
  assumes "found \<noteq> []" "(ls_step found known)\<^sup>*\<^sup>* ls_start s"
  shows "AssertionError \<notin> set (errors s) \<and> \<not> held s \<and>
    (main s = Done \<longrightarrow> errors s = [] \<and> ref_count s = 0 \<and> set found = Some ` set (lsets s) \<and>
      with_metrics json_obj metrics_no (lsets s) sets =
        map (\<lambda>(k, d). (k, if Some k \<in> set found \<and> metrics_no k \<noteq> 0 then dupdate d (json_obj k) else d)) sets)"
proof -
  have inv: "ls_inv found known s" by (rule reachable_inv [OF assms])
  then have "AssertionError \<notin> set (errors s)" "\<not> held s" by (simp_all add: ls_inv_def count_ok_def names_ok_def)
  moreover have "with_metrics json_obj metrics_no (lsets s) sets =
      map (\<lambda>(k, d). (k, if Some k \<in> set found \<and> metrics_no k \<noteq> 0 then dupdate d (json_obj k) else d)) sets"
    if "set found = Some ` set (lsets s)"
    unfolding with_metrics_def that by (simp add: inj_image_mem_iff)
  ultimately show ?thesis using done_complete [OF inv] by blast
qed

text \<open>
  C33: the list is printed. When the library answers every lookup and only with sets of the directory, there is no
  infinite run, and from every state that the threads can reach they can go on until \<open>wait_zero\<close> has
  returned: no wake-up is lost.
\<close>

theorem listing_ends:
  assumes "found \<noteq> []" "all_answered found known" "(ls_step found known)\<^sup>*\<^sup>* ls_start s"
  shows "(\<exists>t. (ls_step found known)\<^sup>*\<^sup>* s t \<and> main t = Done) \<and> (main s \<noteq> Done \<longrightarrow> (\<exists>t. ls_step found known s t)) \<and>
    \<not> (\<exists>f. f 0 = ls_start \<and> (\<forall>i. ls_step found known (f i) (f (Suc i))))"
  using run_to_end [OF assms(1,2,3)] step_enabled [OF reachable_inv [OF assms(1,3)] assms(2) no_errors [OF assms]]
    no_infinite_run [OF assms(1)] by blast

text \<open>
  A lookup that fails, or a set that has appeared after the directory was read, makes a callback raise before it puts its
  reference: \<open>wait_zero\<close>, which is called without a limit, never returns.
\<close>

lemma failed_callback_hangs:
  assumes "found \<noteq> []" "x \<in> set found" "x = None \<or> (\<exists>n. x = Some n \<and> n \<notin> set known)" "(ls_step found known)\<^sup>*\<^sup>* ls_start s"
  shows "main s \<noteq> Done"
  using done_complete [OF reachable_inv [OF assms(1,4)]] assms(2,3) by blast

definition demo_found :: "string option list" where
  "demo_found = [Some ''a'', Some ''b'']"

theorem listing_complete_witness:
  "\<exists>s :: ls. main s = Done \<and> errors s = [] \<and>
    with_metrics (\<lambda>k. [(''x'', PInt 1)]) (\<lambda>k. 1) (lsets s) [(''a'', []), (''b'', []), (''c'', [])] =
      [(''a'', [(''x'', PInt 1)]), (''b'', [(''x'', PInt 1)]), (''c'', [])]"
proof -
  have f: "demo_found \<noteq> []" "all_answered demo_found [''a'', ''b'', ''c'']" by (simp_all add: demo_found_def all_answered_def)
  obtain s where s: "(ls_step demo_found [''a'', ''b'', ''c''])\<^sup>*\<^sup>* ls_start s" "main s = Done"
    using run_to_end [OF f rtranclp.rtrancl_refl] by blast
  from listing_complete [OF f(1) s(1), of "\<lambda>k. [(''x'', PInt 1)]" "\<lambda>k. 1" "[(''a'', []), (''b'', []), (''c'', [])]"] s(2)
  have "errors s = [] \<and> with_metrics (\<lambda>k. [(''x'', PInt 1)]) (\<lambda>k. 1) (lsets s) [(''a'', []), (''b'', []), (''c'', [])] =
      [(''a'', [(''x'', PInt 1)]), (''b'', [(''x'', PInt 1)]), (''c'', [])]"
    by (simp add: demo_found_def dict_simps)
  with s(2) show ?thesis by blast
qed

theorem listing_ends_witness:
  "\<exists>t. (ls_step demo_found [''a'', ''b'', ''c''])\<^sup>*\<^sup>* ls_start t \<and> main t = Done"
proof -
  have f: "demo_found \<noteq> []" "all_answered demo_found [''a'', ''b'', ''c'']" by (simp_all add: demo_found_def all_answered_def)
  from listing_ends [OF f rtranclp.rtrancl_refl] show ?thesis by blast
qed

end
