(* ===== verification/ListData.thy ===== *)
theory ListData
  imports Prelude Complex_Main
begin

text \<open>
  \<open>python/list_common.py\<close>: the data that the sampler of the list test puts into a metric set and the clients compare
  with what they get. What the LDMS library stores for a value is a parameter.
\<close>

section \<open>Types and values\<close>

datatype vtype =
    V_CHAR | V_U8 | V_S8 | V_U16 | V_S16 | V_U32 | V_S32 | V_U64 | V_S64 | V_F32 | V_D64
  | V_CHAR_ARRAY | V_U8_ARRAY | V_S8_ARRAY | V_U16_ARRAY | V_S16_ARRAY | V_U32_ARRAY | V_S32_ARRAY | V_U64_ARRAY | V_S64_ARRAY
  | V_F32_ARRAY | V_D64_ARRAY
  | V_LIST | V_RECORD_TYPE | V_RECORD_INST | V_RECORD_ARRAY

datatype num = I int | F rat

fun rat_of :: "num \<Rightarrow> rat" where
  "rat_of (I i) = of_int i"
| "rat_of (F r) = r"

text \<open>Values of the program; \<open>VData\<close> is a list of pairs (type, value).\<close>

datatype pyv = VNum num | VStr string | VTuple "num list" | VList "num list" | VData "(vtype \<times> pyv) list" | VNone

text \<open>\<open>==\<close>: integers and floats are compared as numbers, a tuple is no list.\<close>

definition nums_eq :: "num list \<Rightarrow> num list \<Rightarrow> bool" where
  "nums_eq xs ys = list_all2 (\<lambda>x y. rat_of x = rat_of y) xs ys"

definition py_eq :: "pyv \<Rightarrow> pyv \<Rightarrow> bool" where
  "py_eq a b =
     (case (a, b) of
        (VNum x, VNum y) \<Rightarrow> rat_of x = rat_of y
      | (VStr s, VStr t) \<Rightarrow> s = t
      | (VTuple xs, VTuple ys) \<Rightarrow> nums_eq xs ys
      | (VList xs, VList ys) \<Rightarrow> nums_eq xs ys
      | (VNone, VNone) \<Rightarrow> True
      | _ \<Rightarrow> False)"

text \<open>
  What the library hands out: a metric value (\<open>ldms.MVal\<close>) with its type, a plain value, a list, a record
  instance, the type of a record, an array of records.
\<close>

datatype mobj = MVal vtype pyv | MRaw pyv | MList "mobj list" | MRec "(vtype \<times> mobj) list" | MRecType | MRecArray "mobj list"

section \<open>The data\<close>

text \<open>\<open>Seq\<close>: the \<open>k\<close>-th call of \<open>next\<close>, counted from 0.\<close>

definition next_of :: "int \<Rightarrow> nat \<Rightarrow> int" where
  "next_of start k = (start - 1) + int (k + 1)"

definition three :: "int \<Rightarrow> nat \<Rightarrow> pyv" where
  "three start k = VTuple (map (\<lambda>i. I (next_of start (k + i))) [0..<3])"

definition list_data :: "int \<Rightarrow> (vtype \<times> pyv) list" where
  "list_data s =
     (let n = (\<lambda>k. VNum (I (next_of s k))) in
      [(V_CHAR, VStr [[CHR ''a'', CHR ''b''] ! nat (next_of s 3 mod 2)]), (V_U8, n 4), (V_S8, n 5), (V_U16, n 6), (V_S16, n 7), (V_U32, n 8),
       (V_S32, n 9), (V_U64, n 10), (V_S64, n 11), (V_F32, n 12), (V_D64, n 13), (V_CHAR_ARRAY, VStr (str_int (next_of s 14))),
       (V_U8_ARRAY, three s 15), (V_S8_ARRAY, three s 18), (V_U16_ARRAY, three s 21), (V_S16_ARRAY, three s 24), (V_U32_ARRAY, three s 27),
       (V_S32_ARRAY, three s 30), (V_U64_ARRAY, three s 33), (V_S64_ARRAY, three s 36), (V_F32_ARRAY, three s 39), (V_D64_ARRAY, three s 42)])"

abbreviation a_file :: "string \<Rightarrow> vtype \<times> pyv" where
  "a_file s \<equiv> (V_CHAR_ARRAY, VStr s)"

abbreviation dir :: "(vtype \<times> pyv) list \<Rightarrow> vtype \<times> pyv" where
  "dir d \<equiv> (V_LIST, VData d)"

definition dir_data :: "(vtype \<times> pyv) list" where
  "dir_data =
     [a_file ''/'', dir
       [a_file ''bin/'', dir [a_file ''bash'', a_file ''ls''],
        a_file ''var/'', dir
          [a_file ''run/'', dir [a_file ''sshd.pid'', a_file ''lock/'', dir [a_file ''file'']],
           a_file ''log/'', dir [a_file ''sshd.log'']]]]"

definition gen_data :: "int \<Rightarrow> (vtype \<times> pyv) list" where
  "gen_data seed =
     [(V_S64, VNum (I (next_of seed 0))), (V_S64, VNum (I (next_of seed 1))), (V_S64, VNum (I (next_of seed 2))),
      dir (list_data seed), dir dir_data]"

section \<open>Writing\<close>




text \<open>The set: its metrics, and whether it is between \<open>transaction_begin\<close> and \<open>transaction_end\<close>.\<close>

record mset =
  sx :: mobj
  sy :: mobj
  sz :: mobj
  slist :: "mobj list"
  sdir :: "mobj list"
  consistent :: bool


section \<open>Verifying\<close>

text \<open>\<open>bytes([m]).decode()\<close>, and \<open>tuple(v)\<close> as far as it can equal a tuple of numbers.\<close>

definition byte_text :: "pyv \<Rightarrow> pyv res" where
  "byte_text m =
     (case m of
        VNum (I n) \<Rightarrow>
          (if 0 \<le> n \<and> n < 128 then Inr (VStr [char_of (nat n)])
           else Inl (ValueError (if 0 \<le> n \<and> n < 256 then ''UnicodeDecodeError'' else ''bytes must be in range(0, 256)'')))
      | _ \<Rightarrow> Inl (TypeError ''bytes''))"

definition to_tuple :: "pyv \<Rightarrow> pyv res" where
  "to_tuple v =
     (case v of
        VTuple xs \<Rightarrow> Inr (VTuple xs) | VList xs \<Rightarrow> Inr (VTuple xs)
      | VStr s \<Rightarrow> Inr (if s = [] then VTuple [] else VStr s) | VData d \<Rightarrow> Inr (if d = [] then VTuple [] else VData d)
      | _ \<Rightarrow> Inl (TypeError ''not iterable''))"

definition got :: "mobj \<Rightarrow> pyv option" where
  "got m = (case m of MVal t x \<Rightarrow> Some x | MRaw x \<Rightarrow> Some x | _ \<Rightarrow> None)"

definition check :: "bool \<Rightarrow> unit res" where
  "check b = (if b then Inr () else Inl AssertionError)"

definition verify_char :: "mobj \<Rightarrow> pyv \<Rightarrow> unit res" where
  "verify_char m v =
     (case got m of None \<Rightarrow> Inl (TypeError ''bytes'') | Some x \<Rightarrow> bindE (byte_text x) (\<lambda>y. check (py_eq y v)))"

definition verify_plain :: "mobj \<Rightarrow> pyv \<Rightarrow> unit res" where
  "verify_plain m v =
     (case got m of
        None \<Rightarrow> Inl AssertionError
      | Some x \<Rightarrow> (case x of VTuple xs \<Rightarrow> bindE (to_tuple v) (\<lambda>w. check (py_eq x w)) | _ \<Rightarrow> check (py_eq x v)))"

function (sequential) verify_list :: "mobj list \<Rightarrow> (vtype \<times> pyv) list \<Rightarrow> unit res" where
  "verify_list (m # ms) ((t, v) # d) =
     bindE
       (if t = V_CHAR then verify_char m v
        else if t = V_LIST then
          (case m of
             MList l \<Rightarrow> (case v of VData e \<Rightarrow> verify_list l e | _ \<Rightarrow> Inl (TypeError ''zip''))
           | _ \<Rightarrow> Inl (TypeError ''not iterable''))
        else verify_plain m v)
       (\<lambda>_. verify_list ms d)"
| "verify_list ms d = Inr ()"
  by pat_completeness auto

termination by (relation "measure (\<lambda>(l, d). size_list (size_prod (\<lambda>_. 0) size) d)") auto

definition verify_value :: "vtype \<Rightarrow> mobj \<Rightarrow> pyv \<Rightarrow> unit res" where
  "verify_value t m v = verify_list [m] [(t, v)]"

definition items :: "mset \<Rightarrow> mobj list" where
  "items s = [sx s, sy s, sz s, MList (slist s), MList (sdir s)]"

definition verify_set :: "mset \<Rightarrow> (vtype \<times> pyv) list option \<Rightarrow> unit res" where
  "verify_set s data =
     (if \<not> consistent s then Inl (ValueError ''set is not consistent'')
      else (case data of
          Some d \<Rightarrow> verify_list (items s) d
        | None \<Rightarrow> (case got (sx s) of
              Some (VNum (I seed)) \<Rightarrow> verify_list (items s) (gen_data seed)
            | _ \<Rightarrow> Inl (TypeError ''seed''))))"

section \<open>What fits, what is held\<close>

text \<open>The integers of a type, of its elements for an array.\<close>

definition int_range :: "vtype \<Rightarrow> (int \<times> int) option" where
  "int_range t =
     (if t \<in> {V_U8, V_U8_ARRAY} then Some (0, 2 ^ 8 - 1) else if t \<in> {V_S8, V_S8_ARRAY} then Some (- (2 ^ 7), 2 ^ 7 - 1)
      else if t \<in> {V_U16, V_U16_ARRAY} then Some (0, 2 ^ 16 - 1) else if t \<in> {V_S16, V_S16_ARRAY} then Some (- (2 ^ 15), 2 ^ 15 - 1)
      else if t \<in> {V_U32, V_U32_ARRAY} then Some (0, 2 ^ 32 - 1) else if t \<in> {V_S32, V_S32_ARRAY} then Some (- (2 ^ 31), 2 ^ 31 - 1)
      else if t \<in> {V_U64, V_U64_ARRAY} then Some (0, 2 ^ 64 - 1) else if t \<in> {V_S64, V_S64_ARRAY} then Some (- (2 ^ 63), 2 ^ 63 - 1)
      else None)"

definition is_float :: "vtype \<Rightarrow> bool" where
  "is_float t \<longleftrightarrow> t \<in> {V_F32, V_D64, V_F32_ARRAY, V_D64_ARRAY}"

definition is_array :: "vtype \<Rightarrow> bool" where
  "is_array t \<longleftrightarrow> t \<in> {V_U8_ARRAY, V_S8_ARRAY, V_U16_ARRAY, V_S16_ARRAY, V_U32_ARRAY, V_S32_ARRAY, V_U64_ARRAY, V_S64_ARRAY, V_F32_ARRAY, V_D64_ARRAY}"

definition num_fits :: "vtype \<Rightarrow> num \<Rightarrow> bool" where
  "num_fits t n = (case int_range t of
     Some (lo, hi) \<Rightarrow> (case n of I i \<Rightarrow> lo \<le> i \<and> i \<le> hi | F r \<Rightarrow> False)
   | None \<Rightarrow> is_float t)"

definition fits :: "vtype \<Rightarrow> pyv \<Rightarrow> bool" where
  "fits t v = (case v of
     VNum n \<Rightarrow> \<not> is_array t \<and> num_fits t n
   | VStr s \<Rightarrow> t = V_CHAR_ARRAY \<or> (t = V_CHAR \<and> length s = 1 \<and> (of_char (hd s) :: nat) < 128)
   | VTuple xs \<Rightarrow> is_array t \<and> list_all (num_fits t) xs
   | VList xs \<Rightarrow> is_array t \<and> list_all (num_fits t) xs
   | _ \<Rightarrow> False)"

function (sequential) data_fits :: "(vtype \<times> pyv) list \<Rightarrow> bool" where
  "data_fits [] = True"
| "data_fits ((t, v) # d) =
     ((if t = V_LIST then (case v of VData e \<Rightarrow> data_fits e | _ \<Rightarrow> False) else fits t v) \<and> data_fits d)"
  by pat_completeness auto

termination by (relation "measure (size_list (size_prod (\<lambda>_. 0) size))") auto

text \<open>What a metric of type \<open>t\<close> shows when it holds \<open>v\<close>: a character as its code, sequences as tuples, floats as numbers of the same value.\<close>

definition shown :: "vtype \<Rightarrow> pyv \<Rightarrow> pyv \<Rightarrow> bool" where
  "shown t x v = (case v of
     VNum n \<Rightarrow> if is_float t then (\<exists>k. x = VNum k \<and> rat_of k = rat_of n) else x = VNum n
   | VStr s \<Rightarrow> if t = V_CHAR then (\<exists>c. s = [c] \<and> x = VNum (I (int (of_char c))) \<and> (of_char c :: nat) < 128) else x = VStr s
   | VTuple ys \<Rightarrow> (\<exists>xs. x = VTuple xs \<and> nums_eq xs ys)
   | VList ys \<Rightarrow> (\<exists>xs. x = VTuple xs \<and> nums_eq xs ys)
   | _ \<Rightarrow> False)"


text \<open>The list holds the data, entry by entry and of the same length.\<close>

function (sequential) holds :: "mobj list \<Rightarrow> (vtype \<times> pyv) list \<Rightarrow> bool" where
  "holds [] [] = True"
| "holds (m # ms) ((t, v) # d) =
     ((if t = V_LIST then (case m of MList l \<Rightarrow> (case v of VData e \<Rightarrow> holds l e | _ \<Rightarrow> False) | _ \<Rightarrow> False)
       else (case m of MVal t' x \<Rightarrow> t' = t \<and> shown t x v | _ \<Rightarrow> False)) \<and> holds ms d)"
| "holds _ _ = False"
  by pat_completeness auto

termination by (relation "measure (\<lambda>(l, d). size_list (size_prod (\<lambda>_. 0) size) d)") auto

lemma shown_verified:
  "shown V_CHAR x v \<Longrightarrow> fits V_CHAR v \<Longrightarrow> verify_char (MVal V_CHAR x) v = Inr ()"
  "t \<noteq> V_CHAR \<Longrightarrow> shown t x v \<Longrightarrow> verify_plain (MVal t x) v = Inr ()"
  by (auto simp: shown_def verify_char_def verify_plain_def got_def byte_text_def check_def py_eq_def to_tuple_def fits_def is_float_def is_array_def num_fits_def int_range_def
      split: pyv.splits if_splits num.splits)

lemma holds_verified: "holds l d \<Longrightarrow> data_fits d \<Longrightarrow> verify_list l d = Inr ()"
proof (induction l d rule: holds.induct)
  case (2 m ms t v d)
  show ?case
  proof (cases "t = V_LIST")
    case True
    with 2 show ?thesis by (auto split: mobj.splits pyv.splits)
  next
    case False
    with 2(3) obtain x where x: "m = MVal t x" "shown t x v" by (auto split: mobj.splits)
    with 2 False show ?thesis using shown_verified by (cases "t = V_CHAR") auto
  qed
qed simp_all



section \<open>Properties\<close>


definition set_holds :: "mset \<Rightarrow> int \<Rightarrow> bool" where
  "set_holds s i \<longleftrightarrow> consistent s \<and> holds (items s) (gen_data i)"

lemma next_of_simp: "next_of s k = s + int k"
  by (simp add: next_of_def)

lemma fits_simps:
  "fits t (VNum n) \<longleftrightarrow> \<not> is_array t \<and> num_fits t n"
  "fits t (VStr s) \<longleftrightarrow> t = V_CHAR_ARRAY \<or> (t = V_CHAR \<and> length s = 1 \<and> (of_char (hd s) :: nat) < 128)"
  by (simp_all add: fits_def)

lemma dir_data_fits: "data_fits dir_data"
  by (simp add: dir_data_def fits_def)

lemma three_fits: "fits t (three s k) \<longleftrightarrow> is_array t \<and> (\<forall>j \<in> {k, Suc k, Suc (Suc k)}. num_fits t (I (s + int j)))"
proof -
  have "[0..<3] = [0, 1, 2::nat]" by (simp add: upt_rec)
  then show ?thesis by (simp add: three_def fits_def next_of_simp add.commute)
qed

lemma data_in_range: "data_fits (gen_data seed) \<longleftrightarrow> - 4 \<le> seed \<and> seed \<le> 107"
proof -
  have c: "fits V_CHAR (VStr [[CHR ''a'', CHR ''b''] ! nat (next_of seed 3 mod 2)])"
  proof -
    have "nat (next_of seed 3 mod 2) < 2" by (simp add: nat_less_iff)
    then have "nat (next_of seed 3 mod 2) = 0 \<or> nat (next_of seed 3 mod 2) = 1" by linarith
    then show ?thesis by (auto simp: fits_def)
  qed
  have "data_fits (list_data seed) \<longleftrightarrow> - 4 \<le> seed \<and> seed \<le> 107"
    unfolding list_data_def Let_def using c
    by (auto simp: three_fits next_of_simp fits_simps num_fits_def int_range_def is_array_def is_float_def)
  then show ?thesis
    by (auto simp: gen_data_def dir_data_fits fits_simps num_fits_def int_range_def is_array_def next_of_simp)
qed




text \<open>
  The data fit. The values generated for the set fit their types exactly when the seed is
  between -4 and 107: one of the bytes of the list is negative below, and an element of the array of signed bytes is
  larger than 127 above.
\<close>

lemma gen_data_fits: "data_fits (gen_data seed) \<longleftrightarrow> - 4 \<le> seed \<and> seed \<le> 107"
  by (rule data_in_range)






text \<open>
  The comparison pairs the data with the entries that are there: a set whose lists are empty is accepted.
\<close>

lemma missing_entries_accepted:
  assumes "set_holds s i" "- 4 \<le> i" "i \<le> 107"
  shows "verify_set (s\<lparr>slist := [], sdir := []\<rparr>) None = Inr ()"
proof -
  have g: "got (sx s) = Some (VNum (I i))"
    using assms(1) by (auto simp: set_holds_def items_def gen_data_def shown_def is_float_def got_def next_of_simp split: mobj.splits)
  have d: "data_fits (gen_data i)" using assms(2,3) data_in_range by blast
  then have "holds [sx s, sy s, sz s] (take 3 (gen_data i))" "data_fits (take 3 (gen_data i))"
    using assms(1) by (auto simp: set_holds_def items_def gen_data_def)
  then have "verify_list [sx s, sy s, sz s] (take 3 (gen_data i)) = Inr ()" by (rule holds_verified)
  then have "verify_list [sx s, sy s, sz s, MList [], MList []] (gen_data i) = Inr ()" by (auto simp: gen_data_def res_simps)
  with g assms(1) show ?thesis by (simp add: verify_set_def items_def set_holds_def)
qed

end
