(* ===== verification/RecordData.thy ===== *)
theory RecordData
  imports ListData
begin

text \<open>
  \<open>python/record_common.py\<close>: the sampler of the record test. A set has a list and an array of record instances, whose
  fields take values that depend on the round and on the position of the record; the clients compare
  every field. What the LDMS library stores for a value is a parameter again.
\<close>

section \<open>The record and its values\<close>

definition ITEM_COUNT :: nat where
  "ITEM_COUNT = 3"

definition ARRAY_COUNT :: nat where
  "ARRAY_COUNT = 8"

definition REC_DEF :: "(string \<times> vtype \<times> nat) list" where
  "REC_DEF =
     [(''LDMS_V_CHAR'', V_CHAR, 1), (''LDMS_V_U8'', V_U8, 1), (''LDMS_V_S8'', V_S8, 1), (''LDMS_V_U16'', V_U16, 1), (''LDMS_V_S16'', V_S16, 1),
      (''LDMS_V_U32'', V_U32, 1), (''LDMS_V_S32'', V_S32, 1), (''LDMS_V_U64'', V_U64, 1), (''LDMS_V_S64'', V_S64, 1), (''LDMS_V_F32'', V_F32, 1),
      (''LDMS_V_D64'', V_D64, 1), (''LDMS_V_CHAR_ARRAY'', V_CHAR_ARRAY, ARRAY_COUNT), (''LDMS_V_U8_ARRAY'', V_U8_ARRAY, ARRAY_COUNT),
      (''LDMS_V_S8_ARRAY'', V_S8_ARRAY, ARRAY_COUNT), (''LDMS_V_U16_ARRAY'', V_U16_ARRAY, ARRAY_COUNT), (''LDMS_V_S16_ARRAY'', V_S16_ARRAY, ARRAY_COUNT),
      (''LDMS_V_U32_ARRAY'', V_U32_ARRAY, ARRAY_COUNT), (''LDMS_V_S32_ARRAY'', V_S32_ARRAY, ARRAY_COUNT), (''LDMS_V_U64_ARRAY'', V_U64_ARRAY, ARRAY_COUNT),
      (''LDMS_V_S64_ARRAY'', V_S64_ARRAY, ARRAY_COUNT), (''LDMS_V_F32_ARRAY'', V_F32_ARRAY, ARRAY_COUNT), (''LDMS_V_D64_ARRAY'', V_D64_ARRAY, ARRAY_COUNT)]"

definition rec_types :: "vtype list" where
  "rec_types = map (\<lambda>(n, t, c). t) REC_DEF"

definition ints :: "(int \<Rightarrow> int) \<Rightarrow> int \<Rightarrow> pyv" where
  "ints f i = VList (map (\<lambda>j. I (f (i + int j))) [0..<ARRAY_COUNT])"

definition floats :: "rat \<Rightarrow> int \<Rightarrow> pyv" where
  "floats r i = VList (map (\<lambda>j. F (r + of_int i + of_int (int j))) [0..<ARRAY_COUNT])"

text \<open>The table \<open>VAL\<close>; \<open>i & 0xFF\<close> of an integer is its rest modulo 256.\<close>

definition VAL :: "vtype \<Rightarrow> int \<Rightarrow> pyv res" where
  "VAL t i =
     (case t of
        V_CHAR \<Rightarrow> Inr (VStr [char_of (nat (97 + i mod 2))])
      | V_U8 \<Rightarrow> Inr (VNum (I (i mod 256))) | V_S8 \<Rightarrow> Inr (VNum (I (- (i mod 128))))
      | V_U16 \<Rightarrow> Inr (VNum (I (i + 1000))) | V_S16 \<Rightarrow> Inr (VNum (I (- (i + 1000))))
      | V_U32 \<Rightarrow> Inr (VNum (I (i + 100000))) | V_S32 \<Rightarrow> Inr (VNum (I (- (i + 100000))))
      | V_U64 \<Rightarrow> Inr (VNum (I (i + 200000))) | V_S64 \<Rightarrow> Inr (VNum (I (- (i + 200000))))
      | V_F32 \<Rightarrow> Inr (VNum (F (of_int i))) | V_D64 \<Rightarrow> Inr (VNum (F (of_int i)))
      | V_CHAR_ARRAY \<Rightarrow> Inr (VStr (''a_'' @ str_int i))
      | V_U8_ARRAY \<Rightarrow> Inr (ints (\<lambda>k. k mod 256) i) | V_S8_ARRAY \<Rightarrow> Inr (ints (\<lambda>k. - (k mod 128)) i)
      | V_U16_ARRAY \<Rightarrow> Inr (ints (\<lambda>k. 1000 + k) i) | V_S16_ARRAY \<Rightarrow> Inr (ints (\<lambda>k. - (1000 + k)) i)
      | V_U32_ARRAY \<Rightarrow> Inr (ints (\<lambda>k. 100000 + k) i) | V_S32_ARRAY \<Rightarrow> Inr (ints (\<lambda>k. - (100000 + k)) i)
      | V_U64_ARRAY \<Rightarrow> Inr (ints (\<lambda>k. 500000 + k) i) | V_S64_ARRAY \<Rightarrow> Inr (ints (\<lambda>k. - (500000 + k)) i)
      | V_F32_ARRAY \<Rightarrow> Inr (floats (1 / 2) i) | V_D64_ARRAY \<Rightarrow> Inr (floats (3 / 4) i)
      | _ \<Rightarrow> Inl (KeyError PNone))"

definition rec_data :: "int \<Rightarrow> (vtype \<times> pyv) list res" where
  "rec_data i = mapE (\<lambda>t. bindE (VAL t i) (\<lambda>v. Inr (t, v))) rec_types"

definition insts :: "int \<Rightarrow> (vtype \<times> pyv) list res" where
  "insts i = mapE (\<lambda>r. bindE (rec_data (i + int r)) (\<lambda>d. Inr (V_RECORD_INST, VData d))) [0..<ITEM_COUNT]"

definition gen_records :: "int \<Rightarrow> (vtype \<times> pyv) list res" where
  "gen_records rnd =
     bindE (insts rnd) (\<lambda>ls. bindE (insts (rnd + int ITEM_COUNT)) (\<lambda>as.
       Inr [(V_U64, VNum (I 0)), (V_U64, VNum (I 0)), (V_U64, VNum (I 0)), (V_U32, VNum (I rnd)), (V_RECORD_TYPE, VNone),
            (V_LIST, VData ls), (V_RECORD_ARRAY, VData as)]))"

section \<open>Writing\<close>





section \<open>Verifying\<close>





section \<open>What fits, what is held\<close>

text \<open>A text needs room for its terminator. Records, and data of a set, fit when all their fields do.\<close>

definition rfits :: "vtype \<Rightarrow> pyv \<Rightarrow> bool" where
  "rfits t v \<longleftrightarrow> fits t v \<and> (case v of VStr s \<Rightarrow> length s < ARRAY_COUNT | _ \<Rightarrow> True)"

definition inst_fits :: "vtype \<times> pyv \<Rightarrow> bool" where
  "inst_fits = (\<lambda>(t, v). t = V_RECORD_INST \<and> (case v of VData d \<Rightarrow> list_all (\<lambda>(t, v). rfits t v) d | _ \<Rightarrow> False))"

definition rdata_fits :: "(vtype \<times> pyv) list \<Rightarrow> bool" where
  "rdata_fits d = list_all (\<lambda>(t, v). case v of VData e \<Rightarrow> list_all inst_fits e | VNone \<Rightarrow> t = V_RECORD_TYPE | _ \<Rightarrow> rfits t v) d"



definition val_of :: "vtype \<Rightarrow> int \<Rightarrow> pyv" where
  "val_of t i = projr (VAL t i)"

lemma VAL_val: "t \<in> set rec_types \<Longrightarrow> VAL t i = Inr (val_of t i)"
  by (auto simp: rec_types_def REC_DEF_def VAL_def val_of_def)

lemma ints_fits: "fits t (ints f i) \<longleftrightarrow> is_array t \<and> (\<forall>j < ARRAY_COUNT. num_fits t (I (f (i + int j))))"
  by (auto simp: fits_def ints_def list_all_iff)

lemma char_val: "fits V_CHAR (VStr [char_of (nat (97 + i mod 2))])"
proof -
  have "0 \<le> i mod 2" "i mod 2 < 2" by simp_all
  then have "i mod 2 = 0 \<or> i mod 2 = 1" by linarith
  then have "nat (97 + i mod 2) = 97 \<or> nat (97 + i mod 2) = 98" by auto
  then show ?thesis by (auto simp: fits_simps)
qed

lemma below_array: "(\<forall>j < ARRAY_COUNT. P j) \<longleftrightarrow> P 0 \<and> P 1 \<and> P 2 \<and> P 3 \<and> P 4 \<and> P 5 \<and> P 6 \<and> P (7 :: nat)"
proof -
  have "{j. j < ARRAY_COUNT} = {0, 1, 2, 3, 4, 5, 6, 7}" by (auto simp: ARRAY_COUNT_def)
  then have "(\<forall>j \<in> {j. j < ARRAY_COUNT}. P j) = (\<forall>j \<in> {0, 1, 2, 3, 4, 5, 6, 7}. P j)" by simp
  then show ?thesis by simp
qed

lemma int_text_length: "- 1000 \<le> i \<Longrightarrow> i \<le> 31761 \<Longrightarrow> length (''a_'' @ str_int i) < ARRAY_COUNT"
proof -
  assume i: "- 1000 \<le> i" "i \<le> 31761"
  have "length (str_nat n) \<le> 4" if "n \<le> 1000" for n
    using digits_of_length [of 10 n 4] that by (simp add: str_nat_def)
  moreover have "length (str_nat n) \<le> 5" if "n \<le> 31761" for n
    using digits_of_length [of 10 n 5] that by (simp add: str_nat_def)
  ultimately have "length (str_int i) \<le> 5" using i by (simp add: str_int_def)
  then show ?thesis by (simp add: ARRAY_COUNT_def)
qed

definition record_fits :: "int \<Rightarrow> bool" where
  "record_fits i = list_all (\<lambda>t. rfits t (val_of t i)) rec_types"

lemma rfits_simps:
  "rfits t (VNum n) \<longleftrightarrow> fits t (VNum n)" "rfits t (VStr s) \<longleftrightarrow> fits t (VStr s) \<and> length s < ARRAY_COUNT"
  "rfits t (ints f i) \<longleftrightarrow> fits t (ints f i)" "rfits t (floats r i) \<longleftrightarrow> fits t (floats r i)"
  by (simp_all add: rfits_def ints_def floats_def)

lemma mod_fits:
  "num_fits V_U8 (I (k mod 256))" "num_fits V_U8_ARRAY (I (k mod 256))"
  "num_fits V_S8 (I (- (k mod 128)))" "num_fits V_S8_ARRAY (I (- (k mod 128)))"
proof -
  have "0 \<le> k mod 256" "k mod 256 < 256" "0 \<le> k mod 128" "k mod 128 < 128" by simp_all
  then have "k mod 256 \<le> 255" "k mod 128 \<le> 128" "- (k mod 128) \<le> 127" by linarith+
  then show "num_fits V_U8 (I (k mod 256))" "num_fits V_U8_ARRAY (I (k mod 256))"
    "num_fits V_S8 (I (- (k mod 128)))" "num_fits V_S8_ARRAY (I (- (k mod 128)))"
    by (simp_all add: num_fits_def int_range_def)
qed

lemma floats_fit: "t \<in> {V_F32_ARRAY, V_D64_ARRAY} \<Longrightarrow> fits t (floats r i)"
  by (auto simp: floats_def fits_def num_fits_def int_range_def is_array_def is_float_def list_all_iff)

lemma record_fits_iff: "record_fits i \<longleftrightarrow> - 1000 \<le> i \<and> i \<le> 31761"
proof
  assume "record_fits i"
  then have "rfits V_U16 (val_of V_U16 i)" "rfits V_S16_ARRAY (val_of V_S16_ARRAY i)"
    by (simp_all add: record_fits_def rec_types_def REC_DEF_def)
  then show "- 1000 \<le> i \<and> i \<le> 31761"
    by (simp add: rfits_simps val_of_def VAL_def ints_fits below_array fits_simps num_fits_def int_range_def)
next
  assume i: "- 1000 \<le> i \<and> i \<le> 31761"
  then have l: "length (''a_'' @ str_int i) < ARRAY_COUNT" using int_text_length by blast
  have c: "rfits V_CHAR (VStr [char_of (nat (97 + i mod 2))])" using char_val [of i] by (simp add: rfits_simps ARRAY_COUNT_def)
  show "record_fits i"
    unfolding record_fits_def rec_types_def REC_DEF_def using i c l
    by (simp add: val_of_def VAL_def rfits_simps ints_fits below_array mod_fits floats_fit fits_simps is_array_def)
      (simp add: num_fits_def int_range_def is_float_def)
qed

section \<open>Filling and checking records\<close>




lemma rec_data_is: "rec_data i = Inr (map (\<lambda>t. (t, val_of t i)) rec_types)"
  unfolding rec_data_def by (rule mapE_Inr_map) (simp add: VAL_val)







section \<open>Sets\<close>

abbreviation inst_data :: "int \<Rightarrow> vtype \<times> pyv" where
  "inst_data i \<equiv> (V_RECORD_INST, VData (map (\<lambda>t. (t, val_of t i)) rec_types))"

lemma insts_is: "insts i = Inr (map (\<lambda>r. inst_data (i + int r)) [0..<ITEM_COUNT])"
  unfolding insts_def by (rule mapE_Inr_map) (simp add: rec_data_is)

lemma gen_records_is:
  "gen_records rnd = Inr
     [(V_U64, VNum (I 0)), (V_U64, VNum (I 0)), (V_U64, VNum (I 0)), (V_U32, VNum (I rnd)), (V_RECORD_TYPE, VNone),
      (V_LIST, VData (map (\<lambda>r. inst_data (rnd + int r)) [0..<ITEM_COUNT])),
      (V_RECORD_ARRAY, VData (map (\<lambda>r. inst_data (rnd + int ITEM_COUNT + int r)) [0..<ITEM_COUNT]))]"
  by (simp add: gen_records_def insts_is)

lemma inst_data_fits: "inst_fits (inst_data i) \<longleftrightarrow> - 1000 \<le> i \<and> i \<le> 31761"
  using record_fits_iff [of i] by (simp add: inst_fits_def record_fits_def list_all_iff)

text \<open>
  The records fit. All values that are generated for a round fit the types of their metrics exactly in the
  rounds 0 to 31756: after that an element of the array of signed 16 bit integers of the last record is too small.
\<close>

lemma record_data_fits: "\<exists>d. gen_records rnd = Inr d \<and> (rdata_fits d \<longleftrightarrow> 0 \<le> rnd \<and> rnd \<le> 31756)"
proof -
  have u: "[0..<3] = [0, 1, 2::nat]" by (simp add: upt_rec)
  show ?thesis
    by (auto simp: gen_records_is rdata_fits_def u inst_data_fits ITEM_COUNT_def rfits_simps fits_simps num_fits_def int_range_def is_array_def)
qed












end
