(* ===== verification/DirList.thy ===== *)
theory DirList
  imports Prelude
begin

text \<open>
  \<open>class DirMetricList\<close> and \<open>print_list\<close> of \<open>python/list_common.py\<close>: a view of a metric list as a directory, in which a
  name is followed by the list of its entries when it is a directory. The view and the list of the LDMS
  library are two objects; deleting an entry changes both.
\<close>

section \<open>Lists and views\<close>

text \<open>The elements of a metric list, with their identities: a text, or a list.\<close>

datatype mtree = Name nat string | Sub nat "mtree list"

fun ident :: "mtree \<Rightarrow> nat" where
  "ident (Name i s) = i"
| "ident (Sub l xs) = l"

text \<open>The values of \<open>dlist\<close>: a metric value, or the view of a list: its \<open>name_val\<close>, its \<open>mlist\<close> and its own \<open>dlist\<close>.\<close>

datatype dval = DName nat string | DDir nat string nat "(string \<times> dval) list"

definition keep_prev :: "(nat \<times> string) option \<Rightarrow> dval dict \<Rightarrow> dval dict" where
  "keep_prev prev dl = (case prev of None \<Rightarrow> dl | Some (i, s) \<Rightarrow> dset s (DName i s) dl)"

fun build_loop :: "(nat \<times> string) option \<Rightarrow> mtree list \<Rightarrow> dval dict \<Rightarrow> dval dict res" where
  "build_loop prev [] dl = Inr (keep_prev prev dl)"
| "build_loop prev (Name i s # xs) dl = build_loop (Some (i, s)) xs (keep_prev prev dl)"
| "build_loop prev (Sub l ys # xs) dl =
     (case prev of
        None \<Rightarrow> Inl AssertionError
      | Some (i, s) \<Rightarrow> bindE (build_loop None ys []) (\<lambda>e. build_loop None xs (dset s (DDir i s l e) dl)))"

definition dir_view :: "mtree list \<Rightarrow> dval dict res" where
  "dir_view xs = build_loop None xs []"

definition getitem :: "dval dict \<Rightarrow> string \<Rightarrow> dval res" where
  "getitem dl k = dindex dl k"

section \<open>Deleting\<close>

text \<open>
  The calls \<open>mlist.delete(x)\<close> as pairs of list and element. The keys of a view are distinct, so that deleting them one
  after the other deletes every value.
\<close>

fun delete_value :: "nat \<Rightarrow> dval \<Rightarrow> (nat \<times> nat) list" where
  "delete_value l (DName i s) = [(l, i)]"
| "delete_value l (DDir i s l' e) = concat (map (\<lambda>(k, v). delete_value l' v) e) @ [(l, l'), (l, i)]"

definition delete :: "nat \<Rightarrow> dval dict \<Rightarrow> string \<Rightarrow> (dval dict \<times> (nat \<times> nat) list) res" where
  "delete l dl key = bindE (dindex dl key) (\<lambda>m. Inr (dpop key dl, delete_value l m))"

section \<open>Printing\<close>

text \<open>The lines, and whether they go to \<open>_file\<close>: those with the braces do not.\<close>

fun print_list :: "nat \<Rightarrow> mtree list \<Rightarrow> (bool \<times> string) list" where
  "print_list indent l =
     (let spc = replicate (indent - 1) CHR '' '' in
      (False, spc @ '' {'') #
      concat (map (\<lambda>v. case v of Sub i xs \<Rightarrow> print_list (indent + 2) xs | Name i s \<Rightarrow> [(True, spc @ '' '' @ s)]) l) @
      [(False, spc @ '' }'')])"

definition dir_str :: "mtree list \<Rightarrow> string" where
  "dir_str l = concat (map (\<lambda>(f, s). if f then s @ nl else []) (print_list 4 l))"

section \<open>Directories\<close>

text \<open>What the list of a directory looks like, and the documented behaviour of the library: a list loses the element.\<close>

datatype entry = EFile nat string | EDir nat string nat "entry list"

fun ename :: "entry \<Rightarrow> string" where
  "ename (EFile i s) = s"
| "ename (EDir i s l es) = s"

fun flat1 :: "entry \<Rightarrow> mtree list" where
  "flat1 (EFile i s) = [Name i s]"
| "flat1 (EDir i s l es) = [Name i s, Sub l (concat (map flat1 es))]"

abbreviation flat :: "entry list \<Rightarrow> mtree list" where
  "flat es \<equiv> concat (map flat1 es)"

fun view1 :: "entry \<Rightarrow> dval" where
  "view1 (EFile i s) = DName i s"
| "view1 (EDir i s l es) = DDir i s l (map (\<lambda>e. (ename e, view1 e)) es)"

abbreviation view :: "entry list \<Rightarrow> dval dict" where
  "view es \<equiv> map (\<lambda>e. (ename e, view1 e)) es"

fun named1 :: "entry \<Rightarrow> bool" where
  "named1 (EFile i s) = True"
| "named1 (EDir i s l es) = (distinct (map ename es) \<and> (\<forall>e \<in> set es. named1 e))"

definition named :: "entry list \<Rightarrow> bool" where
  "named es \<longleftrightarrow> distinct (map ename es) \<and> (\<forall>e \<in> set es. named1 e)"

fun idents :: "entry \<Rightarrow> nat list" where
  "idents (EFile i s) = [i]"
| "idents (EDir i s l es) = i # l # concat (map idents es)"

fun del1 :: "nat \<times> nat \<Rightarrow> mtree \<Rightarrow> mtree" where
  "del1 c (Name i s) = Name i s"
| "del1 c (Sub r xs) = Sub r (filter (\<lambda>x. fst c = r \<longrightarrow> ident x \<noteq> snd c) (map (del1 c) xs))"

lemma flat_start: "flat es = [] \<or> (\<exists>i s xs. flat es = Name i s # xs)"
proof (cases es)
  case (Cons e es')
  then show ?thesis by (cases e) auto
qed simp

lemma build_prev: "build_loop (Some p) (flat es) dl = build_loop None (flat es) (keep_prev (Some p) dl)"
  using flat_start [of es] by (elim disjE exE) (simp_all only: build_loop.simps keep_prev_def option.case)

lemma build_flat:
  "named es \<Longrightarrow> \<forall>e \<in> set es. ename e \<notin> set (dkeys d) \<Longrightarrow> build_loop None (flat es) d = Inr (d @ view es)"
proof (induction es arbitrary: d rule: measure_induct_rule [of "size_list size"])
  case (less es)
  show ?case
  proof (cases es)
    case Nil
    then show ?thesis by (simp add: keep_prev_def)
  next
    case (Cons e fs)
    have fs: "named fs" "\<forall>f \<in> set fs. ename f \<noteq> ename e" "size_list size fs < size_list size es" using less.prems(1) by (auto simp: Cons named_def image_iff)
    have d: "dset (ename e) v d = d @ [(ename e, v)]" for v using less.prems(2) by (intro dset_new) (simp add: Cons)
    have IH: "build_loop None (flat fs) (d @ [(ename e, v)]) = Inr ((d @ [(ename e, v)]) @ view fs)" for v
      using less.prems(2) fs by (intro less.IH) (auto simp: Cons)
    show ?thesis
    proof (cases e)
      case (EFile i s)
      with IH d show ?thesis by (simp add: Cons build_prev keep_prev_def)
    next
      case (EDir i s l es')
      have "named es'" using less.prems(1) by (simp add: Cons EDir named_def)
      then have "build_loop None (flat es') [] = Inr (view es')" using less.IH [of es' "[]"] by (simp add: Cons EDir)
      with IH d show ?thesis by (simp add: Cons EDir keep_prev_def)
    qed
  qed
qed

lemma view_built: "named es \<Longrightarrow> dir_view (flat es) = Inr (view es)"
  using build_flat [of es "[]"] by (simp add: dir_view_def)

section \<open>Deleting keeps the view in step\<close>

text \<open>The lists of a tree; calls on other lists change nothing.\<close>

fun lists :: "mtree \<Rightarrow> nat set" where
  "lists (Name i s) = {}"
| "lists (Sub l xs) = insert l (\<Union>x \<in> set xs. lists x)"

lemma ident_del1 [simp]: "ident (del1 c x) = ident x"
  by (cases x) auto

lemma del1_other: "fst c \<notin> lists x \<Longrightarrow> del1 c x = x"
proof (induction x rule: mtree.induct)
  case (Sub l xs)
  then have "map (del1 c) xs = xs" by (intro map_idI) auto
  with Sub.prems show ?case by simp
qed simp

lemma dels_other: "\<forall>c \<in> set cs. fst c \<notin> lists x \<Longrightarrow> fold del1 cs x = x"
  by (induction cs) (simp_all add: del1_other)

fun entry_lists :: "entry \<Rightarrow> nat set" where
  "entry_lists (EFile i s) = {}"
| "entry_lists (EDir i s l es) = insert l (\<Union>e \<in> set es. entry_lists e)"

lemma flat1_lists: "(\<Union>x \<in> set (flat1 e). lists x) = entry_lists e"
  by (induction e rule: entry.induct) auto

lemma flat_lists: "(\<Union>x \<in> set (flat es). lists x) = (\<Union>e \<in> set es. entry_lists e)"
  using flat1_lists by (induction es) auto

lemma delete_calls: "c \<in> set (delete_value l (view1 e)) \<Longrightarrow> fst c = l \<or> fst c \<in> entry_lists e"
proof (induction e arbitrary: l rule: entry.induct)
  case (EDir i s l' es)
  then show ?case by force
qed auto

lemma entry_lists_idents: "entry_lists e \<subseteq> set (idents e)"
  by (induction e rule: entry.induct) force+

lemma flat1_idents: "x \<in> set (flat1 e) \<Longrightarrow> ident x \<in> set (idents e)"
  by (cases e) auto

text \<open>All calls but the last two of an entry work inside its list.\<close>

lemma dels_inside:
  assumes "r \<notin> L" "\<forall>c \<in> set cs. fst c \<in> L" "\<forall>x \<in> set (A @ B). lists x \<inter> L = {}"
  shows "\<exists>Z. fold del1 cs (Sub r (A @ [N, Sub l Y] @ B)) = Sub r (A @ [fold del1 cs N, Sub l Z] @ B)"
  using assms(2)
proof (induction cs arbitrary: N Y)
  case (Cons c cs)
  have "map (del1 c) A = A" "map (del1 c) B = B"
    using assms(3) Cons.prems by (auto intro!: map_idI del1_other)
  moreover have "fst c \<noteq> r" using assms(1) Cons.prems by auto
  moreover obtain Y' where "del1 c (Sub l Y) = Sub l Y'" by simp
  ultimately have "del1 c (Sub r (A @ [N, Sub l Y] @ B)) = Sub r (A @ [del1 c N, Sub l Y'] @ B)" by simp
  with Cons.IH [of "del1 c N" Y'] Cons.prems show ?case by simp
qed auto

lemma delete_entry:
  assumes "distinct (r # concat (map idents (as @ e # bs)))"
  shows "fold del1 (delete_value r (view1 e)) (Sub r (flat (as @ e # bs))) = Sub r (flat (as @ bs))"
proof -
  let ?ab = "as @ bs"
  have dj: "set (idents x) \<inter> set (idents e) = {}" if "x \<in> set ?ab" for x using assms that by auto
  have r: "r \<notin> set (idents x)" if "x \<in> set (as @ e # bs)" for x using assms that by auto
  have other: "ident y \<notin> set (idents e)" "lists y \<inter> entry_lists e = {}" "r \<notin> lists y" if y: "y \<in> set (flat ?ab)" for y
  proof -
    obtain x where x: "x \<in> set ?ab" "y \<in> set (flat1 x)" using y by auto
    have "lists y \<subseteq> set (idents x)" using x(2) flat1_lists [of x] entry_lists_idents [of x] by blast
    then show "ident y \<notin> set (idents e)" "lists y \<inter> entry_lists e = {}" "r \<notin> lists y"
      using dj [OF x(1)] r [of x] x flat1_idents [OF x(2)] entry_lists_idents [of e] by auto
  qed
  have keep: "map (del1 (r, i)) A = A" "filter (\<lambda>x. ident x \<noteq> i) A = A" if "i \<in> set (idents e)" "set A \<subseteq> set (flat ?ab)" for i A
  proof -
    have "ident x \<noteq> i \<and> r \<notin> lists x" if "x \<in> set A" for x
    proof -
      have x: "x \<in> set (flat ?ab)" using \<open>set A \<subseteq> set (flat ?ab)\<close> that by (rule subsetD)
      show ?thesis using other(1,3) [OF x] \<open>i \<in> set (idents e)\<close> by auto
    qed
    then show "map (del1 (r, i)) A = A" "filter (\<lambda>x. ident x \<noteq> i) A = A"
      by (auto intro!: map_idI del1_other filter_True)
  qed
  show ?thesis
  proof (cases e)
    case (EFile i s)
    then have "i \<in> set (idents e)" by simp
    from keep [OF this, of "flat as"] keep [OF this, of "flat bs"] show ?thesis by (simp add: EFile)
  next
    case (EDir i s l es)
    have i: "i \<in> set (idents e)" "l \<in> set (idents e)" "i \<noteq> l" using assms by (auto simp: EDir)
    have rl: "r \<notin> entry_lists e" using r [of e] entry_lists_idents [of e] by auto
    let ?cs = "concat (map (\<lambda>(k, v). delete_value l v) (view es))"
    have cs: "\<forall>c \<in> set ?cs. fst c \<in> entry_lists e" using delete_calls by (fastforce simp: EDir)
    have "\<forall>x \<in> set (flat as @ flat bs). lists x \<inter> entry_lists e = {}" using other(2) by auto
    from dels_inside [OF rl cs this, of "Name i s" l "flat es"] obtain Z where
      "fold del1 ?cs (Sub r (flat as @ [Name i s, Sub l (flat es)] @ flat bs)) = Sub r (flat as @ [fold del1 ?cs (Name i s), Sub l Z] @ flat bs)" by blast
    moreover have "fold del1 ?cs (Name i s) = Name i s" by (rule dels_other) simp
    ultimately have "fold del1 ?cs (Sub r (flat (as @ e # bs))) = Sub r (flat as @ [Name i s, Sub l Z] @ flat bs)" by (simp add: EDir)
    moreover have "del1 (r, l) (Sub r (flat as @ [Name i s, Sub l Z] @ flat bs)) = Sub r (flat as @ [Name i s] @ flat bs)"
      using keep [OF i(2), of "flat as"] keep [OF i(2), of "flat bs"] i(3) by simp
    moreover have "del1 (r, i) (Sub r (flat as @ [Name i s] @ flat bs)) = Sub r (flat (as @ bs))"
      using keep [OF i(1), of "flat as"] keep [OF i(1), of "flat bs"] by simp
    ultimately show ?thesis by (simp add: EDir)
  qed
qed

lemma delete_all:
  "distinct (r # concat (map idents es)) \<Longrightarrow> fold del1 (concat (map (\<lambda>(k, v). delete_value r v) (view es))) (Sub r (flat es)) = Sub r []"
proof (induction es)
  case (Cons e es)
  have "fold del1 (delete_value r (view1 e)) (Sub r (flat (e # es))) = Sub r (flat es)"
    using delete_entry [of r "[]" e es] Cons.prems by simp
  with Cons show ?case by simp
qed simp

lemma named_parts: "named (as @ e # bs) \<Longrightarrow> named (as @ bs) \<and> ename e \<notin> set (map ename (as @ bs))"
  by (auto simp: named_def)

section \<open>Properties\<close>

text \<open>
  C26: a view stays in step with its list. In a directory whose entries have distinct names, deleting an entry
  by its name, which changes the view and makes a sequence of calls on the list and the lists below
  it, leaves the list without exactly that entry (and, for a directory, its contents), and the view is
  the one that would be made from the list now. Names that are not there raise, and nothing is deleted.
\<close>

theorem view_in_step:
  assumes "named es" "distinct (r # concat (map idents es))"
  shows "\<exists>dl. dir_view (flat es) = Inr dl \<and>
    (if s \<in> set (map ename es)
     then (\<exists>dl' cs. delete r dl s = Inr (dl', cs) \<and> fold del1 cs (Sub r (flat es)) = Sub r (flat (filter (\<lambda>e. ename e \<noteq> s) es)) \<and>
       dir_view (flat (filter (\<lambda>e. ename e \<noteq> s) es)) = Inr dl')
     else delete r dl s = Inl (KeyError (PStr s)))"
proof (cases "s \<in> set (map ename es)")
  case False
  then have "dget (view es) s = None" by (simp add: map_of_eq_None_iff comp_def image_iff)
  with False view_built [OF assms(1)] show ?thesis by (auto simp: delete_def dindex_def)
next
  case True
  then obtain e where e: "e \<in> set es" "ename e = s" by auto
  then obtain as bs where es: "es = as @ e # bs" by (meson split_list)
  have n: "named (as @ bs)" "ename e \<notin> set (map ename (as @ bs))" using named_parts assms(1) by (auto simp: es)
  have other: "\<forall>x \<in> set (as @ bs). ename x \<noteq> s" using n(2) unfolding e(2) set_map by (metis imageI)
  have id: "filter (\<lambda>e. ename e \<noteq> s) xs = xs" if "set xs \<subseteq> set (as @ bs)" for xs
    using that other by (intro filter_True) blast
  have f: "filter (\<lambda>e. ename e \<noteq> s) es = as @ bs" using id [of as] id [of bs] e(2) by (simp add: es)
  have "dget (view as) s = None" using other by (auto simp: map_of_eq_None_iff)
  then have "dget (view es) s = Some (view1 e)" using e(2) by (simp add: es map_add_def)
  moreover have "dpop s (view es) = view (as @ bs)"
    using id [of as] id [of bs] e(2) by (simp add: es dpop_def filter_map comp_def)
  ultimately have "delete r (view es) s = Inr (view (as @ bs), delete_value r (view1 e))" by (simp add: delete_def dindex_def)
  with True view_built [OF assms(1)] view_built [OF n(1)] delete_entry [of r as e bs] assms(2) show ?thesis
    unfolding f by (simp add: es)
qed

definition demo_dir :: "entry list" where
  "demo_dir = [EFile 1 ''bash'', EDir 2 ''run/'' 3 [EFile 4 ''pid'', EDir 5 ''lock/'' 6 [EFile 7 ''file'']], EFile 8 ''log'']"

theorem view_in_step_witness:
  "\<exists>dl dl' cs. dir_view (flat demo_dir) = Inr dl \<and> delete 0 dl ''run/'' = Inr (dl', cs) \<and>
    fold del1 cs (Sub 0 (flat demo_dir)) = Sub 0 [Name 1 ''bash'', Name 8 ''log'']"
proof -
  have "named demo_dir" "distinct (0 # concat (map idents demo_dir))" by (simp_all add: named_def demo_dir_def)
  from view_in_step [OF this, of "''run/''"] show ?thesis by (auto simp: demo_dir_def)
qed

text \<open>The braces are printed to the standard output, not to \<open>_file\<close>: the text of a view has none.\<close>

lemma braces_lost: "(f, t) \<in> set (print_list n [Name i s]) \<Longrightarrow> f \<Longrightarrow> t = replicate (n - 1) CHR '' '' @ '' '' @ s"
  by (auto simp: Let_def)

end
