(* ===== verification/StreamCheck.thy ===== *)
theory StreamCheck
  imports Prelude
begin

text \<open>
  The programs that compare what a stream subscriber has written with what was published:
  \<open>python/stream_check.py\<close>, \<open>python/test_stream_sampler_check.py\<close>, \<open>python/subscriber_output_check.py\<close>. They read the output
  from the start, one message after the other; a file is the text that reading it gives. The JSON
  parser, the equality of its objects (\<open>==\<close>, which a NaN does not satisfy with itself) and its value of
  \<open>null\<close>, Python's \<open>None\<close>, are parameters.
\<close>

section \<open>Readers\<close>

text \<open>A message: its type, its text, and the object of a JSON message. Readers give a message and the rest of the file.\<close>

type_synonym 'j smsg = "string \<times> string \<times> 'j"

definition with_obj :: "(string \<Rightarrow> 'j res) \<Rightarrow> 'j \<Rightarrow> string \<Rightarrow> string \<Rightarrow> 'j smsg res" where
  "with_obj loads null ty text = (if ty = ''json'' then bindE (loads text) (\<lambda>ob. Inr (ty, text, ob)) else Inr (ty, text, null))"

text \<open>The header: a start mark, the type, a mark.\<close>

definition read_header :: "string \<Rightarrow> (string \<times> string) res" where
  "read_header f =
     (case f of
        [] \<Rightarrow> Inl (RuntimeError ''End of file'')
      | c # f1 \<Rightarrow>
          if c \<noteq> CHR 0x01 then Inl (RuntimeError ''not a start of message'')
          else (case dropWhile (\<lambda>x. x \<noteq> CHR 0x02) f1 of
              [] \<Rightarrow> Inl (RuntimeError ''Bad message header'')
            | _ # f2 \<Rightarrow> Inr (takeWhile (\<lambda>x. x \<noteq> CHR 0x02) f1, f2)))"

text \<open>\<open>stream_check\<close>: the text has the length of the input, and a zero byte may follow it.\<close>

definition read_sized :: "(string \<Rightarrow> 'j res) \<Rightarrow> 'j \<Rightarrow> string \<Rightarrow> string \<Rightarrow> ('j smsg \<times> string) res" where
  "read_sized loads null in_str f =
     bindE (read_header f) (\<lambda>(ty, f2).
       let text = take (length in_str) f2; f3 = drop (length in_str) f2;
           f4 = (case f3 of c # r \<Rightarrow> if c = CHR 0x00 then r else f3 | [] \<Rightarrow> []) in
       if length text \<noteq> length in_str then Inl (RuntimeError ''Expect more data'')
       else (case f4 of
           c # g \<Rightarrow> if c = CHR 0x03 then bindE (with_obj loads null ty text) (\<lambda>m. Inr (m, g)) else Inl (RuntimeError ''incomplete message'')
         | [] \<Rightarrow> Inl (RuntimeError ''incomplete message'')))"

text \<open>\<open>test_stream_sampler_check\<close>: the text goes up to the end mark; zero bytes around it are dropped.\<close>

definition read_marked :: "(string \<Rightarrow> 'j res) \<Rightarrow> 'j \<Rightarrow> string \<Rightarrow> ('j smsg \<times> string) res" where
  "read_marked loads null f =
     bindE (read_header f) (\<lambda>(ty, f2).
       case dropWhile (\<lambda>x. x \<noteq> CHR 0x03) f2 of
         [] \<Rightarrow> Inl (RuntimeError ''incomplete message'')
       | _ # g \<Rightarrow> bindE (with_obj loads null ty (strip_by (\<lambda>x. x = CHR 0x00) (takeWhile (\<lambda>x. x \<noteq> CHR 0x03) f2))) (\<lambda>m. Inr (m, g)))"

text \<open>\<open>subscriber_output_check\<close>: the lead, the input, the end.\<close>

definition LEAD_FMT :: "string \<Rightarrow> nat \<Rightarrow> string" where
  "LEAD_FMT t n = ''EVENT:{'' @ [CHR 0x22] @ ''type'' @ [CHR 0x22] @ '':'' @ [CHR 0x22] @ t @ [CHR 0x22] @ '','' @ [CHR 0x22] @ ''size'' @ [CHR 0x22] @ '':'' @
     str_nat n @ '','' @ [CHR 0x22] @ ''event'' @ [CHR 0x22] @ '':''"

fun consume_parts :: "string list \<Rightarrow> string \<Rightarrow> (unit \<times> string) res" where
  "consume_parts [] f = Inr ((), f)"
| "consume_parts (p # ps) f =
     (if length (take (length p) f) \<noteq> length p then Inl (RuntimeError ''Expecting more data, but EOF is reached.'')
      else if take (length p) f \<noteq> p then Inl AssertionError
      else consume_parts ps (drop (length p) f))"

definition consume :: "string \<Rightarrow> string \<Rightarrow> string \<Rightarrow> (unit \<times> string) res" where
  "consume e lead f = consume_parts [lead, e, [CHR 0x7D, CHR 0x0A]] f"

section \<open>The programs\<close>

fun check_loop :: "(string \<Rightarrow> ('m \<times> string) res) \<Rightarrow> ('m \<Rightarrow> unit res) \<Rightarrow> nat \<Rightarrow> string \<Rightarrow> string res" where
  "check_loop rd chk 0 f = Inr f"
| "check_loop rd chk (Suc n) f = bindE (rd f) (\<lambda>(m, g). bindE (chk m) (\<lambda>_. check_loop rd chk n g))"

definition depleted :: "string \<Rightarrow> unit res" where
  "depleted f = (if f = [] then Inr () else Inl (RuntimeError ''output file has more data than expected.''))"

definition same_msg :: "(string \<Rightarrow> 'j res) \<Rightarrow> ('j \<Rightarrow> 'j \<Rightarrow> bool) \<Rightarrow> 'j \<Rightarrow> string \<Rightarrow> 'j smsg \<Rightarrow> unit res" where
  "same_msg loads eq null in_str = (\<lambda>(ty, text, obj).
     let in_obj = (case loads in_str of Inr x \<Rightarrow> x | Inl _ \<Rightarrow> null) in
     if ty = ''json'' \<and> \<not> eq in_obj obj then Inl (RuntimeError ''out_obj != in_obj'')
     else if ty = ''string'' \<and> in_str \<noteq> text then Inl (RuntimeError ''out_str != in_str'')
     else Inr ())"

text \<open>A negative count reads nothing.\<close>

definition stream_check :: "(string \<Rightarrow> 'j res) \<Rightarrow> ('j \<Rightarrow> 'j \<Rightarrow> bool) \<Rightarrow> 'j \<Rightarrow> string \<Rightarrow> string \<Rightarrow> int \<Rightarrow> unit res" where
  "stream_check loads eq null in_str out cnt =
     bindE (check_loop (read_sized loads null in_str) (same_msg loads eq null in_str) (nat cnt) out) depleted"

definition sampler_check :: "(string \<Rightarrow> 'j res) \<Rightarrow> ('j \<Rightarrow> 'j \<Rightarrow> bool) \<Rightarrow> 'j \<Rightarrow> string \<Rightarrow> string \<Rightarrow> int \<Rightarrow> unit res" where
  "sampler_check loads eq null in_str out cnt =
     bindE (check_loop (read_marked loads null) (same_msg loads eq null in_str) (nat cnt) out) depleted"

definition subscriber_check :: "string \<Rightarrow> string \<Rightarrow> string \<Rightarrow> int \<Rightarrow> unit res" where
  "subscriber_check t in_str out cnt =
     bindE (check_loop (consume in_str (LEAD_FMT t (length in_str + 1))) (\<lambda>_. Inr ()) (nat cnt) out) depleted"

section \<open>Exact readers\<close>

text \<open>The contract of a reader: it takes exactly the texts of a message off the front.\<close>

locale frame_reader =
  fixes rd :: "string \<Rightarrow> ('m \<times> string) res" and frame :: "'m \<Rightarrow> string \<Rightarrow> bool"
  assumes exact: "rd f = Inr (m, g) \<longleftrightarrow> (\<exists>s. frame m s \<and> f = s @ g)"
begin

lemma loop_exact:
  "check_loop rd chk n f = Inr g \<longleftrightarrow>
    (\<exists>ms ss. length ms = n \<and> list_all2 frame ms ss \<and> f = concat ss @ g \<and> (\<forall>m \<in> set ms. chk m = Inr ()))"
proof (induction n arbitrary: f)
  case 0
  show ?case by auto
next
  case (Suc n)
  have "check_loop rd chk (Suc n) f = Inr g \<longleftrightarrow> (\<exists>m h. rd f = Inr (m, h) \<and> chk m = Inr () \<and> check_loop rd chk n h = Inr g)"
    by (auto simp: res_simps)
  also have "\<dots> \<longleftrightarrow> (\<exists>m h s ms ss. frame m s \<and> f = s @ h \<and> chk m = Inr () \<and> length ms = n \<and> list_all2 frame ms ss \<and>
      h = concat ss @ g \<and> (\<forall>m \<in> set ms. chk m = Inr ()))"
    unfolding exact Suc by blast
  also have "\<dots> \<longleftrightarrow> (\<exists>ms ss. length ms = Suc n \<and> list_all2 frame ms ss \<and> f = concat ss @ g \<and> (\<forall>m \<in> set ms. chk m = Inr ()))"
  proof
    assume "\<exists>m h s ms ss. frame m s \<and> f = s @ h \<and> chk m = Inr () \<and> length ms = n \<and> list_all2 frame ms ss \<and>
      h = concat ss @ g \<and> (\<forall>m \<in> set ms. chk m = Inr ())"
    then obtain m s ms ss where "frame m s" "f = s @ concat ss @ g" "chk m = Inr ()" "length ms = n" "list_all2 frame ms ss"
      "\<forall>m \<in> set ms. chk m = Inr ()" by blast
    then show "\<exists>ms ss. length ms = Suc n \<and> list_all2 frame ms ss \<and> f = concat ss @ g \<and> (\<forall>m \<in> set ms. chk m = Inr ())"
      by (intro exI [of _ "m # ms"] exI [of _ "s # ss"]) simp
  next
    assume "\<exists>ms ss. length ms = Suc n \<and> list_all2 frame ms ss \<and> f = concat ss @ g \<and> (\<forall>m \<in> set ms. chk m = Inr ())"
    then show "\<exists>m h s ms ss. frame m s \<and> f = s @ h \<and> chk m = Inr () \<and> length ms = n \<and> list_all2 frame ms ss \<and>
      h = concat ss @ g \<and> (\<forall>m \<in> set ms. chk m = Inr ())"
      by (fastforce simp: length_Suc_conv list_all2_Cons1)
  qed
  finally show ?case .
qed

lemma program_exact:
  "bindE (check_loop rd chk n f) depleted = Inr () \<longleftrightarrow>
    (\<exists>ms ss. length ms = n \<and> list_all2 frame ms ss \<and> f = concat ss \<and> (\<forall>m \<in> set ms. chk m = Inr ()))"
  using loop_exact [of chk n f "[]"] by (auto simp: res_simps depleted_def split: if_splits)

end

section \<open>What the readers take\<close>

definition parsed :: "(string \<Rightarrow> 'j res) \<Rightarrow> 'j \<Rightarrow> string \<Rightarrow> string \<Rightarrow> 'j \<Rightarrow> bool" where
  "parsed loads null ty text ob \<longleftrightarrow> (if ty = ''json'' then loads text = Inr ob else ob = null)"

text \<open>A text \<open>s\<close> of type \<open>ty\<close> and payload \<open>tx\<close>.\<close>

definition sized_text :: "string \<Rightarrow> string \<Rightarrow> string \<Rightarrow> string \<Rightarrow> bool" where
  "sized_text in_str ty tx s \<longleftrightarrow> CHR 0x02 \<notin> set ty \<and> length tx = length in_str \<and>
     (\<exists>nul. (nul = [] \<or> nul = [CHR 0x00]) \<and> s = CHR 0x01 # ty @ CHR 0x02 # tx @ nul @ [CHR 0x03])"

definition marked_text :: "string \<Rightarrow> string \<Rightarrow> string \<Rightarrow> bool" where
  "marked_text ty tx s \<longleftrightarrow> CHR 0x02 \<notin> set ty \<and>
     (\<exists>raw. CHR 0x03 \<notin> set raw \<and> tx = strip_by (\<lambda>x. x = CHR 0x00) raw \<and> s = CHR 0x01 # ty @ CHR 0x02 # raw @ [CHR 0x03])"

definition framed :: "(string \<Rightarrow> string \<Rightarrow> string \<Rightarrow> bool) \<Rightarrow> (string \<Rightarrow> 'j res) \<Rightarrow> 'j \<Rightarrow> 'j smsg \<Rightarrow> string \<Rightarrow> bool" where
  "framed is_text loads null = (\<lambda>(ty, tx, ob) s. is_text ty tx s \<and> parsed loads null ty tx ob)"

lemma with_obj_iff: "with_obj loads null a b = Inr (ty, tx, ob) \<longleftrightarrow> a = ty \<and> b = tx \<and> parsed loads null ty tx ob"
  unfolding with_obj_def parsed_def by (cases "loads b") auto

lemma until_iff:
  "(\<exists>x r. dropWhile (\<lambda>x. x \<noteq> c) f = x # r \<and> takeWhile (\<lambda>x. x \<noteq> c) f = a \<and> r = b) \<longleftrightarrow> c \<notin> set a \<and> f = a @ c # b"
  (is "?l \<longleftrightarrow> ?r")
proof
  assume ?l
  then obtain x where d: "dropWhile (\<lambda>x. x \<noteq> c) f = x # b" and a: "takeWhile (\<lambda>x. x \<noteq> c) f = a" by blast
  have "x = c" using hd_dropWhile [of "\<lambda>x. x \<noteq> c" f] d by simp
  moreover have "f = a @ x # b" unfolding a [symmetric] d [symmetric] by simp
  moreover have "c \<notin> set a" unfolding a [symmetric] by (auto dest: set_takeWhileD)
  ultimately show ?r by simp
next
  assume r: ?r
  then have "\<forall>x \<in> set a. x \<noteq> c" by metis
  with r show ?l by (simp add: dropWhile_append2 takeWhile_append2)
qed

lemma header_iff: "read_header f = Inr (ty, g) \<longleftrightarrow> CHR 0x02 \<notin> set ty \<and> f = CHR 0x01 # ty @ CHR 0x02 # g"
proof (cases f)
  case Nil
  then show ?thesis by (simp add: read_header_def)
next
  case (Cons c f1)
  have "read_header f = Inr (ty, g) \<longleftrightarrow> c = CHR 0x01 \<and>
      (\<exists>x r. dropWhile (\<lambda>x. x \<noteq> CHR 0x02) f1 = x # r \<and> takeWhile (\<lambda>x. x \<noteq> CHR 0x02) f1 = ty \<and> r = g)"
    unfolding read_header_def Cons by (cases "dropWhile (\<lambda>x. x \<noteq> CHR 0x02) f1") (auto simp del: dropWhile_eq_Nil_conv)
  then show ?thesis unfolding until_iff Cons by auto
qed

lemma read_marked_iff:
  "read_marked loads null f = Inr (m, g) \<longleftrightarrow> (\<exists>ty raw. CHR 0x02 \<notin> set ty \<and> CHR 0x03 \<notin> set raw \<and>
     f = CHR 0x01 # ty @ CHR 0x02 # raw @ CHR 0x03 # g \<and> with_obj loads null ty (strip_by (\<lambda>x. x = CHR 0x00) raw) = Inr m)"
  (is "_ \<longleftrightarrow> ?r")
proof -
  have "read_marked loads null f = Inr (m, g) \<longleftrightarrow> (\<exists>ty f2 raw. read_header f = Inr (ty, f2) \<and>
      (\<exists>x r. dropWhile (\<lambda>x. x \<noteq> CHR 0x03) f2 = x # r \<and> takeWhile (\<lambda>x. x \<noteq> CHR 0x03) f2 = raw \<and> r = g) \<and>
      with_obj loads null ty (strip_by (\<lambda>x. x = CHR 0x00) raw) = Inr m)"
    (is "_ \<longleftrightarrow> ?q")
  proof (cases "read_header f")
    case (Inl e)
    then show ?thesis by (simp add: read_marked_def)
  next
    case (Inr p)
    obtain ty f2 where p: "p = (ty, f2)" by (cases p)
    show ?thesis
    proof (cases "dropWhile (\<lambda>x. x \<noteq> CHR 0x03) f2")
      case Nil
      with Inr p show ?thesis by (simp add: read_marked_def del: dropWhile_eq_Nil_conv)
    next
      case (Cons x r)
      with Inr p show ?thesis by (cases m, auto simp: read_marked_def bindE_Inr)
    qed
  qed
  also have "\<dots> \<longleftrightarrow> ?r" unfolding until_iff header_iff by blast
  finally show ?thesis .
qed

interpretation marked: frame_reader "read_marked loads (null :: 'a)" "framed marked_text loads null"
proof
  fix f g and m :: "'a smsg"
  obtain ty tx ob where m: "m = (ty, tx, ob)" by (cases m)
  show "read_marked loads null f = Inr (m, g) \<longleftrightarrow> (\<exists>s. framed marked_text loads null m s \<and> f = s @ g)"
    unfolding read_marked_iff m with_obj_iff framed_def marked_text_def prod.case by auto
qed

lemma read_sized_iff:
  "read_sized loads null in_str f = Inr (m, g) \<longleftrightarrow> (\<exists>ty tx nul. CHR 0x02 \<notin> set ty \<and> length tx = length in_str \<and>
     (nul = [] \<or> nul = [CHR 0x00]) \<and> f = CHR 0x01 # ty @ CHR 0x02 # tx @ nul @ CHR 0x03 # g \<and> with_obj loads null ty tx = Inr m)"
proof (cases "read_header f")
  case (Inl e)
  then have "\<not> (\<exists>ty h. CHR 0x02 \<notin> set ty \<and> f = CHR 0x01 # ty @ CHR 0x02 # h)" using header_iff [of f] by auto
  with Inl show ?thesis by (auto simp: read_sized_def)
next
  case (Inr p)
  obtain ty f2 where p: "p = (ty, f2)" by (cases p)
  have h: "CHR 0x02 \<notin> set ty' \<and> f = CHR 0x01 # ty' @ CHR 0x02 # h \<longleftrightarrow> ty' = ty \<and> h = f2" for ty' h
    using header_iff [of f ty' h] Inr p by auto
  have "read_sized loads null in_str f = Inr (m, g) \<longleftrightarrow> (\<exists>tx nul. length tx = length in_str \<and> (nul = [] \<or> nul = [CHR 0x00]) \<and>
      f2 = tx @ nul @ CHR 0x03 # g \<and> with_obj loads null ty tx = Inr m)" (is "?l \<longleftrightarrow> ?r")
  proof
    assume l: ?l
    have tail: "f2 = take (length in_str) f2 @ r" if "drop (length in_str) f2 = r" for r
      using append_take_drop_id [of "length in_str" f2] that by simp
    show ?r
    proof (rule exI [of _ "take (length in_str) f2"])
      show "\<exists>nul. length (take (length in_str) f2) = length in_str \<and> (nul = [] \<or> nul = [CHR 0x00]) \<and>
          f2 = take (length in_str) f2 @ nul @ CHR 0x03 # g \<and> with_obj loads null ty (take (length in_str) f2) = Inr m"
        using l Inr p tail [of "CHR 0x03 # g"] tail [of "[CHR 0x00] @ CHR 0x03 # g"]
        by (auto simp: read_sized_def bindE_Inr Let_def split: list.splits if_splits)
    qed
  next
    assume ?r
    then show ?l using Inr p by (cases m, auto simp: read_sized_def bindE_Inr Let_def)
  qed
  then show ?thesis using h by (metis (no_types, lifting))
qed

interpretation sized: frame_reader "read_sized loads (null :: 'a) in_str" "framed (sized_text in_str) loads null"
proof
  fix f g and m :: "'a smsg"
  obtain ty tx ob where m: "m = (ty, tx, ob)" by (cases m)
  have "read_sized loads null in_str f = Inr (m, g) \<longleftrightarrow> CHR 0x02 \<notin> set ty \<and> length tx = length in_str \<and> parsed loads null ty tx ob \<and>
      (\<exists>nul. (nul = [] \<or> nul = [CHR 0x00]) \<and> f = CHR 0x01 # ty @ CHR 0x02 # tx @ nul @ CHR 0x03 # g)"
    unfolding read_sized_iff m with_obj_iff by blast
  also have "\<dots> \<longleftrightarrow> (\<exists>s. framed (sized_text in_str) loads null m s \<and> f = s @ g)"
    unfolding m framed_def sized_text_def prod.case by auto
  finally show "read_sized loads null in_str f = Inr (m, g) \<longleftrightarrow> (\<exists>s. framed (sized_text in_str) loads null m s \<and> f = s @ g)" .
qed

lemma consume_parts_iff: "consume_parts ps f = Inr ((), g) \<longleftrightarrow> f = concat ps @ g"
proof (induction ps arbitrary: f)
  case (Cons p ps)
  have "f = p @ h \<longleftrightarrow> take (length p) f = p \<and> drop (length p) f = h" for h
    by (metis append_eq_conv_conj)
  with Cons show ?case by auto
qed simp

interpretation lead: frame_reader "consume e lead" "\<lambda>_ s. s = lead @ e @ [CHR 0x7D, CHR 0x0A]"
proof
  fix f g and m :: unit
  have "m = ()" by simp
  then show "consume e lead f = Inr (m, g) \<longleftrightarrow> (\<exists>s. s = lead @ e @ [CHR 0x7D, CHR 0x0A] \<and> f = s @ g)"
    by (simp only: consume_def consume_parts_iff) simp
qed

section \<open>When the programs pass\<close>

text \<open>A message of the input, as it may stand in the output: only the types \<open>json\<close> and \<open>string\<close> are compared.\<close>

definition matches :: "(string \<Rightarrow> 'j res) \<Rightarrow> ('j \<Rightarrow> 'j \<Rightarrow> bool) \<Rightarrow> 'j \<Rightarrow> string \<Rightarrow> string \<Rightarrow> string \<Rightarrow> bool" where
  "matches loads eq null in_str ty tx \<longleftrightarrow>
     (if ty = ''json'' then \<exists>x. loads tx = Inr x \<and> eq (case loads in_str of Inr y \<Rightarrow> y | Inl _ \<Rightarrow> null) x
      else if ty = ''string'' then tx = in_str else True)"

definition messages :: "(string \<Rightarrow> string \<Rightarrow> string \<Rightarrow> bool) \<Rightarrow> (string \<Rightarrow> 'j res) \<Rightarrow> ('j \<Rightarrow> 'j \<Rightarrow> bool) \<Rightarrow> 'j \<Rightarrow> string \<Rightarrow> string set" where
  "messages is_text loads eq null in_str = {s. \<exists>ty tx. is_text ty tx s \<and> matches loads eq null in_str ty tx}"

lemma frames_of:
  assumes "\<And>s. (\<exists>m. frame m s \<and> chk m = Inr ()) \<longleftrightarrow> s \<in> S"
  shows "(\<exists>ms ss. length ms = n \<and> list_all2 frame ms ss \<and> out = concat ss \<and> (\<forall>m \<in> set ms. chk m = Inr ())) \<longleftrightarrow>
    (\<exists>ss. length ss = n \<and> set ss \<subseteq> S \<and> out = concat ss)"
proof -
  have "(\<exists>ms. length ms = n \<and> list_all2 frame ms ss \<and> (\<forall>m \<in> set ms. chk m = Inr ())) \<longleftrightarrow> length ss = n \<and> set ss \<subseteq> S" for ss
  proof (induction ss arbitrary: n)
    case Nil
    show ?case by auto
  next
    case (Cons s ss)
    have "(\<exists>ms. length ms = n \<and> list_all2 frame ms (s # ss) \<and> (\<forall>m \<in> set ms. chk m = Inr ())) \<longleftrightarrow>
        (\<exists>m. frame m s \<and> chk m = Inr ()) \<and>
        (\<exists>k. n = Suc k \<and> (\<exists>ms. length ms = k \<and> list_all2 frame ms ss \<and> (\<forall>m \<in> set ms. chk m = Inr ())))" (is "?a \<longleftrightarrow> ?b")
    proof
      assume ?a then show ?b by (fastforce simp: list_all2_Cons2)
    next
      assume ?b
      then obtain m ms where "frame m s" "chk m = Inr ()" "n = Suc (length ms)" "list_all2 frame ms ss" "\<forall>m \<in> set ms. chk m = Inr ()" by blast
      then show ?a by (intro exI [of _ "m # ms"]) simp
    qed
    then show ?case unfolding assms Cons.IH by auto
  qed
  then show ?thesis by blast
qed

lemma matches_iff: "(\<exists>ob. parsed loads null ty tx ob \<and> same_msg loads eq null in_str (ty, tx, ob) = Inr ()) \<longleftrightarrow> matches loads eq null in_str ty tx"
  by (cases "ty = ''json''"; cases "ty = ''string''") (auto simp: parsed_def same_msg_def matches_def Let_def)

lemma framed_iff: "(\<exists>m. framed is_text loads null m s \<and> same_msg loads eq null in_str m = Inr ()) \<longleftrightarrow> s \<in> messages is_text loads eq null in_str"
proof -
  have "(\<exists>m. framed is_text loads null m s \<and> same_msg loads eq null in_str m = Inr ()) \<longleftrightarrow>
      (\<exists>ty tx. is_text ty tx s \<and> (\<exists>ob. parsed loads null ty tx ob \<and> same_msg loads eq null in_str (ty, tx, ob) = Inr ()))"
    unfolding framed_def by auto
  then show ?thesis unfolding matches_iff messages_def by simp
qed

lemma stream_passes:
  "stream_check loads eq null in_str out cnt = Inr () \<longleftrightarrow>
    (\<exists>ss. length ss = nat cnt \<and> set ss \<subseteq> messages (sized_text in_str) loads eq null in_str \<and> out = concat ss)"
  unfolding stream_check_def sized.program_exact by (rule frames_of, rule framed_iff)

lemma sampler_passes:
  "sampler_check loads eq null in_str out cnt = Inr () \<longleftrightarrow>
    (\<exists>ss. length ss = nat cnt \<and> set ss \<subseteq> messages marked_text loads eq null in_str \<and> out = concat ss)"
  unfolding sampler_check_def marked.program_exact by (rule frames_of, rule framed_iff)

lemma subscriber_passes:
  "subscriber_check t in_str out cnt = Inr () \<longleftrightarrow>
    out = concat (replicate (nat cnt) (LEAD_FMT t (length in_str + 1) @ in_str @ [CHR 0x7D, CHR 0x0A]))"
proof -
  have "(\<exists>ss. length ss = n \<and> set ss \<subseteq> {x} \<and> out = concat ss) \<longleftrightarrow> out = concat (replicate n x)" for n and x :: string
  proof
    assume "\<exists>ss. length ss = n \<and> set ss \<subseteq> {x} \<and> out = concat ss"
    then obtain ss where "length ss = n" "set ss \<subseteq> {x}" "out = concat ss" by blast
    then show "out = concat (replicate n x)" by (metis replicate_eqI singletonD subset_eq)
  next
    assume "out = concat (replicate n x)"
    then show "\<exists>ss. length ss = n \<and> set ss \<subseteq> {x} \<and> out = concat ss" by (intro exI [of _ "replicate n x"]) auto
  qed
  moreover have "(\<exists>ms ss. length ms = n \<and> list_all2 (\<lambda>(_ :: unit) s. s = x) ms ss \<and> out = concat ss \<and> (\<forall>m \<in> set ms. Inr () = (Inr () :: unit res))) \<longleftrightarrow>
      (\<exists>ss. length ss = n \<and> set ss \<subseteq> {x} \<and> out = concat ss)" for n and x :: string
    by (rule frames_of) auto
  ultimately show ?thesis unfolding subscriber_check_def lead.program_exact by simp
qed

text \<open>
  C30: the programs that check a subscriber pass exactly when its output is the expected number of
  messages and nothing else. For \<open>stream_check.py\<close> and \<open>test_stream_sampler_check.py\<close> each message has its marks, the
  object of the input when its type is \<open>json\<close>, and the text of the input when its type is \<open>string\<close>; for
  \<open>subscriber_output_check.py\<close> each is the event of the input with its length.
\<close>

theorem stream_programs_exact:
  "(stream_check loads eq null in_str out cnt = Inr () \<longleftrightarrow>
      (\<exists>ss. length ss = nat cnt \<and> set ss \<subseteq> messages (sized_text in_str) loads eq null in_str \<and> out = concat ss)) \<and>
   (sampler_check loads eq null in_str out cnt = Inr () \<longleftrightarrow>
      (\<exists>ss. length ss = nat cnt \<and> set ss \<subseteq> messages marked_text loads eq null in_str \<and> out = concat ss)) \<and>
   (subscriber_check t in_str out cnt = Inr () \<longleftrightarrow>
      out = concat (replicate (nat cnt) (LEAD_FMT t (length in_str + 1) @ in_str @ [CHR 0x7D, CHR 0x0A])))"
  by (intro conjI stream_passes sampler_passes subscriber_passes)

text \<open>A message of another type is not compared, and a \<open>null\<close> passes for an input that is not JSON.\<close>

lemma unknown_type_instance:
  "stream_check (\<lambda>_. Inl (ValueError ''json'')) (=) () ''ab'' (CHR 0x01 # ''text'' @ CHR 0x02 # ''xy'' @ [CHR 0x03]) 1 = Inr ()"
  by code_simp

lemma null_instance:
  "sampler_check (\<lambda>s. if s = ''null'' then Inr () else Inl (ValueError ''json'')) (=) () ''{x'' (CHR 0x01 # ''json'' @ CHR 0x02 # ''null'' @ [CHR 0x03]) 1 = Inr ()"
  by code_simp

lemma subscriber_instance:
  "subscriber_check ''string'' ''ab'' (LEAD_FMT ''string'' 3 @ ''ab}'' @ [CHR 0x0A]) 1 = Inr () \<and>
   subscriber_check ''string'' ''ab'' (LEAD_FMT ''string'' 3 @ ''ab}'' @ [CHR 0x0A] @ ''E'') 1 =
     Inl (RuntimeError ''output file has more data than expected.'')"
  by code_simp

end
