(* ===== verification/HostProc.thy ===== *)
theory HostProc
  imports Config
begin

text \<open>
  The process handlers of \<open>LDMS_Test.py\<close>: \<open>Proc\<close>, \<open>LDMSDProc\<close>, \<open>MungedProc\<close>. A handler works on its own
  host through the file system, and on another host through a shell script over \<open>ssh\<close>. The state is the
  host: the files the handler uses and the processes of \<open>/proc\<close>. The daemons (\<open>launch\<close>), the delivery of a
  signal (\<open>kill\<close>) and the expansion of a here-document by the shell (\<open>heredoc\<close>) are parameters; \<open>reach\<close> says that
  \<open>ssh\<close> reaches the other host, where the shell is bash. Directories can be created.
\<close>

section \<open>Hosts and shells\<close>

text \<open>
  A process is the name of its directory of \<open>/proc\<close> with the texts of \<open>comm\<close> and \<open>cmdline\<close>; the name is never
  empty and has no blank. \<open>h_boot\<close> is the text of \<open>/proc/cmdline\<close>.
\<close>

record host =
  h_files :: "string \<Rightarrow> string option"
  h_proc :: "string \<Rightarrow> (string \<times> string) option"
  h_boot :: string

text \<open>A script gives its exit code and its output.\<close>

type_synonym script = "host \<Rightarrow> int \<times> string \<times> host"

definition rm_files :: "string list \<Rightarrow> host \<Rightarrow> host" where
  "rm_files fs h = h\<lparr>h_files := \<lambda>p. if p \<in> set fs then None else h_files h p\<rparr>"

definition put_file :: "string \<Rightarrow> string \<Rightarrow> host \<Rightarrow> host" where
  "put_file p t h = h\<lparr>h_files := (h_files h)(p \<mapsto> t)\<rparr>"

text \<open>\<open>$(...)\<close> drops newlines at the end; a word that is not quoted loses its blanks at the end.\<close>

definition rstrip_by :: "(char \<Rightarrow> bool) \<Rightarrow> string \<Rightarrow> string" where
  "rstrip_by q s = rev (dropWhile q (rev s))"

definition subst_text :: "string \<Rightarrow> string" where
  "subst_text = rstrip_by (\<lambda>c. c = CHR 0x0A)"

definition sh_word :: "string \<Rightarrow> string" where
  "sh_word = rstrip_by (\<lambda>c. c = CHR 0x0A \<or> c = CHR 0x20 \<or> c = CHR 0x09)"

text \<open>\<open>test -d /proc/$PID\<close>: with an empty \<open>PID\<close> this is \<open>/proc\<close> itself.\<close>

definition proc_dir :: "host \<Rightarrow> string \<Rightarrow> bool" where
  "proc_dir h w \<longleftrightarrow> w = [] \<or> h_proc h w \<noteq> None"

text \<open>The guard of four scripts: the pid file names a running process, and its name is \<open>ldmsd\<close>.\<close>

definition ldmsd_guard :: "string \<Rightarrow> host \<Rightarrow> bool" where
  "ldmsd_guard pf h \<longleftrightarrow>
     (case h_files h pf of
        None \<Rightarrow> False
      | Some t \<Rightarrow> proc_dir h (sh_word t) \<and>
          (case h_proc h (sh_word t) of None \<Rightarrow> False | Some (comm, _) \<Rightarrow> subst_text comm = ''ldmsd''))"

definition guard_pid :: "string \<Rightarrow> host \<Rightarrow> string" where
  "guard_pid pf h = (case h_files h pf of Some t \<Rightarrow> subst_text t | None \<Rightarrow> [])"

definition ssh_run :: "bool \<Rightarrow> script \<Rightarrow> script" where
  "ssh_run reach s h = (if reach then s h else (255, [], h))"

section \<open>Handlers\<close>

record handle =
  hd_name :: string
  hd_host :: string
  hd_remote :: bool
  hd_pid_file :: string
  hd_comm :: string
  hd_key :: string
  hd_env :: string

text \<open>\<open>comm_validate\<close> and \<open>cmdline_validate\<close> of both handlers.\<close>

definition valid_proc :: "'a handle_scheme \<Rightarrow> string \<Rightarrow> string \<Rightarrow> bool" where
  "valid_proc p comm cmdline \<longleftrightarrow> comm = hd_comm p \<and> contains (hd_key p) cmdline"

definition getEnvCmd :: "pval \<Rightarrow> string res" where
  "getEnvCmd env =
     (if \<not> truthy env then Inr []
      else case env of
          PDict d \<Rightarrow> Inr (concat (map (\<lambda>(k, v). ''export '' @ k @ ''='' @ [CHR 0x22] @ py_str v @ [CHR 0x22] @ nl) d))
        | _ \<Rightarrow> Inl (AttributeError ''items''))"

definition pid_script :: "string \<Rightarrow> script" where
  "pid_script pf h =
     (case h_files h pf of
        None \<Rightarrow> (255, ''pid file not found '' @ pf @ nl, h)
      | Some t \<Rightarrow>
          (let w = sh_word t in
           if \<not> proc_dir h w then (255, ''process not running'' @ nl, h)
           else case h_proc h w of
               Some (comm, cmdline) \<Rightarrow> (0, w @ nl @ comm @ cmdline, h)
             | None \<Rightarrow> (0, nl @ ''cat: /proc//comm: No such file or directory'' @ nl @ h_boot h, h)))"

definition remote_pid :: "'a handle_scheme \<Rightarrow> bool \<Rightarrow> host \<Rightarrow> int option res" where
  "remote_pid p reach h =
     (let (rc, out, _) = ssh_run reach (pid_script (hd_pid_file p)) h in
      if rc \<noteq> 0 then Inr None
      else case split1 CHR 0x0A out of
          [pid, rest] \<Rightarrow>
            (case split1 CHR 0x0A rest of
               [comm, cmdline] \<Rightarrow>
                 if \<not> valid_proc p (strip comm) (strip cmdline) then Inr None
                 else bindE (parse_int pid) (\<lambda>n. Inr (Some n))
             | _ \<Rightarrow> Inl (ValueError ''not enough values to unpack''))
        | _ \<Rightarrow> Inl (ValueError ''not enough values to unpack''))"

definition local_pid :: "'a handle_scheme \<Rightarrow> host \<Rightarrow> int option" where
  "local_pid p h =
     (case h_files h (hd_pid_file p) of
        None \<Rightarrow> None
      | Some t \<Rightarrow> (case parse_int t of
            Inl _ \<Rightarrow> None
          | Inr n \<Rightarrow> (case h_proc h (str_int n) of
                None \<Rightarrow> None
              | Some (comm, cmdline) \<Rightarrow> if valid_proc p (strip comm) (strip cmdline) then Some n else None)))"

definition hp_getpid :: "'a handle_scheme \<Rightarrow> bool \<Rightarrow> host \<Rightarrow> int option res" where
  "hp_getpid p reach h = (if hd_remote p then remote_pid p reach h else Inr (local_pid p h))"

text \<open>The property \<open>pid\<close> keeps a pid it has found.\<close>

definition found :: "int option \<Rightarrow> bool" where
  "found n \<longleftrightarrow> n \<noteq> None \<and> n \<noteq> Some 0"

definition cached_pid :: "'a handle_scheme \<Rightarrow> bool \<Rightarrow> int option \<Rightarrow> host \<Rightarrow> int option res" where
  "cached_pid p reach cache h = (if found cache then Inr cache else hp_getpid p reach h)"

definition stop_script :: "(string \<Rightarrow> script) \<Rightarrow> string \<Rightarrow> script" where
  "stop_script kill pf h =
     (case h_files h pf of
        None \<Rightarrow> (255, ''pid file not found '' @ pf @ nl, h)
      | Some t \<Rightarrow> if \<not> proc_dir h (sh_word t) then (255, ''process not running'' @ nl, h) else kill (sh_word t) h)"

text \<open>What a script of a handler means for its caller: an exit code other than 0 is raised.\<close>

definition checked :: "string \<Rightarrow> string \<Rightarrow> int \<times> string \<times> host \<Rightarrow> unit res \<times> host" where
  "checked what sep = (\<lambda>(rc, out, h). if rc \<noteq> 0 then (Inl (RuntimeError (what @ str_int rc @ sep @ out)), h) else (Inr (), h))"

definition hp_stop :: "(string \<Rightarrow> script) \<Rightarrow> 'a handle_scheme \<Rightarrow> bool \<Rightarrow> host \<Rightarrow> unit res \<times> host" where
  "hp_stop kill p reach h =
     (if hd_remote p then checked ''remote stop error: '' '', msg: '' (ssh_run reach (stop_script kill (hd_pid_file p)) h)
      else case local_pid p h of
          None \<Rightarrow> (Inr (), h)
        | Some n \<Rightarrow> if n = 0 then (Inr (), h)
            else let (rc, out, h') = kill (str_int n) h in
              if rc \<noteq> 0 then (Inl (OtherError ''OSError'' out), h') else (Inr (), h'))"

section \<open>LDMSDProc\<close>

record ldmsd_handle = handle +
  lh_conf_file :: string
  lh_log_file :: string
  lh_log_level :: string
  lh_mem_opt :: string
  lh_config :: string
  lh_xprt :: pval
  lh_port :: pval

definition required :: "pyerr \<Rightarrow> pval \<Rightarrow> pval res" where
  "required e v = (if truthy v then Inr v else Inl e)"

definition bad_type :: "string \<Rightarrow> pval dict \<Rightarrow> unit res" where
  "bad_type ty spec =
     (if dget_or spec ''type'' PNone \<noteq> PStr ty
      then Inl (ValueError (''Expecting a spec with '' @ str_repr ''type'' @ '': '' @ str_repr ''munged'' @ ''.'')) else Inr ())"

definition first_listen :: "pval dict \<Rightarrow> pval res" where
  "first_listen spec =
     bindE (required (KeyError (PStr ''LDMSD spec requires `listen: [ {LISTEN_OBJ} ]` configuration'')) (dget_or spec ''listen'' PNone)) (\<lambda>l.
       case l of PList (x # _) \<Rightarrow> Inr x | _ \<Rightarrow> Inl (ValueError ''`listen` must be a `list` of {LISTEN_OBJ}''))"

definition ldmsd_handle_of :: "(pval \<Rightarrow> bool res) \<Rightarrow> string \<Rightarrow> pval dict \<Rightarrow> ldmsd_handle out" where
  "ldmsd_handle_of is_remote data_root spec =
     bindO (liftR (
       bindE (bad_type ''ldmsd'' spec) (\<lambda>_.
       bindE (first_listen spec) (\<lambda>l.
       bindE (bindE (p_get l ''host'' PNone) (required (ValueError ''Listen objects must specify `host`''))) (\<lambda>host.
       bindE (bindE (p_get l ''port'' PNone) (required (ValueError ''Listen objects must specify `port`''))) (\<lambda>port.
       bindE (p_get l ''xprt'' (PStr ''sock'')) (\<lambda>xprt.
       bindE (is_remote host) (\<lambda>remote.
       bindE (getEnvCmd (dget_or spec ''env'' PNone)) (\<lambda>env.
       let name = py_str host @ ''-'' @ py_str port;
           path = (\<lambda>d. data_root @ ''/'' @ d @ ''/'' @ py_str host @ ''/'' @ name @ ''.'' @ d);
           mem = dget_or spec ''memory'' PNone in
       Inr \<lparr>hd_name = name, hd_host = py_str host, hd_remote = remote, hd_pid_file = path ''pid'', hd_comm = ''ldmsd'', hd_key = name,
            hd_env = env, lh_conf_file = path ''conf'', lh_log_file = path ''log'',
            lh_log_level = py_str (dget_or spec ''log_level'' (PStr ''ERROR'')),
            lh_mem_opt = (if truthy mem then '' -m '' @ py_str mem else []), lh_config = [], lh_xprt = xprt, lh_port = port\<rparr>))))))))) (\<lambda>d.
     bindO (get_ldmsd_config None spec) (\<lambda>c. ok (d\<lparr>lh_config := c\<rparr>)))"

text \<open>The command line that starts the daemon, after the exports of the environment.\<close>

definition ldmsd_cmdline :: "ldmsd_handle \<Rightarrow> string" where
  "ldmsd_cmdline d = ''ldmsd -c '' @ lh_conf_file d @ '' -r '' @ hd_pid_file d @ '' -l '' @ lh_log_file d @ '' -v '' @ lh_log_level d @ '' '' @ lh_mem_opt d"

type_synonym launcher = "string \<Rightarrow> string \<Rightarrow> script"

definition write_conf :: "(string \<Rightarrow> string) \<Rightarrow> ldmsd_handle \<Rightarrow> host \<Rightarrow> host" where
  "write_conf heredoc d = put_file (lh_conf_file d) (heredoc (lh_config d @ nl))"

text \<open>On another host the daemon is started in the background, so its exit code is not the script's.\<close>

definition start_script :: "launcher \<Rightarrow> (string \<Rightarrow> string) \<Rightarrow> ldmsd_handle \<Rightarrow> script" where
  "start_script launch heredoc d h =
     (if ldmsd_guard (hd_pid_file d) h then (114, hd_name d @ '' already running (pid '' @ guard_pid (hd_pid_file d) h @ '')'' @ nl, h)
      else let (_, _, h') = launch (hd_env d) (ldmsd_cmdline d) (write_conf heredoc d h) in (0, [], h'))"

definition ldmsd_start :: "launcher \<Rightarrow> (string \<Rightarrow> string) \<Rightarrow> ldmsd_handle \<Rightarrow> bool \<Rightarrow> host \<Rightarrow> unit res \<times> host" where
  "ldmsd_start launch heredoc d reach h =
     (if hd_remote d then
        let (rc, out, h') = ssh_run reach (start_script launch heredoc d) h in
        if rc = 114 then (Inr (), h') else checked ''remote start error '' '', msg: '' (rc, out, h')
      else if found (local_pid d h) then (Inr (), h)
      else let (_, _, h') = launch (hd_env d) (ldmsd_cmdline d) (write_conf heredoc d h) in (Inr (), h'))"

definition ldmsd_paths :: "ldmsd_handle \<Rightarrow> string list" where
  "ldmsd_paths d = [lh_conf_file d, hd_pid_file d, lh_log_file d]"

definition cleanup_script :: "string \<Rightarrow> string \<Rightarrow> string list \<Rightarrow> script" where
  "cleanup_script name pf fs h =
     (if ldmsd_guard pf h then (16, name @ '' still running (pid '' @ guard_pid pf h @ '')'' @ nl, h) else (0, [], rm_files fs h))"

definition opt_int :: "int option \<Rightarrow> string" where
  "opt_int n = (case n of None \<Rightarrow> ''None'' | Some i \<Rightarrow> str_int i)"

definition ldmsd_cleanup :: "ldmsd_handle \<Rightarrow> bool \<Rightarrow> host \<Rightarrow> unit res \<times> host" where
  "ldmsd_cleanup d reach h =
     (if hd_remote d then checked ''remote cleanup error '' '', msg: '' (ssh_run reach (cleanup_script (hd_name d) (hd_pid_file d) (ldmsd_paths d)) h)
      else if found (local_pid d h) then
        (Inl (RuntimeError (''Cannot cleanup, '' @ hd_name d @ '' is running (pid: '' @ opt_int (local_pid d h) @ '')'')), h)
      else (Inr (), rm_files (ldmsd_paths d) h))"

section \<open>MungedProc\<close>

record munged_handle = handle +
  mh_dir :: string
  mh_key :: string

definition munged_handle_of :: "(pval \<Rightarrow> bool res) \<Rightarrow> string \<Rightarrow> pval dict \<Rightarrow> munged_handle res" where
  "munged_handle_of is_remote data_root spec =
     bindE (bad_type ''munged'' spec) (\<lambda>_.
     bindE (required (ValueError (''spec['' @ str_repr ''host'' @ ''] is required'')) (dget_or spec ''host'' PNone)) (\<lambda>host.
     bindE (is_remote host) (\<lambda>remote.
     bindE (getEnvCmd (dget_or spec ''env'' PNone)) (\<lambda>env.
     let dom = py_str (dget_or spec ''dom'' (PStr ''domain0''));
         dir = data_root @ ''/'' @ py_str host @ ''/'' @ dom in
     Inr \<lparr>hd_name = ''munged-'' @ py_str host @ ''-'' @ dom, hd_host = py_str host, hd_remote = remote, hd_pid_file = dir @ ''/pid'',
          hd_comm = ''munged'', hd_key = dir @ ''/sock'', hd_env = env, mh_dir = dir,
          mh_key = py_str (dget_or spec ''key'' (PStr (replicate 128 CHR ''0'')))\<rparr>))))"

definition munged_cmdline :: "munged_handle \<Rightarrow> string" where
  "munged_cmdline m = ''munged -S '' @ mh_dir m @ ''/sock --pid-file '' @ mh_dir m @ ''/pid --key-file '' @ mh_dir m @
     ''/key --log-file '' @ mh_dir m @ ''/log --seed-file '' @ mh_dir m @ ''/seed''"

text \<open>The script writes the key, makes sure that there is a log, and ends with the daemon's exit code.\<close>

definition touch :: "string \<Rightarrow> host \<Rightarrow> host" where
  "touch f h = (if h_files h f = None then put_file f [] h else h)"

definition munged_script :: "launcher \<Rightarrow> (string \<Rightarrow> string) \<Rightarrow> munged_handle \<Rightarrow> script" where
  "munged_script launch heredoc m h =
     (if ldmsd_guard (hd_pid_file m) h then (114, hd_name m @ '' already running (pid '' @ guard_pid (hd_pid_file m) h @ '')'' @ nl, h)
      else launch (hd_env m) (munged_cmdline m) (touch (mh_dir m @ ''/log'') (put_file (mh_dir m @ ''/key'') (heredoc (mh_key m @ nl)) h)))"

definition shell_of :: "'a handle_scheme \<Rightarrow> bool \<Rightarrow> script \<Rightarrow> script" where
  "shell_of p reach s = (if hd_remote p then ssh_run reach s else s)"

definition munged_start :: "launcher \<Rightarrow> (string \<Rightarrow> string) \<Rightarrow> munged_handle \<Rightarrow> bool \<Rightarrow> host \<Rightarrow> unit res \<times> host" where
  "munged_start launch heredoc m reach h = checked ''start error '' '', output: '' (shell_of m reach (munged_script launch heredoc m) h)"

definition munged_paths :: "munged_handle \<Rightarrow> string list" where
  "munged_paths m = [mh_dir m @ ''/key'', hd_pid_file m, mh_dir m @ ''/sock'']"

definition munged_cleanup :: "munged_handle \<Rightarrow> bool \<Rightarrow> host \<Rightarrow> unit res \<times> host" where
  "munged_cleanup m reach h =
     checked ''cleanup error '' '', output: '' (shell_of m reach (cleanup_script (hd_name m) (hd_pid_file m) (munged_paths m)) h)"

datatype proc_handle = HLdmsd ldmsd_handle | HMunged munged_handle

definition from_spec :: "(pval \<Rightarrow> bool res) \<Rightarrow> string \<Rightarrow> pval dict \<Rightarrow> proc_handle out" where
  "from_spec is_remote data_root spec =
     (let ty = dget_or spec ''type'' PNone in
      if ty = PStr ''ldmsd'' then bindO (ldmsd_handle_of is_remote data_root spec) (\<lambda>d. ok (HLdmsd d))
      else if ty = PStr ''munged'' then bindO (liftR (munged_handle_of is_remote data_root spec)) (\<lambda>m. ok (HMunged m))
      else if ty = PNone then raise (TypeError (str_repr ''type'' @ '' not specified''))
      else raise (TypeError (''Unknown type: '' @ py_str ty)))"

section \<open>What a handler finds\<close>

text \<open>A process runs under a handler: the pid file names it, and its name and command line are the handler's.\<close>

definition running :: "'a handle_scheme \<Rightarrow> host \<Rightarrow> nat \<Rightarrow> bool" where
  "running p h n \<longleftrightarrow> h_files h (hd_pid_file p) = Some (str_nat n @ nl) \<and>
     (case h_proc h (str_nat n) of None \<Rightarrow> False | Some (comm, cmdline) \<Rightarrow> comm = hd_comm p @ nl \<and> contains (hd_key p) (strip cmdline))"

text \<open>The texts the daemons and the kernel write: a number in the pid file, a name without blanks in \<open>comm\<close>.\<close>

definition host_ok :: "string \<Rightarrow> host \<Rightarrow> bool" where
  "host_ok pf h \<longleftrightarrow> (case h_files h pf of None \<Rightarrow> True | Some t \<Rightarrow> \<exists>n. t = str_nat n @ nl) \<and>
     (\<forall>w comm cmdline. h_proc h w = Some (comm, cmdline) \<longrightarrow> (\<exists>b. comm = b @ nl \<and> list_all (\<lambda>c. \<not> is_space c) b))"

lemma str_nat_clean: "list_all is_digit (str_nat n)" "list_all (\<lambda>c. \<not> is_space c) (str_nat n)" "str_nat n \<noteq> []"
  by (auto simp: str_nat_def list_all_iff digits_of_ne dest!: digits_of_digit10 digit_no_space)

lemma rstrip_last: "(\<And>c. q c \<Longrightarrow> is_space c) \<Longrightarrow> list_all (\<lambda>c. \<not> is_space c) s \<Longrightarrow> q CHR 0x0A \<Longrightarrow> rstrip_by q (s @ nl) = s"
  by (cases s rule: rev_cases) (auto simp: rstrip_by_def)

lemma strip_last: "list_all (\<lambda>c. \<not> is_space c) s \<Longrightarrow> strip (s @ nl) = s"
proof (cases s rule: rev_cases)
  case Nil
  then show ?thesis by (simp add: strip_by_def is_space_def)
next
  case (snoc t c)
  assume a: "list_all (\<lambda>c. \<not> is_space c) s"
  from snoc have "s \<noteq> []" by simp
  then obtain d r where "s = d # r" by (cases s) simp_all
  with a have "dropWhile is_space (s @ nl) = s @ nl" by simp
  then show ?thesis using a snoc by (simp add: strip_by_def is_space_def)
qed

lemma parse_int_strip: "strip s = strip t \<Longrightarrow> parse_int t = Inr i \<Longrightarrow> parse_int s = Inr i"
  by (auto simp: parse_int_def Let_def split: if_splits)

lemma pid_texts: "sh_word (str_nat n @ nl) = str_nat n" "subst_text (str_nat n @ nl) = str_nat n" "parse_int (str_nat n @ nl) = Inr (int n)"
  unfolding sh_word_def subst_text_def
  by (rule rstrip_last; use str_nat_clean in \<open>auto simp: is_space_def\<close>)+
     (rule parse_int_strip [OF _ parse_int_str_nat], simp only: strip_last [OF str_nat_clean(2)] strip_no_space [OF str_nat_clean(2)])

lemma comm_text: "list_all (\<lambda>c. \<not> is_space c) b \<Longrightarrow> subst_text (b @ nl) = b"
  unfolding subst_text_def by (rule rstrip_last) (auto simp: is_space_def)

lemma split_line: "list_all (\<lambda>c. \<not> is_space c) s \<Longrightarrow> split1 CHR 0x0A (s @ nl @ t) = [s, t]"
proof -
  assume a: "list_all (\<lambda>c. \<not> is_space c) s"
  have "is_space CHR 0x0A" by (simp add: is_space_def)
  with a have "CHR 0x0A \<notin> set s" by (auto simp: list_all_iff)
  from split1_sep [OF this, of t] show ?thesis by simp
qed

text \<open>On such a host the pid of either kind of handler is that of the process that runs under it.\<close>

lemma ok_proc:
  assumes "host_ok pf h" "h_proc h w = Some (comm, cmdline)"
  obtains b where "comm = b @ nl" "list_all (\<lambda>c. \<not> is_space c) b"
  using assms by (fastforce simp: host_ok_def)

lemma pid_text_inj: "str_nat n = str_nat m \<longleftrightarrow> n = m"
  by (metis Inr_inject of_nat_eq_iff parse_int_str_nat)

lemma running_unique: "running p h n \<Longrightarrow> running p h m \<Longrightarrow> n = m"
  by (simp add: running_def pid_text_inj)

lemma running_iff:
  assumes "h_files h (hd_pid_file p) = Some (str_nat n @ nl)" "h_proc h (str_nat n) = Some (b @ nl, cmdline)"
  shows "running p h m \<longleftrightarrow> m = n \<and> b = hd_comm p \<and> contains (hd_key p) (strip cmdline)"
  using assms by (auto simp: running_def pid_text_inj)

lemma local_pid_iff:
  assumes ok: "host_ok (hd_pid_file p) h"
  shows "local_pid p h = Some i \<longleftrightarrow> (\<exists>n. i = int n \<and> running p h n)"
proof (cases "h_files h (hd_pid_file p)")
  case None
  then show ?thesis by (simp add: local_pid_def running_def)
next
  case (Some t)
  with ok obtain n where t: "t = str_nat n @ nl" by (auto simp: host_ok_def)
  show ?thesis
  proof (cases "h_proc h (str_nat n)")
    case None
    with Some t have "\<not> running p h m" for m by (auto simp: running_def pid_text_inj)
    with None Some t show ?thesis by (simp add: local_pid_def pid_texts str_int_def)
  next
    case (Some q)
    obtain comm cmdline where q: "q = (comm, cmdline)" by (cases q)
    from ok_proc [OF ok] Some q obtain b where b: "comm = b @ nl" "list_all (\<lambda>c. \<not> is_space c) b" by metis
    have f: "h_files h (hd_pid_file p) = Some (str_nat n @ nl)" "h_proc h (str_nat n) = Some (b @ nl, cmdline)"
      using \<open>h_files h (hd_pid_file p) = Some t\<close> t Some q b by simp_all
    have "local_pid p h = (if b = hd_comm p \<and> contains (hd_key p) (strip cmdline) then Some (int n) else None)"
      using f b(2) by (simp add: local_pid_def pid_texts str_int_def valid_proc_def strip_last)
    then show ?thesis unfolding running_iff [OF f] by auto
  qed
qed

lemma remote_local:
  assumes ok: "host_ok (hd_pid_file p) h"
  shows "remote_pid p True h = Inr (local_pid p h)"
proof (cases "h_files h (hd_pid_file p)")
  case None
  then show ?thesis by (simp add: remote_pid_def local_pid_def ssh_run_def pid_script_def)
next
  case (Some t)
  with ok obtain n where t: "t = str_nat n @ nl" by (auto simp: host_ok_def)
  show ?thesis
  proof (cases "h_proc h (str_nat n)")
    case None
    with Some t show ?thesis
      by (simp add: remote_pid_def local_pid_def ssh_run_def pid_script_def pid_texts proc_dir_def str_nat_clean str_int_def Let_def)
  next
    case (Some q)
    obtain comm cmdline where q: "q = (comm, cmdline)" by (cases q)
    from ok_proc [OF ok] Some q obtain b where b: "comm = b @ nl" "list_all (\<lambda>c. \<not> is_space c) b" by metis
    have "split1 CHR 0x0A (str_nat n @ nl @ b @ nl @ cmdline) = [str_nat n, b @ nl @ cmdline]"
      by (rule split_line) (rule str_nat_clean)
    with \<open>h_files h (hd_pid_file p) = Some t\<close> t Some q b split_line [OF b(2), of cmdline] show ?thesis
      by (simp add: remote_pid_def local_pid_def ssh_run_def pid_script_def pid_texts proc_dir_def str_int_def Let_def
          strip_last strip_no_space parse_int_str_nat del: append_Cons)
  qed
qed

text \<open>What a running daemon means for the handler.\<close>

lemma ldmsd_line: "subst_text (''ldmsd'' @ nl) = ''ldmsd''"
  by code_simp

lemma running_guard: "running p h n \<Longrightarrow> hd_comm p = ''ldmsd'' \<Longrightarrow> ldmsd_guard (hd_pid_file p) h"
  by (auto simp: running_def ldmsd_guard_def pid_texts proc_dir_def ldmsd_line [simplified] split: option.splits)

lemma running_local: "running p h n \<Longrightarrow> list_all (\<lambda>c. \<not> is_space c) (hd_comm p) \<Longrightarrow> local_pid p h = Some (int n)"
  by (auto simp: running_def local_pid_def pid_texts str_int_def valid_proc_def strip_last split: option.splits)

lemma running_remote:
  assumes r: "running p h n" and c: "list_all (\<lambda>c. \<not> is_space c) (hd_comm p)"
  shows "remote_pid p True h = Inr (Some (int n))"
proof -
  from r obtain cmdline where q: "h_files h (hd_pid_file p) = Some (str_nat n @ nl)" "h_proc h (str_nat n) = Some (hd_comm p @ nl, cmdline)"
    "contains (hd_key p) (strip cmdline)" by (auto simp: running_def split: option.splits)
  have "split1 CHR 0x0A (str_nat n @ nl @ hd_comm p @ nl @ cmdline) = [str_nat n, hd_comm p @ nl @ cmdline]"
    by (rule split_line) (rule str_nat_clean)
  with q split_line [OF c, of cmdline] c show ?thesis
    by (simp add: remote_pid_def ssh_run_def pid_script_def pid_texts proc_dir_def valid_proc_def Let_def
        strip_last strip_no_space parse_int_str_nat del: append_Cons)
qed

lemma ldmsd_comm: "hd_comm p = ''ldmsd'' \<Longrightarrow> list_all (\<lambda>c. \<not> is_space c) (hd_comm p)"
  by (simp add: is_space_def)

lemma running_start:
  assumes "running d h n" "0 < n" "hd_comm d = ''ldmsd''"
  shows "snd (ldmsd_start launch doc d reach h) = h" "reach \<or> \<not> hd_remote d \<Longrightarrow> fst (ldmsd_start launch doc d reach h) = Inr ()"
  using assms running_guard [OF assms(1,3)] running_local [OF assms(1) ldmsd_comm [OF assms(3)]]
  by (auto simp: ldmsd_start_def ssh_run_def start_script_def checked_def found_def)

lemma running_cleanup:
  assumes "running d h n" "0 < n" "hd_comm d = ''ldmsd''"
  shows "\<exists>e. ldmsd_cleanup d reach h = (Inl e, h)"
  using assms running_guard [OF assms(1,3)] running_local [OF assms(1) ldmsd_comm [OF assms(3)]]
  by (auto simp: ldmsd_cleanup_def ssh_run_def cleanup_script_def checked_def found_def)

lemma running_getpid:
  assumes "running p h n" "list_all (\<lambda>c. \<not> is_space c) (hd_comm p)" "reach \<or> \<not> hd_remote p"
  shows "hp_getpid p reach h = Inr (Some (int n))"
  using assms running_local [OF assms(1,2)] running_remote [OF assms(1,2)] by (auto simp: hp_getpid_def)

lemma running_stop:
  assumes r: "running p h n" "0 < n" "list_all (\<lambda>c. \<not> is_space c) (hd_comm p)" and k: "kill (str_nat n) h = (0, out, h')"
    and reach: "reach \<or> \<not> hd_remote p"
  shows "hp_stop kill p reach h = (Inr (), h')"
proof -
  have "h_files h (hd_pid_file p) = Some (str_nat n @ nl)" "proc_dir h (str_nat n)"
    using r(1) by (auto simp: running_def proc_dir_def split: option.splits)
  then have "stop_script kill (hd_pid_file p) h = (0, out, h')" by (simp add: stop_script_def pid_texts k)
  then show ?thesis using running_local [OF r(1,3)] r(2) reach k by (auto simp: hp_stop_def ssh_run_def checked_def str_int_def)
qed

lemma dead_cleanup:
  assumes "h_files h (hd_pid_file d) = Some (str_nat n @ nl)" "h_proc h (str_nat n) = None" "reach \<or> \<not> hd_remote d"
  shows "ldmsd_cleanup d reach h = (Inr (), rm_files (ldmsd_paths d) h)"
proof -
  have "\<not> ldmsd_guard (hd_pid_file d) h" "local_pid d h = None"
    using assms(1,2) by (simp_all add: ldmsd_guard_def local_pid_def pid_texts str_int_def proc_dir_def str_nat_clean)
  then show ?thesis using assms(3) by (auto simp: ldmsd_cleanup_def ssh_run_def cleanup_script_def checked_def found_def)
qed

section \<open>Properties\<close>

definition demo_ldmsd :: "bool \<Rightarrow> ldmsd_handle" where
  "demo_ldmsd remote = \<lparr>hd_name = ''h-1'', hd_host = ''h'', hd_remote = remote, hd_pid_file = ''/p'', hd_comm = ''ldmsd'', hd_key = ''h-1'', hd_env = [],
     lh_conf_file = ''/c'', lh_log_file = ''/l'', lh_log_level = ''ERROR'', lh_mem_opt = [], lh_config = [], lh_xprt = PStr ''sock'', lh_port = PInt 1\<rparr>"

definition demo_host :: "string \<Rightarrow> string \<Rightarrow> host" where
  "demo_host comm cmdline = \<lparr>h_files = [''/p'' \<mapsto> ''7'' @ nl], h_proc = [''7'' \<mapsto> (comm @ nl, cmdline)], h_boot = []\<rparr>"

lemma str_7: "str_nat 7 = ''7''"
  by code_simp

lemma demo_running: "running (demo_ldmsd remote) (demo_host ''ldmsd'' ''ldmsd -c h-1'') 7"
proof -
  have "contains ''h-1'' (strip ''ldmsd -c h-1'')" by code_simp
  then show ?thesis by (simp add: running_def demo_ldmsd_def demo_host_def str_7 del: contains.simps)
qed

text \<open>
  C32: the two ways of finding a process agree. On a host whose pid file and process names have the form the
  daemons and the kernel write, the script that runs over ssh finds the same pid as the handler on its own
  host, and this is the pid of the process that runs under the handler; a host that is not reached has none.
\<close>

theorem handlers_agree:
  assumes "host_ok (hd_pid_file p) h"
  shows "remote_pid p True h = Inr (local_pid p h) \<and> remote_pid p False h = Inr None \<and>
    (local_pid p h = Some i \<longleftrightarrow> (\<exists>n. i = int n \<and> running p h n))"
  using remote_local [OF assms] local_pid_iff [OF assms] by (simp add: remote_pid_def ssh_run_def)

lemma demo_host_ok: "host_ok ''/p'' (demo_host ''ldmsd'' c)"
proof -
  have "''7'' @ nl = str_nat 7 @ nl" by (simp add: str_7)
  moreover have "list_all (\<lambda>c. \<not> is_space c) ''ldmsd''" by (simp add: is_space_def)
  ultimately show ?thesis unfolding host_ok_def demo_host_def by (fastforce split: if_splits)
qed

theorem handlers_agree_witness:
  "remote_pid (demo_ldmsd True) True (demo_host ''ldmsd'' ''ldmsd -c h-1'') = Inr (local_pid (demo_ldmsd True) (demo_host ''ldmsd'' ''ldmsd -c h-1''))"
proof -
  have "hd_pid_file (demo_ldmsd True) = ''/p''" by (simp add: demo_ldmsd_def)
  with handlers_agree [of "demo_ldmsd True" "demo_host ''ldmsd'' ''ldmsd -c h-1''"] demo_host_ok show ?thesis by simp
qed

text \<open>
  C20: a running daemon is not disturbed. While the daemon of a handler runs, starting it again changes nothing on
  the host and cleaning up fails and removes nothing, on either kind of host, reached or not; when the host is
  reached, starting succeeds and the handler has the daemon's pid.
\<close>

theorem daemon_not_disturbed:
  assumes "running d h n" "0 < n" "hd_comm d = ''ldmsd''"
  shows "snd (ldmsd_start launch doc d reach h) = h \<and> (\<exists>e. ldmsd_cleanup d reach h = (Inl e, h)) \<and>
    (reach \<or> \<not> hd_remote d \<longrightarrow> fst (ldmsd_start launch doc d reach h) = Inr () \<and> hp_getpid d reach h = Inr (Some (int n)))"
  using running_start [OF assms] running_cleanup [OF assms] running_getpid [OF assms(1) ldmsd_comm [OF assms(3)]] by blast

theorem daemon_not_disturbed_witness:
  "\<exists>e. ldmsd_cleanup (demo_ldmsd True) False (demo_host ''ldmsd'' ''ldmsd -c h-1'') = (Inl e, demo_host ''ldmsd'' ''ldmsd -c h-1'')"
  using daemon_not_disturbed [OF demo_running, of True "\<lambda>_ _ h. (0, [], h)" "\<lambda>t. t" False] by (simp add: demo_ldmsd_def)

text \<open>
  The life of a daemon. On a host that is reached and where nothing runs under the pid file, starting writes the
  configuration and launches the daemon; when the daemon then runs, the handler finds its pid, stopping it
  delivers the signal to that pid, and when it has ended, cleaning up removes its three files and nothing else.
\<close>

lemma daemon_life:
  assumes "reach \<or> \<not> hd_remote d" "hd_comm d = ''ldmsd''" "\<not> ldmsd_guard (hd_pid_file d) h" "local_pid d h = None"
    and "launch (hd_env d) (ldmsd_cmdline d) (write_conf doc d h) = (rc, out, h1)" "running d h1 n" "0 < n"
    and "kill (str_nat n) h1 = (0, out', h2)" "h_files h2 = h_files h1" "h_proc h2 (str_nat n) = None"
  shows "ldmsd_start launch doc d reach h = (Inr (), h1) \<and> hp_getpid d reach h1 = Inr (Some (int n)) \<and>
    hp_stop kill d reach h1 = (Inr (), h2) \<and> ldmsd_cleanup d reach h2 = (Inr (), rm_files (ldmsd_paths d) h2)"
proof -
  have "ldmsd_start launch doc d reach h = (Inr (), h1)"
    using assms(1,3,4,5) by (auto simp: ldmsd_start_def ssh_run_def start_script_def checked_def found_def)
  moreover have "h_files h2 (hd_pid_file d) = Some (str_nat n @ nl)" using assms(6,9) by (simp add: running_def)
  ultimately show ?thesis
    using running_getpid [OF assms(6) ldmsd_comm [OF assms(2)] assms(1)] dead_cleanup [OF _ assms(10,1)]
      running_stop [where kill = kill, OF assms(6,7) ldmsd_comm [OF assms(2)] assms(8,1)] by simp
qed

definition demo_launch :: launcher where
  "demo_launch env cmd h = (0, [], h\<lparr>h_files := (h_files h)(''/p'' \<mapsto> ''7'' @ nl), h_proc := [''7'' \<mapsto> (''ldmsd'' @ nl, ''ldmsd -c h-1'')]\<rparr>)"

lemma daemon_life_instance:
  "\<exists>h1 h2. ldmsd_start demo_launch (\<lambda>t. t) (demo_ldmsd True) True \<lparr>h_files = Map.empty, h_proc = Map.empty, h_boot = []\<rparr> = (Inr (), h1) \<and>
    hp_stop (\<lambda>w h. (0, [], h\<lparr>h_proc := Map.empty\<rparr>)) (demo_ldmsd True) True h1 = (Inr (), h2) \<and>
    ldmsd_cleanup (demo_ldmsd True) True h2 = (Inr (), rm_files (ldmsd_paths (demo_ldmsd True)) h2)"
proof -
  let ?h = "\<lparr>h_files = Map.empty, h_proc = Map.empty, h_boot = []\<rparr> :: host" and ?d = "demo_ldmsd True"
  let ?h1 = "snd (snd (demo_launch (hd_env ?d) (ldmsd_cmdline ?d) (write_conf (\<lambda>t. t) ?d ?h)))"
  have "contains ''h-1'' (strip ''ldmsd -c h-1'')" by code_simp
  then have "running ?d ?h1 7" by (simp add: running_def demo_ldmsd_def demo_launch_def write_conf_def put_file_def str_7 del: contains.simps)
  from daemon_life [where reach = True and d = ?d and h = ?h and launch = demo_launch and doc = "\<lambda>t. t"
      and kill = "\<lambda>w h. (0, [], h\<lparr>h_proc := Map.empty\<rparr>)" and rc = 0 and out = "[]" and out' = "[]" and ?h1.0 = ?h1 and n = 7
      and ?h2.0 = "?h1\<lparr>h_proc := Map.empty\<rparr>", OF _ _ _ _ _ this]
  show ?thesis by (simp add: demo_ldmsd_def ldmsd_guard_def local_pid_def demo_launch_def)
qed

section \<open>Where the code goes wrong\<close>

text \<open>
  The scripts of \<open>MungedProc\<close> look for a process that is called \<open>ldmsd\<close>: they never notice that munged runs. Cleaning
  up takes the key, the pid file and the socket from a running daemon, and starting launches a second one.
\<close>

lemma munged_no_guard:
  assumes "running m h n" "hd_comm m = ''munged''"
  shows "\<not> ldmsd_guard (hd_pid_file m) h"
proof -
  have "subst_text (''munged'' @ nl) \<noteq> ''ldmsd''" by code_simp
  then show ?thesis using assms by (auto simp: running_def ldmsd_guard_def pid_texts split: option.splits)
qed

lemma running_munged_cleaned:
  assumes "running m h n" "hd_comm m = ''munged''" "reach \<or> \<not> hd_remote m"
  shows "munged_cleanup m reach h = (Inr (), rm_files (munged_paths m) h)"
  using munged_no_guard [OF assms(1,2)] assms(3)
  by (auto simp: munged_cleanup_def shell_of_def ssh_run_def cleanup_script_def checked_def)

lemma running_munged_started_again:
  assumes "running m h n" "hd_comm m = ''munged''" "reach \<or> \<not> hd_remote m"
  shows "munged_start launch doc m reach h = checked ''start error '' '', output: ''
    (launch (hd_env m) (munged_cmdline m) (touch (mh_dir m @ ''/log'') (put_file (mh_dir m @ ''/key'') (doc (mh_key m @ nl)) h)))"
  using munged_no_guard [OF assms(1,2)] assms(3)
  by (auto simp: munged_start_def shell_of_def ssh_run_def munged_script_def)

text \<open>
  A pid file left over from an earlier daemon whose number now belongs to the daemon of another handler: on its own
  host a handler starts and cleans up, on another host it takes the other daemon for its own.
\<close>

lemma stale_pid_file_instance:
  "ldmsd_cleanup (demo_ldmsd False) reach (demo_host ''ldmsd'' ''ldmsd -c x-2'') = (Inr (), rm_files [''/c'', ''/p'', ''/l''] (demo_host ''ldmsd'' ''ldmsd -c x-2'')) \<and>
   fst (ldmsd_cleanup (demo_ldmsd True) True (demo_host ''ldmsd'' ''ldmsd -c x-2'')) \<noteq> Inr () \<and>
   remote_pid (demo_ldmsd True) True (demo_host ''ldmsd'' ''ldmsd -c x-2'') = Inr None"
proof -
  have c: "\<not> contains ''h-1'' (strip ''ldmsd -c x-2'')" by code_simp
  have p: "parse_int (''7'' @ nl) = Inr 7" "sh_word (''7'' @ nl) = ''7''" using pid_texts [of 7] by (simp_all add: str_7)
  let ?h = "demo_host ''ldmsd'' ''ldmsd -c x-2''"
  have l: "local_pid (demo_ldmsd r) ?h = None" for r
    using c p by (simp add: local_pid_def demo_ldmsd_def demo_host_def str_int_def str_7 valid_proc_def del: contains.simps)
  have g: "ldmsd_guard (hd_pid_file (demo_ldmsd r)) ?h" for r
    using p by (simp add: ldmsd_guard_def demo_ldmsd_def demo_host_def proc_dir_def ldmsd_line [simplified])
  have "host_ok (hd_pid_file (demo_ldmsd True)) ?h" using demo_host_ok [of "''ldmsd -c x-2''"] by (simp add: demo_ldmsd_def)
  from remote_local [OF this] l [of True] g [of True] l [of False] show ?thesis
    by (simp add: ldmsd_cleanup_def found_def checked_def ssh_run_def cleanup_script_def ldmsd_paths_def) (simp add: demo_ldmsd_def)
qed

end
