(* ===== verification/ContDaemons.thy ===== *)
theory ContDaemons
  imports Cluster
begin

text \<open>
  The daemons inside a container: the methods of \<open>LDMSDContainer\<close> that start them from the specification of the
  node, class \<open>Munged\<close>, and the methods of \<open>LDMSDCluster\<close> for slurm. The operations of a container are those
  of \<open>Cluster\<close>; what a command does in the container is theirs. A node of the cluster is the pair of its
  container and its specification.
\<close>

section \<open>Commands\<close>

definition run1 :: "('w, 'k) cops \<Rightarrow> 'k \<Rightarrow> string \<Rightarrow> ('w, int \<times> string) io" where
  "run1 X k cmd = x_exec X k (PStr cmd) PNone PNone"

definition pgrepc :: "('w, 'k) cops \<Rightarrow> 'k \<Rightarrow> string \<Rightarrow> ('w, int) io" where
  "pgrepc X k prog = bindS (run1 X k (''pgrep -c '' @ prog)) (\<lambda>(rc, out). liftE (parse_int out))"

definition all_pgrepc :: "('w, 'k) cops \<Rightarrow> 'k cont list \<Rightarrow> string \<Rightarrow> ('w, int dict) io" where
  "all_pgrepc X conts prog = bindS (mapS (\<lambda>c. bindS (pgrepc X (co_id c) prog) (\<lambda>n. retS (co_hostname c, n))) conts) (\<lambda>l. retS (dupdate [] l))"

definition or_error :: "string \<Rightarrow> ('w, int \<times> string) io \<Rightarrow> ('w, unit) io" where
  "or_error what m = bindS m (\<lambda>(rc, out). if rc \<noteq> 0 then raiseS (RuntimeError (what @ '', rc: '' @ str_int rc @ '', out: '' @ out)) else retS ())"

definition plain_error :: "('w, int \<times> string) io \<Rightarrow> ('w, unit) io" where
  "plain_error m = bindS m (\<lambda>(rc, out). if rc \<noteq> 0 then raiseS (RuntimeError (''Error '' @ str_int rc @ '' '' @ out)) else retS ())"

definition chmod :: "('w, 'k) cops \<Rightarrow> 'k \<Rightarrow> nat \<Rightarrow> string \<Rightarrow> ('w, unit) io" where
  "chmod X k mode path = plain_error (run1 X k (''chmod '' @ digits_of 8 mode @ '' '' @ path))"

definition chown :: "('w, 'k) cops \<Rightarrow> 'k \<Rightarrow> string \<Rightarrow> string \<Rightarrow> ('w, unit) io" where
  "chown X k owner path = plain_error (run1 X k (''chown '' @ owner @ '' '' @ path))"

text \<open>\<open>proc_environ\<close>: the entries of a process environment end with a zero byte.\<close>

definition environ_of :: "string \<Rightarrow> string dict res" where
  "environ_of t =
     foldE (\<lambda>d v. case split1 CHR ''='' v of
         [n, x] \<Rightarrow> Inr (dset n x d)
       | _ \<Rightarrow> Inl (ValueError ''dictionary update sequence element #0 has length 1; 2 is required''))
       [] (filter (\<lambda>v. v \<noteq> []) (split_on CHR 0x00 t))"

definition proc_environ :: "('w, 'k) cops \<Rightarrow> 'k \<Rightarrow> string \<Rightarrow> ('w, string dict) io" where
  "proc_environ X k pid = bindS (x_read X k (''/proc/'' @ pid @ ''/environ'') None) (\<lambda>t. liftE (environ_of t))"

section \<open>Munged\<close>

record munged =
  mu_dom :: pval
  mu_key :: pval

definition in_dom :: "munged \<Rightarrow> string \<Rightarrow> string \<Rightarrow> string" where
  "in_dom m file dflt = (if truthy (mu_dom m) then ''/munge/'' @ py_str (mu_dom m) @ ''/'' @ file else dflt)"

definition key_file :: "munged \<Rightarrow> string" where
  "key_file m = in_dom m ''key'' ''/etc/munge/munge.key''"

definition mu_pid_file :: "munged \<Rightarrow> string" where
  "mu_pid_file m = in_dom m ''pid'' ''/run/munge/munged.pid''"

definition sock_file :: "munged \<Rightarrow> string" where
  "sock_file m = in_dom m ''sock'' ''/run/munge/munge.socket.2''"

definition prep_dom :: "('w, 'k) cops \<Rightarrow> 'k \<Rightarrow> munged \<Rightarrow> ('w, unit) io" where
  "prep_dom X k m =
     (let dir = (if truthy (mu_dom m) then ''/munge/'' @ py_str (mu_dom m) else ''/run/munge'') in
      seqS (or_error (''Cannot create directory '' @ [CHR 0x27] @ dir @ [CHR 0x27]) (run1 X k (''mkdir -m 0755 -p '' @ dir)))
        (chown X k ''munge:munge'' dir))"

text \<open>A key that is given is written; without one an existing key stays, and otherwise there is a default key.\<close>

definition put_key :: "('w, 'k) cops \<Rightarrow> 'k \<Rightarrow> munged \<Rightarrow> pval \<Rightarrow> ('w, unit) io" where
  "put_key X k m key =
     bindS (liftE (p_string key)) (\<lambda>t.
     seqS (x_write X k (key_file m) t PNone)
     (seqS (chmod X k 384 (key_file m)) (chown X k ''munge:munge'' (key_file m))))"

definition prep_key_file :: "('w, 'k) cops \<Rightarrow> 'k \<Rightarrow> munged \<Rightarrow> ('w, unit) io" where
  "prep_key_file X k m =
     (if truthy (mu_key m) then put_key X k m (mu_key m)
      else bindS (run1 X k (''ls '' @ key_file m)) (\<lambda>(rc, out).
        if rc = 0 then chown X k ''munge:munge'' (key_file m)
        else put_key X k m (PStr (replicate 4096 CHR ''0''))))"

definition mu_get_pid :: "('w, 'k) cops \<Rightarrow> 'k \<Rightarrow> munged \<Rightarrow> ('w, int option) io" where
  "mu_get_pid X k m = bindS (run1 X k (''cat '' @ mu_pid_file m)) (\<lambda>(rc, out).
     if rc \<noteq> 0 then retS None else bindS (liftE (parse_int out)) (\<lambda>n. retS (Some n)))"

definition mu_is_running :: "('w, 'k) cops \<Rightarrow> 'k \<Rightarrow> munged \<Rightarrow> ('w, bool) io" where
  "mu_is_running X k m = bindS (mu_get_pid X k m) (\<lambda>pid. case pid of
       None \<Rightarrow> retS False
     | Some n \<Rightarrow> if n = 0 then retS False else bindS (run1 X k (''ps -p '' @ str_int n)) (\<lambda>(rc, out). retS (rc = 0)))"

definition mu_cmd :: "munged \<Rightarrow> bool \<Rightarrow> string" where
  "mu_cmd m has_pidfile =
     (let q = [CHR 0x27] in
      ''su -s /bin/bash munge -c '' @ q @ ''munged'' @
        (if truthy (mu_dom m) then '' -S '' @ sock_file m @ '' --key-file '' @ key_file m @
           (if has_pidfile then '' --pid-file '' @ mu_pid_file m else []) else []) @ q)"

definition mu_start :: "('w, 'k) cops \<Rightarrow> 'k \<Rightarrow> munged \<Rightarrow> ('w, unit) io" where
  "mu_start X k m = bindS (mu_is_running X k m) (\<lambda>b.
     if b then retS ()
     else bindS (run1 X k ''munged --help | grep pid-file'') (\<lambda>(rc, _).
       seqS (prep_dom X k m) (seqS (prep_key_file X k m)
         (or_error (''`'' @ mu_cmd m (rc = 0) @ ''` error'') (run1 X k (mu_cmd m (rc = 0)))))))"

definition mu_kill :: "('w, 'k) cops \<Rightarrow> 'k \<Rightarrow> munged \<Rightarrow> ('w, unit) io" where
  "mu_kill X k m = bindS (mu_get_pid X k m) (\<lambda>pid.
     bindS (run1 X k (''kill '' @ (case pid of None \<Rightarrow> ''None'' | Some n \<Rightarrow> str_int n))) (\<lambda>_. retS ()))"

section \<open>Nodes and their daemons\<close>

text \<open>A node and the handles of its munged, by domain; what an exception leaves in the table is not modelled.\<close>

record 'k node =
  nd_cont :: "'k cont"
  nd_spec :: pval
  nd_munged :: "(pval \<times> munged) list"

text \<open>\<open>spec\<close>: the first node of the cluster specification with the name of the host.\<close>

fun find_node :: "string \<Rightarrow> pval list \<Rightarrow> pval res" where
  "find_node h [] = Inr PNone"
| "find_node h (n # ns) = bindE (p_index n ''hostname'') (\<lambda>x. if x = PStr h then Inr n else find_node h ns)"

definition cont_spec :: "pval \<Rightarrow> string \<Rightarrow> pval res" where
  "cont_spec cluster h = bindE (p_index cluster ''nodes'') (\<lambda>v. bindE (p_iter v) (find_node h))"

fun find_munged :: "pval \<Rightarrow> pval \<Rightarrow> pval list \<Rightarrow> pval option res" where
  "find_munged nm dm [] = Inr None"
| "find_munged nm dm (d # ds) =
     bindE (p_get d ''name'' PNone) (\<lambda>n. if nm = n then Inr (Some d)
       else if truthy nm then find_munged nm dm ds
       else bindE (p_get d ''dom'' PNone) (\<lambda>x. if dm = x then Inr (Some d) else find_munged nm dm ds))"

definition or_else :: "pval \<Rightarrow> pval \<Rightarrow> string \<Rightarrow> pval res" where
  "or_else v d f = (if truthy v then Inr v else p_get d f PNone)"

definition new_munged :: "pval \<Rightarrow> pval \<Rightarrow> pval \<Rightarrow> pval \<Rightarrow> munged res" where
  "new_munged spec nm dm key =
     bindE (p_index spec ''daemons'') (\<lambda>v. bindE (p_iter v) (\<lambda>ds. bindE (find_munged nm dm ds) (\<lambda>r.
     let d = (case r of Some d \<Rightarrow> d | None \<Rightarrow> PDict [(''dom'', dm), (''key'', key)]) in
     bindE (or_else key d ''key'') (\<lambda>key'. bindE (or_else dm d ''dom'') (\<lambda>dom'. Inr \<lparr>mu_dom = dom', mu_key = key'\<rparr>)))))"

definition start_munged :: "('w, 'k) cops \<Rightarrow> 'k node \<Rightarrow> pval \<Rightarrow> pval \<Rightarrow> pval \<Rightarrow> ('w, 'k node) io" where
  "start_munged X N nm dm key =
     (case map_of (nd_munged N) dm of
        Some m \<Rightarrow> bindS (mu_start X (co_id (nd_cont N)) m) (\<lambda>_. retS N)
      | None \<Rightarrow> bindS (liftE (new_munged (nd_spec N) nm dm key)) (\<lambda>m.
          bindS (mu_start X (co_id (nd_cont N)) m) (\<lambda>_. retS (N\<lparr>nd_munged := (mu_dom m, m) # nd_munged N\<rparr>))))"

definition kill_munged :: "('w, 'k) cops \<Rightarrow> 'k node \<Rightarrow> pval \<Rightarrow> ('w, unit) io" where
  "kill_munged X N dm = (case map_of (nd_munged N) dm of Some m \<Rightarrow> mu_kill X (co_id (nd_cont N)) m | None \<Rightarrow> retS ())"

section \<open>Slurm\<close>

definition slurm_version :: "('w, 'k) cops \<Rightarrow> 'k cont list \<Rightarrow> ('w, int list) io" where
  "slurm_version X conts =
     bindS (cluster_exec X conts ''slurmd -V'' PNone) (\<lambda>(rc, out). liftE (case split_on CHR '' '' out of
         [_, v] \<Rightarrow> mapE parse_int (split_on CHR ''.'' v)
       | _ \<Rightarrow> Inl (ValueError ''wrong number of values to unpack'')))"

fun tuple_ge :: "int list \<Rightarrow> int list \<Rightarrow> bool" where
  "tuple_ge _ [] = True"
| "tuple_ge [] (b # bs) = False"
| "tuple_ge (a # as) (b # bs) = (if a = b then tuple_ge as bs else b < a)"

text \<open>The hosts that run \<open>slurmd\<close>, and the last one that runs \<open>slurmctld\<close>.\<close>

definition has_daemon :: "string \<Rightarrow> pval \<Rightarrow> bool res" where
  "has_daemon ty n =
     bindE (p_get n ''daemons'' (PList [])) (\<lambda>v. bindE (p_iter v) (\<lambda>ds.
     bindE (mapE (\<lambda>d. p_index d ''type'') ds) (\<lambda>ts. Inr (PStr ty \<in> set ts))))"

definition slurm_roles :: "pval list \<Rightarrow> (pval list \<times> pval) res" where
  "slurm_roles nodes = foldE (\<lambda>(sd, ctl) n.
     bindE (has_daemon ''slurmd'' n) (\<lambda>a.
     bindE (if a then bindE (p_index n ''hostname'') (\<lambda>h. Inr (sd @ [h])) else Inr sd) (\<lambda>sd'.
     bindE (has_daemon ''slurmctld'' n) (\<lambda>b.
     bindE (if b then p_index n ''hostname'' else Inr ctl) (\<lambda>ctl'. Inr (sd', ctl')))))) ([], PNone) nodes"

definition slurm_text :: "string \<Rightarrow> string \<Rightarrow> string \<Rightarrow> string \<Rightarrow> string \<Rightarrow> string \<Rightarrow> string" where
  "slurm_text key ctl sd cpus over level = concat (map (\<lambda>l. l @ nl)
     [key @ ''='' @ ctl, ''MpiDefault=none'', ''ProctrackType=proctrack/linuxproc'', ''ReturnToService=1'',
      ''SlurmctldPidFile=/var/run/slurmctld.pid'', ''SlurmctldPort=6817'', ''SlurmdPidFile=/var/run/slurmd.pid'', ''SlurmdPort=6818'',
      ''SlurmdSpoolDir=/var/spool/slurmd'', ''SlurmUser=root'', ''StateSaveLocation=/var/spool'', ''SwitchType=switch/none'',
      ''#TaskPlugin=task/none'', ''#TaskPluginParam=Sched'', ''InactiveLimit=0'', ''KillWait=30'', ''MinJobAge=300'',
      ''SlurmctldTimeout=120'', ''SlurmdTimeout=300'', ''Waittime=0'', ''#FastSchedule=1'', ''SchedulerType=sched/builtin'',
      ''SelectType=select/cons_res'', ''SelectTypeParameters=CR_CPU'', ''AccountingStorageType=accounting_storage/none'',
      ''#AccountingStoreJobComment=YES'', ''ClusterName=cluster'', ''JobCompType=jobcomp/none'', ''JobAcctGatherFrequency=30'',
      ''JobAcctGatherType=jobacct_gather/none'', ''SlurmctldDebug='' @ level, ''SlurmctldLogFile=/var/log/slurmctld.log'',
      ''SlurmdDebug='' @ level, ''SlurmdLogFile=/var/log/slurmd.log'', ''NodeName='' @ sd @ '' CPUs='' @ cpus @ '' State=UNKNOWN'',
      ''PartitionName=debug Nodes='' @ sd @ '' OverSubscribe='' @ over @ '' Default=YES MaxTime=INFINITE State=UP'',
      ''LogTimeFormat=thread_id''])"

definition slurm_conf :: "('w, 'k) cops \<Rightarrow> 'k cont list \<Rightarrow> pval \<Rightarrow> ('w, string) io" where
  "slurm_conf X conts cluster =
     bindS (liftE (bindE (p_index cluster ''nodes'') p_iter)) (\<lambda>nodes.
     bindS (liftE (bindE (p_get cluster ''cpu_per_node'' (PInt 1)) (\<lambda>cpus. bindE (p_get cluster ''oversubscribe'' (PStr ''NO'')) (\<lambda>over.
       bindE (p_get cluster ''slurm_loglevel'' (PStr ''info'')) (\<lambda>level. Inr (cpus, over, level)))))) (\<lambda>(cpus, over, level).
     bindS (liftE (bindE (slurm_roles nodes) (\<lambda>(sd, ctl). bindE (mapE p_string sd) (\<lambda>hs. Inr (join '','' hs, ctl))))) (\<lambda>(sd, ctl).
     bindS (slurm_version X conts) (\<lambda>v.
       retS (slurm_text (if tuple_ge v [18, 0, 0] then ''SlurmctldHost'' else ''ControlMachine'') (py_str ctl) sd (py_str cpus) (py_str over) (py_str level))))))"

definition prep_slurm_conf :: "('w, 'k) cops \<Rightarrow> 'k cont list \<Rightarrow> pval \<Rightarrow> 'k \<Rightarrow> ('w, unit) io" where
  "prep_slurm_conf X conts cluster k =
     seqS (x_write X k ''/etc/slurm/cgroup.conf'' ''CgroupAutomount=yes'' PNone)
       (bindS (slurm_conf X conts cluster) (\<lambda>t. x_write X k ''/etc/slurm/slurm.conf'' t PNone))"

definition plug_line :: "pval \<Rightarrow> string res" where
  "plug_line p =
     bindE (p_get p ''required'' PNone) (\<lambda>r. bindE (bindE (p_index p ''path'') p_string) (\<lambda>path.
     bindE (bindE (p_get p ''args'' (PList [])) p_iter) (\<lambda>args. bindE (mapE p_string args) (\<lambda>as.
       Inr ((if truthy r then ''required'' else ''optional'') @ '' '' @ path @ concat (map (\<lambda>a. '' '' @ a) as) @ nl)))))"

definition put_plugstack :: "('w, 'k) cops \<Rightarrow> 'k \<Rightarrow> pval \<Rightarrow> ('w, unit) io" where
  "put_plugstack X k d =
     bindS (liftE (p_get d ''plugstack'' PNone)) (\<lambda>ps.
       if truthy ps then bindS (liftE (bindE (p_iter ps) (mapE plug_line))) (\<lambda>ls. x_write X k ''/etc/slurm/plugstack.conf'' (concat ls) PNone)
       else retS ())"

text \<open>A program is tried up to three times.\<close>

fun tries :: "nat \<Rightarrow> ('w, int \<times> string) io \<Rightarrow> int \<times> string \<Rightarrow> ('w, int \<times> string) io" where
  "tries 0 m r = retS r"
| "tries (Suc n) m r = (if fst r \<noteq> 0 then bindS m (\<lambda>r'. tries n m r') else retS r)"

definition start_prog :: "('w, 'k) cops \<Rightarrow> 'k \<Rightarrow> string \<Rightarrow> ('w, unit) io" where
  "start_prog X k prog = bindS (tries 3 (run1 X k prog) (- 1, [])) (\<lambda>(rc, out).
     if rc \<noteq> 0 then raiseS (RuntimeError (prog @ '' failed, rc: '' @ str_int rc @ '', output: '' @ out)) else retS ())"

definition is_slurm :: "pval \<Rightarrow> bool res" where
  "is_slurm d = bindE (p_get d ''type'' PNone) (\<lambda>t. Inr (t = PStr ''slurmctld'' \<or> t = PStr ''slurmd''))"

fun filterE :: "('a \<Rightarrow> bool res) \<Rightarrow> 'a list \<Rightarrow> 'a list res" where
  "filterE f [] = Inr []"
| "filterE f (x # xs) = bindE (f x) (\<lambda>b. bindE (filterE f xs) (\<lambda>ys. Inr (if b then x # ys else ys)))"

definition type_of :: "pval \<Rightarrow> string res" where
  "type_of d = bindE (p_index d ''type'') p_string"

definition node_daemons :: "pval \<Rightarrow> pval list res" where
  "node_daemons spec = bindE (p_get spec ''daemons'' (PList [])) p_iter"

fun not_up :: "('w, 'k) cops \<Rightarrow> 'k \<Rightarrow> pval list \<Rightarrow> ('w, pval list) io" where
  "not_up X k [] = retS []"
| "not_up X k (d # ds) = bindS (liftE (type_of d)) (\<lambda>t. bindS (pgrepc X k t) (\<lambda>n. bindS (not_up X k ds) (\<lambda>l. retS (if n = 0 then d # l else l))))"

definition start_slurm_daemon :: "('w, 'k) cops \<Rightarrow> 'k \<Rightarrow> pval \<Rightarrow> ('w, unit) io" where
  "start_slurm_daemon X k d = bindS (liftE (type_of d)) (\<lambda>t. seqS (put_plugstack X k d) (start_prog X k t))"

definition start_slurm :: "('w, 'k) cops \<Rightarrow> 'k cont list \<Rightarrow> pval \<Rightarrow> 'k node \<Rightarrow> ('w, unit) io" where
  "start_slurm X conts cluster N =
     (let k = co_id (nd_cont N) in
      bindS (liftE (bindE (node_daemons (nd_spec N)) (filterE is_slurm))) (\<lambda>ds.
      bindS (not_up X k ds) (\<lambda>will_start.
        if will_start = [] then retS ()
        else seqS (prep_slurm_conf X conts cluster k) (forS will_start (start_slurm_daemon X k)))))"

fun first_type :: "string \<Rightarrow> pval list \<Rightarrow> pval res" where
  "first_type t [] = Inl (OtherError ''StopIteration'' [])"
| "first_type t (d # ds) = bindE (p_get d ''type'' PNone) (\<lambda>v. if v = PStr t then Inr d else first_type t ds)"

definition start_slurmx :: "('w, 'k) cops \<Rightarrow> 'k cont list \<Rightarrow> pval \<Rightarrow> 'k node \<Rightarrow> string \<Rightarrow> ('w, 'k node) io" where
  "start_slurmx X conts cluster N prog =
     (let k = co_id (nd_cont N) in
      bindS (start_munged X N PNone PNone PNone) (\<lambda>N'.
      bindS (pgrepc X k prog) (\<lambda>n.
        if 0 < n then retS N'
        else seqS (prep_slurm_conf X conts cluster k)
          (bindS (liftE (bindE (node_daemons (nd_spec N)) (first_type prog))) (\<lambda>d.
           seqS (put_plugstack X k d) (bindS (start_prog X k prog) (\<lambda>_. retS N')))))))"

section \<open>Other daemons, and all of them\<close>

definition start_sshd :: "('w, 'k) cops \<Rightarrow> 'k \<Rightarrow> ('w, unit) io" where
  "start_sshd X k = bindS (run1 X k ''pgrep -c -x sshd'') (\<lambda>(rc, _).
     if rc = 0 then retS ()
     else bindS (run1 X k ''/usr/sbin/sshd'') (\<lambda>(rc, out).
       if rc \<noteq> 0 then raiseS (RuntimeError (''sshd failed, rc: '' @ str_int rc @ '', output: '' @ out)) else retS ()))"

text \<open>The members of the etcd cluster are the hosts with an etcd daemon; \<open>lookup\<close> is the platform's \<open>get_container\<close>.\<close>

definition etcd_members :: "(string \<Rightarrow> 'k cont option) \<Rightarrow> pval \<Rightarrow> string list res" where
  "etcd_members lookup cluster =
     bindE (bindE (p_get cluster ''nodes'' (PList [])) p_iter) (\<lambda>nodes.
     bindE (mapE (\<lambda>n. bindE (node_daemons n) (\<lambda>ds. bindE (filterE (\<lambda>d. bindE (p_get d ''type'' PNone) (\<lambda>t. Inr (t = PStr ''etcd''))) ds) (\<lambda>es.
       mapE (\<lambda>_. bindE (bindE (p_index n ''hostname'') p_string) (\<lambda>h. Inr (lookup h))) es))) nodes) (\<lambda>cs.
     mapE (\<lambda>c. case c of None \<Rightarrow> Inl (AttributeError ''hostname'')
       | Some c \<Rightarrow> Inr (co_hostname c @ ''=http://'' @ opt_addr (co_ip c) @ '':2380'')) (concat cs)))"

definition etcd_cmd :: "'k cont \<Rightarrow> string list \<Rightarrow> string" where
  "etcd_cmd c members =
     (let q = [CHR 0x27]; ip = opt_addr (co_ip c) in
      ''bash -c '' @ q @ ''etcd --data-dir /var/lib/etcd/default.etcd --name '' @ co_hostname c @ '' --initial-advertise-peer-urls http://'' @ ip @
      '':2380 --listen-peer-urls http://'' @ ip @ '':2380 --advertise-client-urls http://'' @ ip @
      '':2379 --listen-client-urls http://0.0.0.0:2379 --initial-cluster '' @ join '','' members @
      '' --initial-cluster-state new --initial-cluster-token token >/var/log/etcd.log 2>&1 &'' @ q)"

definition start_etcd :: "('w, 'k) cops \<Rightarrow> (string \<Rightarrow> 'k cont option) \<Rightarrow> pval \<Rightarrow> 'k cont \<Rightarrow> ('w, unit) io" where
  "start_etcd X lookup cluster c = bindS (run1 X (co_id c) ''pgrep -c etcd'') (\<lambda>(rc, _).
     if rc = 0 then retS ()
     else bindS (liftE (etcd_members lookup cluster)) (\<lambda>ms. bindS (run1 X (co_id c) (etcd_cmd c ms)) (\<lambda>(rc, out).
       if rc \<noteq> 0 then raiseS (RuntimeError (''sshd failed, rc: '' @ str_int rc @ '', output: '' @ out)) else retS ())))"

text \<open>The version of ldmsd in the container, from the first line that \<open>ldmsd -V\<close> prints.\<close>

fun split_colon :: "string \<Rightarrow> string \<Rightarrow> string list" where
  "split_colon acc [] = [rev acc]"
| "split_colon acc [c] = [rev (c # acc)]"
| "split_colon acc (c # d # s) = (if c = CHR '':'' \<and> d = CHR '' '' then rev acc # split_colon [] s else split_colon (c # acc) (d # s))"

definition cont_version :: "string \<Rightarrow> version res" where
  "cont_version out =
     (case splitlines_acc [] out of
        [] \<Rightarrow> Inl IndexError
      | l # _ \<Rightarrow> (case split_colon [] l of
          [_, v] \<Rightarrow> (case re_match (Seqs [Grp ''1'' (Plus Digit), Lit1 CHR ''.'', Grp ''2'' (Plus Digit), Lit1 CHR ''.'', Grp ''3'' (Plus Digit)]) v of
              Some m \<Rightarrow> Inr (ver_groups m) | None \<Rightarrow> Inl (ValueError (''Bad ldmsd version format: '' @ v)))
        | _ \<Rightarrow> Inl (ValueError ''wrong number of values to unpack'')))"

definition listen_port :: "pval dict \<Rightarrow> pval res" where
  "listen_port spec =
     (let p = dget_or spec ''listen_port'' PNone; l = dget_or spec ''listen'' PNone in
      bindE (if truthy p then Inr p
             else if truthy l then bindE (p_iter l) (\<lambda>xs. case xs of [] \<Rightarrow> Inl IndexError | x # _ \<Rightarrow> p_get x ''port'' PNone) else Inr p) (\<lambda>p'.
      if truthy p' then Inr p' else Inl (RuntimeError ''Cannot determine ldmsd port'')))"

definition port_int :: "pval \<Rightarrow> int res" where
  "port_int v = (case v of PInt i \<Rightarrow> Inr i | PStr s \<Rightarrow> parse_int s | PBool b \<Rightarrow> Inr (if b then 1 else 0)
     | _ \<Rightarrow> Inl (TypeError ''int() argument must be a string or a number''))"

text \<open>\<open>shlex.quote\<close> of \<open>:\<close>, the port in hexadecimal as a word: it has unsafe characters and no quotes.\<close>

definition hex_lower :: "int \<Rightarrow> string" where
  "hex_lower i = (if i < 0 then ''-'' else []) @ map lower_char (digits_of 16 (nat \<bar>i\<bar>))"

definition grp_cmd :: "int \<Rightarrow> string" where
  "grp_cmd port = ''grep '' @ [CHR 0x27] @ '':'' @ [CHR 0x5C] @ ''<'' @ hex_lower port @ [CHR 0x5C] @ ''>'' @ [CHR 0x27] @ '' /proc/net/tcp''"

definition start_ldmsd ::
  "('w, 'k) cops \<Rightarrow> ('w, int) io \<Rightarrow> ('w, unit) io \<Rightarrow> pval \<Rightarrow> 'k node \<Rightarrow> pval dict \<Rightarrow> ('w, unit) io" where
  "start_ldmsd X now sleep cluster N override =
     (let k = co_id (nd_cont N) in
      bindS (run1 X k ''pgrep -c ldmsd'') (\<lambda>(rc, _).
      if rc = 0 then retS ()
      else bindS (liftE (ldmsd_spec (nd_spec N) cluster)) (\<lambda>own.
        let spec = dupdate own override in
        if spec = [] then retS ()
        else bindS (run1 X k ''ldmsd -V'') (\<lambda>(_, vout).
          bindS (liftE (cont_version vout)) (\<lambda>ver.
          bindS (liftO (get_ldmsd_config (Some ver) spec)) (\<lambda>cfg.
          bindS (liftE (bindE (dindex spec ''config_file'') p_string)) (\<lambda>path.
          seqS (x_write X k path cfg PNone)
          (bindS (liftE (get_ldmsd_cmd spec)) (\<lambda>cmd.
           bindS (liftE (bindE (dindex spec ''env'') env_dict)) (\<lambda>env.
           bindS (x_exec X k (PStr cmd) (PDict env) PNone) (\<lambda>(rc, out).
           if rc \<noteq> 0 then raiseS (RuntimeError (''ldmsd exec error '' @ str_int rc @ '': '' @ out))
           else bindS (liftE (bindE (listen_port spec) port_int)) (\<lambda>port.
             bindS (cond_timedwait now sleep (bindS (run1 X k (grp_cmd port)) (\<lambda>(rc, _). retS (rc = 0))) 5) (\<lambda>_. retS ())))))))))))))"

text \<open>\<open>start_daemons\<close>: the daemons of the specification, each by the method of its type.\<close>

definition start_daemon ::
  "('w, 'k) cops \<Rightarrow> ('w, int) io \<Rightarrow> ('w, unit) io \<Rightarrow> (string \<Rightarrow> 'k cont option) \<Rightarrow> 'k cont list \<Rightarrow> pval \<Rightarrow> 'k node \<Rightarrow> pval \<Rightarrow> ('w, 'k node) io" where
  "start_daemon X now sleep lookup conts cluster N d =
     bindS (liftE (p_index d ''type'')) (\<lambda>ty. bindS (liftE (p_dict d)) (\<lambda>args.
       let keep = (\<lambda>m. bindS m (\<lambda>_. retS N)) in
       if ty = PStr ''etcd'' then keep (start_etcd X lookup cluster (nd_cont N))
       else if ty = PStr ''ldmsd'' then
         bindS (liftE (case dget_or args ''spec_override'' (PDict []) of PDict o' \<Rightarrow> Inr o' | _ \<Rightarrow> Inl (TypeError ''object is not iterable''))) (\<lambda>ov.
           keep (start_ldmsd X now sleep cluster N ov))
       else if ty = PStr ''sshd'' then keep (start_sshd X (co_id (nd_cont N)))
       else if ty = PStr ''munged'' then start_munged X N (dget_or args ''name'' PNone) (dget_or args ''dom'' PNone) (dget_or args ''key'' PNone)
       else if ty = PStr ''slurmd'' then start_slurmx X conts cluster N ''slurmd''
       else if ty = PStr ''slurmctld'' then start_slurmx X conts cluster N ''slurmctld''
       else raiseS (RuntimeError (''Unsupported daemon type:'' @ py_str ty))))"

fun start_each :: "('n \<Rightarrow> pval \<Rightarrow> ('w, 'n) io) \<Rightarrow> 'n \<Rightarrow> pval list \<Rightarrow> ('w, 'n) io" where
  "start_each f N [] = retS N"
| "start_each f N (d # ds) = bindS (f N d) (\<lambda>N'. start_each f N' ds)"

definition start_daemons ::
  "('w, 'k) cops \<Rightarrow> ('w, int) io \<Rightarrow> ('w, unit) io \<Rightarrow> (string \<Rightarrow> 'k cont option) \<Rightarrow> 'k cont list \<Rightarrow> pval \<Rightarrow> 'k node \<Rightarrow> ('w, 'k node) io" where
  "start_daemons X now sleep lookup conts cluster N =
     bindS (liftE (node_daemons (nd_spec N))) (start_each (start_daemon X now sleep lookup conts cluster) N)"

definition all_start_daemons ::
  "('w, 'k) cops \<Rightarrow> ('w, int) io \<Rightarrow> ('w, unit) io \<Rightarrow> (string \<Rightarrow> 'k cont option) \<Rightarrow> pval \<Rightarrow> 'k node list \<Rightarrow> ('w, 'k node list) io" where
  "all_start_daemons X now sleep lookup cluster nodes = mapS (start_daemons X now sleep lookup (map nd_cont nodes) cluster) nodes"

section \<open>Files and jobs\<close>

definition test_cmd :: "string list \<Rightarrow> string" where
  "test_cmd files = ''bash -c '' @ [CHR 0x27] @ join '' && '' (map (\<lambda>f. ''test -e '' @ f) files) @ [CHR 0x27]"

partial_function (option) forever :: "('w, unit) io \<Rightarrow> ('w, bool) io \<Rightarrow> ('w, bool) io" where
  "forever sleep cond w = bindS cond (\<lambda>b. if b then retS True else seqS sleep (forever sleep cond)) w"

definition wait_files :: "('w, int) io \<Rightarrow> ('w, unit) io \<Rightarrow> ('w, bool) io \<Rightarrow> int option \<Rightarrow> ('w, bool) io" where
  "wait_files now sleep cond timeout =
     bindS now (\<lambda>t0. case timeout of Some t \<Rightarrow> poll now sleep cond t0 t | None \<Rightarrow> forever sleep cond)"

fun all_have :: "('w, 'k) cops \<Rightarrow> string \<Rightarrow> 'k list \<Rightarrow> ('w, bool) io" where
  "all_have X cmd [] = retS True"
| "all_have X cmd (k # ks) = bindS (run1 X k cmd) (\<lambda>(rc, _). if rc \<noteq> 0 then retS False else all_have X cmd ks)"

text \<open>\<open>files_exist\<close> of a container is that of a cluster with this container.\<close>

definition files_exist :: "('w, 'k) cops \<Rightarrow> ('w, int) io \<Rightarrow> ('w, unit) io \<Rightarrow> 'k list \<Rightarrow> string list \<Rightarrow> int option \<Rightarrow> ('w, bool) io" where
  "files_exist X now sleep ks files timeout = wait_files now sleep (all_have X (test_cmd files) ks) timeout"

fun re_search :: "re \<Rightarrow> string \<Rightarrow> string dict option" where
  "re_search r [] = re_match r []"
| "re_search r (c # s) = (case re_match r (c # s) of Some m \<Rightarrow> Some m | None \<Rightarrow> re_search r s)"

definition job_id :: "string \<Rightarrow> int res" where
  "job_id out = (case re_search (Seqs [Str ''Submitted batch job '', Grp ''1'' (Plus Digit)]) out of
     None \<Rightarrow> Inl (AttributeError ''group'') | Some m \<Rightarrow> parse_int (dget_or m ''1'' []))"

text \<open>\<open>os.path.split\<close>: the directory without the slashes at its end, unless it is nothing but slashes.\<close>

definition dir_base :: "string \<Rightarrow> string \<times> string" where
  "dir_base p =
     (let r = rev p; base = rev (takeWhile (\<lambda>c. c \<noteq> CHR ''/'') r); head = dropWhile (\<lambda>c. c \<noteq> CHR ''/'') r;
          cut = rev (dropWhile (\<lambda>c. c = CHR ''/'') head)
      in (if cut = [] then rev head else cut, base))"

definition sbatch :: "('w, 'k) cops \<Rightarrow> 'k cont list \<Rightarrow> string \<Rightarrow> string list \<Rightarrow> ('w, int) io" where
  "sbatch X conts path argv =
     (let (dir, base) = dir_base path; q = [CHR 0x22] in
      bindS (cluster_exec X conts (''bash -c '' @ q @ ''cd '' @ dir @ '' && sbatch '' @ join '' '' argv @ '' '' @ base @ q) PNone) (\<lambda>(rc, out).
        if rc \<noteq> 0 then raiseS (RuntimeError (''sbatch error, rc: '' @ str_int rc @ '', output: '' @ out)) else liftE (job_id out)))"

definition job_rows :: "string \<Rightarrow> string dict list res" where
  "job_rows out =
     (case splitlines_acc [] out of
        [] \<Rightarrow> Inl IndexError
      | hdr # ls \<Rightarrow> Inr (map (\<lambda>l. dupdate [] (zip (split_on CHR ''|'' hdr) (split_on CHR ''|'' l))) ls))"

definition squeue :: "('w, 'k) cops \<Rightarrow> 'k cont list \<Rightarrow> int option \<Rightarrow> ('w, string dict list) io" where
  "squeue X conts job =
     bindS (cluster_exec X conts (''squeue -o %all'' @ (case job of Some i \<Rightarrow> if i \<noteq> 0 then '' -j '' @ str_int i else [] | None \<Rightarrow> [])) PNone) (\<lambda>(rc, out).
       if rc \<noteq> 0 then raiseS (RuntimeError (''squeue error, rc: '' @ str_int rc @ '', output: '' @ out)) else liftE (job_rows out))"

definition scancel :: "('w, 'k) cops \<Rightarrow> 'k cont list \<Rightarrow> int \<Rightarrow> ('w, unit) io" where
  "scancel X conts job = bindS (cluster_exec X conts (''scancel '' @ str_int job) PNone) (\<lambda>_. retS ())"

section \<open>Slurm runs when it has been started\<close>

text \<open>
  What the code relies on in a container: \<open>pgrep -c\<close> counts the programs that are up, a slurm program that exits
  with 0 is up, and neither these commands, nor asking for the version, nor writing files ends a program.
\<close>

definition slurm_ok :: "('w, 'k) cops \<Rightarrow> 'k cont list \<Rightarrow> 'k \<Rightarrow> ('w \<Rightarrow> string \<Rightarrow> bool) \<Rightarrow> bool" where
  "slurm_ok X conts k up \<longleftrightarrow>
     (\<forall>t \<in> {''slurmd'', ''slurmctld''}. \<forall>w n w'. pgrepc X k t w = Some (Inr n, w') \<longrightarrow> n \<noteq> 0 \<longrightarrow> up w' t) \<and>
     (\<forall>t \<in> {''slurmd'', ''slurmctld''}. \<forall>w out w'. run1 X k t w = Some (Inr (0, out), w') \<longrightarrow> up w' t) \<and>
     (let R = (\<lambda>w w'. \<forall>t. up w t \<longrightarrow> up w' t) in
      (\<forall>t \<in> {''slurmd'', ''slurmctld''}. keeps R (pgrepc X k t) \<and> keeps R (run1 X k t)) \<and>
      (\<forall>p t. keeps R (x_write X k p t PNone)) \<and> keeps R (cluster_exec X conts ''slurmd -V'' PNone))"

lemma slurm_okD:
  assumes "slurm_ok X conts k up" "t \<in> {''slurmd'', ''slurmctld''}"
  shows "pgrepc X k t w = Some (Inr n, w') \<Longrightarrow> n \<noteq> 0 \<Longrightarrow> up w' t" "run1 X k t w = Some (Inr (0, out), w') \<Longrightarrow> up w' t"
    and "keeps (\<lambda>w w'. \<forall>t. up w t \<longrightarrow> up w' t) (pgrepc X k t)" "keeps (\<lambda>w w'. \<forall>t. up w t \<longrightarrow> up w' t) (run1 X k t)"
    and "keeps (\<lambda>w w'. \<forall>t. up w t \<longrightarrow> up w' t) (x_write X k p s PNone)"
    and "keeps (\<lambda>w w'. \<forall>t. up w t \<longrightarrow> up w' t) (cluster_exec X conts ''slurmd -V'' PNone)"
  using assms unfolding slurm_ok_def Let_def by blast+

lemma up_order: "reflp (\<lambda>w w'. \<forall>t. up w t \<longrightarrow> up w' t)" "transp (\<lambda>w w'. \<forall>t. up w t \<longrightarrow> up w' t)"
  by (auto simp: reflp_def transp_def)

lemma is_slurm_type:
  assumes "is_slurm d = Inr True"
  obtains t where "type_of d = Inr t" "t \<in> {''slurmd'', ''slurmctld''}"
proof -
  obtain di where d: "d = PDict di" "dget_or di ''type'' PNone = PStr ''slurmctld'' \<or> dget_or di ''type'' PNone = PStr ''slurmd''"
    using assms by (cases d) (auto simp: is_slurm_def p_get_def)
  then have "\<exists>t \<in> {''slurmd'', ''slurmctld''}. dget di ''type'' = Some (PStr t)" by (auto simp: dget_or_def split: option.splits)
  with d(1) that show ?thesis by (auto simp: type_of_def p_index_def dindex_def p_string_def)
qed

lemma filterE_set: "filterE f xs = Inr ys \<Longrightarrow> x \<in> set ys \<longleftrightarrow> x \<in> set xs \<and> f x = Inr True"
  by (induction xs arbitrary: ys) (auto simp: res_simps split: if_splits)

lemma tries_up:
  assumes ok: "slurm_ok X conts k up" "t \<in> {''slurmd'', ''slurmctld''}" and z: "fst r = 0 \<Longrightarrow> up w t"
  shows "tries n (run1 X k t) r w = Some (Inr (0, out), w') \<Longrightarrow> up w' t"
  using z
proof (induction n arbitrary: r w)
  case 0
  then show ?case by (auto simp: io_simps)
next
  case (Suc n)
  show ?case
  proof (cases "fst r = 0")
    case True
    with Suc.prems show ?thesis by (auto simp: io_simps)
  next
    case False
    with Suc.prems(1) obtain r1 w1 where 1: "run1 X k t w = Some (Inr r1, w1)" "tries n (run1 X k t) r1 w1 = Some (Inr (0, out), w')"
      by (auto simp: bindS_Some)
    have "fst r1 = 0 \<Longrightarrow> up w1 t" using slurm_okD(2) [OF ok] 1(1) by (cases r1) auto
    from Suc.IH [OF 1(2) this] show ?thesis .
  qed
qed

lemma keeps_tries: "reflp R \<Longrightarrow> transp R \<Longrightarrow> keeps R m \<Longrightarrow> keeps R (tries n m r)"
  by (induction n arbitrary: r) (auto intro: keeps_basic keeps_bind)

lemma keeps_plugstack:
  assumes ok: "slurm_ok X conts k up"
  shows "keeps (\<lambda>w w'. \<forall>t. up w t \<longrightarrow> up w' t) (put_plugstack X k d)"
proof -
  note k = slurm_okD [OF ok, of "''slurmd''", simplified]
  show ?thesis unfolding put_plugstack_def
    by (intro keeps_bind [OF up_order(2)] keeps_basic [OF up_order(1)])
       (auto intro!: keeps_bind [OF up_order(2)] keeps_basic [OF up_order(1)] k(5))
qed

lemma keeps_start_prog:
  assumes ok: "slurm_ok X conts k up" and t: "t \<in> {''slurmd'', ''slurmctld''}"
  shows "keeps (\<lambda>w w'. \<forall>t. up w t \<longrightarrow> up w' t) (start_prog X k t)"
  unfolding start_prog_def using keeps_tries [OF up_order slurm_okD(4) [OF ok t]]
  by (auto intro!: keeps_bind [OF up_order(2)] keeps_basic [OF up_order(1)] split: prod.split)

lemma start_prog_up:
  assumes ok: "slurm_ok X conts k up" and t: "t \<in> {''slurmd'', ''slurmctld''}" and s: "start_prog X k t w = Some (Inr (), w')"
  shows "up w' t"
proof -
  from s obtain out where "tries 3 (run1 X k t) (- 1, []) w = Some (Inr (0, out), w')"
    by (auto simp: start_prog_def bindS_Some io_simps split: if_splits)
  from tries_up [OF ok t _ this] show ?thesis by simp
qed

lemma not_up_up:
  assumes ok: "slurm_ok X conts k up" and ds: "\<And>d. d \<in> set ds \<Longrightarrow> is_slurm d = Inr True"
  shows "not_up X k ds w = Some (Inr l, w') \<Longrightarrow> set l \<subseteq> set ds \<and>
    (\<forall>d \<in> set ds. d \<in> set l \<or> (\<exists>t. type_of d = Inr t \<and> up w' t)) \<and> (\<forall>t. up w t \<longrightarrow> up w' t)"
  using ds
proof (induction ds arbitrary: l w)
  case Nil
  then show ?case by (auto simp: io_simps)
next
  case (Cons d ds)
  from is_slurm_type [of d] Cons.prems(2) obtain t where t: "type_of d = Inr t" "t \<in> {''slurmd'', ''slurmctld''}" by auto
  from Cons.prems(1) t(1) obtain n w1 l' where 1: "pgrepc X k t w = Some (Inr n, w1)" "not_up X k ds w1 = Some (Inr l', w')"
      "l = (if n = 0 then d # l' else l')"
    by (auto simp: bindS_Some io_simps split: if_splits)
  note ih = Cons.IH [OF 1(2)]
  have "n \<noteq> 0 \<Longrightarrow> up w1 t" using slurm_okD(1) [OF ok t(2) 1(1)] by simp
  moreover have "\<forall>t. up w t \<longrightarrow> up w1 t" using keepsD [OF slurm_okD(3) [OF ok t(2)] 1(1)] .
  ultimately show ?case using ih Cons.prems(2) t(1) 1(3) by (cases "n = 0") auto
qed

lemma start_slurm_daemon_Some:
  "type_of d = Inr t \<Longrightarrow> start_slurm_daemon X k d w = Some (Inr (), w') \<longleftrightarrow>
    (\<exists>w1. put_plugstack X k d w = Some (Inr (), w1) \<and> start_prog X k t w1 = Some (Inr (), w'))"
  by (auto simp: start_slurm_daemon_def bindS_Some io_simps)

lemma for_slurm_up:
  assumes ok: "slurm_ok X conts k up" and ds: "\<And>d. d \<in> set ds \<Longrightarrow> is_slurm d = Inr True"
  shows "forS ds (start_slurm_daemon X k) w = Some (Inr (), w') \<Longrightarrow>
    (\<forall>d \<in> set ds. \<exists>t. type_of d = Inr t \<and> up w' t) \<and> (\<forall>t. up w t \<longrightarrow> up w' t)"
  using ds
proof (induction ds arbitrary: w)
  case Nil
  then show ?case by (auto simp: io_simps)
next
  case (Cons d ds)
  from is_slurm_type [of d] Cons.prems(2) obtain t where t: "type_of d = Inr t" "t \<in> {''slurmd'', ''slurmctld''}" by auto
  from Cons.prems(1) t(1) obtain w1 w2 where 1: "put_plugstack X k d w = Some (Inr (), w1)" "start_prog X k t w1 = Some (Inr (), w2)"
      "forS ds (start_slurm_daemon X k) w2 = Some (Inr (), w')"
    by (auto simp: start_slurm_daemon_Some bindS_Some)
  have "\<forall>t. up w t \<longrightarrow> up w1 t" "\<forall>t. up w1 t \<longrightarrow> up w2 t" "up w2 t"
    using keepsD [OF keeps_plugstack [OF ok] 1(1)] keepsD [OF keeps_start_prog [OF ok t(2)] 1(2)] start_prog_up [OF ok t(2) 1(2)] by blast+
  with Cons.IH [OF 1(3)] Cons.prems(2) t(1) show ?case by auto
qed

lemma keeps_conf:
  assumes ok: "slurm_ok X conts k up"
  shows "keeps (\<lambda>w w'. \<forall>t. up w t \<longrightarrow> up w' t) (prep_slurm_conf X conts cluster k)"
proof -
  note k = slurm_okD [OF ok, of "''slurmd''", simplified]
  have "keeps (\<lambda>w w'. \<forall>t. up w t \<longrightarrow> up w' t) (slurm_version X conts)"
    unfolding slurm_version_def by (auto intro!: keeps_bind [OF up_order(2)] keeps_basic [OF up_order(1)] k(6) split: prod.split)
  then have "keeps (\<lambda>w w'. \<forall>t. up w t \<longrightarrow> up w' t) (slurm_conf X conts cluster)"
    unfolding slurm_conf_def by (auto intro!: keeps_bind [OF up_order(2)] keeps_basic [OF up_order(1)] split: prod.split)
  then show ?thesis
    unfolding prep_slurm_conf_def by (auto intro!: keeps_bind [OF up_order(2)] k(5))
qed

lemma slurm_up:
  assumes ok: "slurm_ok X conts (co_id (nd_cont N)) up" and s: "start_slurm X conts cluster N w = Some (Inr (), w')"
    and d: "node_daemons (nd_spec N) = Inr ds" "d \<in> set ds" "is_slurm d = Inr True"
  shows "\<exists>t. type_of d = Inr t \<and> up w' t"
proof -
  from s d(1) obtain sd ws w1 where 1: "filterE is_slurm ds = Inr sd" "not_up X (co_id (nd_cont N)) sd w = Some (Inr ws, w1)"
      "(if ws = [] then retS () else seqS (prep_slurm_conf X conts cluster (co_id (nd_cont N))) (forS ws (start_slurm_daemon X (co_id (nd_cont N))))) w1 = Some (Inr (), w')"
    by (auto simp: start_slurm_def Let_def bindS_Some io_simps)
  have sd: "\<And>x. x \<in> set sd \<longleftrightarrow> x \<in> set ds \<and> is_slurm x = Inr True" using filterE_set [OF 1(1)] by simp
  note n = not_up_up [OF ok _ 1(2)]
  show ?thesis
  proof (cases "ws = []")
    case True
    with n sd d 1(3) show ?thesis by (fastforce simp: io_simps)
  next
    case False
    with 1(3) obtain w2 where 2: "prep_slurm_conf X conts cluster (co_id (nd_cont N)) w1 = Some (Inr (), w2)"
        "forS ws (start_slurm_daemon X (co_id (nd_cont N))) w2 = Some (Inr (), w')" by (auto simp: bindS_Some)
    have ws: "\<And>x. x \<in> set ws \<Longrightarrow> is_slurm x = Inr True" using n sd by blast
    from keepsD [OF keeps_conf [OF ok] 2(1)] for_slurm_up [OF ok ws 2(2)] n sd d show ?thesis by (metis (no_types, lifting))
  qed
qed

section \<open>What is read back\<close>

text \<open>A process environment as the kernel gives it: every entry ends with a zero byte.\<close>

definition environ_text :: "string dict \<Rightarrow> string" where
  "environ_text d = concat (map (\<lambda>(n, v). n @ ''='' @ v @ [CHR 0x00]) d)"

lemma split_entries: "(\<And>x. x \<in> set xs \<Longrightarrow> c \<notin> set x) \<Longrightarrow> split_on c (concat (map (\<lambda>x. x @ [c]) xs)) = xs @ [[]]"
  by (induction xs) (simp_all add: split_on_append)

lemma environ_fold:
  "(\<And>n v. (n, v) \<in> set d \<Longrightarrow> CHR ''='' \<notin> set n) \<Longrightarrow>
   foldE (\<lambda>d v. case split1 CHR ''='' v of [n, x] \<Rightarrow> Inr (dset n x d) | _ \<Rightarrow> Inl (ValueError ''dictionary update sequence element #0 has length 1; 2 is required''))
     e (map (\<lambda>(n, v). n @ ''='' @ v) d) = Inr (dupdate e d)"
proof (induction d arbitrary: e)
  case (Cons p d)
  obtain n v where p: "p = (n, v)" by (cases p)
  with Cons.prems have f: "split1 CHR ''='' (n @ CHR ''='' # v) = [n, v]" by (intro split1_sep) auto
  have "\<And>n v. (n, v) \<in> set d \<Longrightarrow> CHR ''='' \<notin> set n" using Cons.prems by auto
  from Cons.IH [where e = "dset n v e", OF this] f p show ?case by (simp add: dict_simps)
qed (simp add: dict_simps)

lemma environ_read_back:
  assumes "distinct (map fst d)" "\<And>n v. (n, v) \<in> set d \<Longrightarrow> CHR ''='' \<notin> set n \<and> CHR 0x00 \<notin> set n \<and> CHR 0x00 \<notin> set v"
  shows "environ_of (environ_text d) = Inr d"
proof -
  let ?es = "map (\<lambda>(n, v). n @ ''='' @ v) d"
  have "environ_text d = concat (map (\<lambda>x. x @ [CHR 0x00]) ?es)" by (induction d) (auto simp: environ_text_def)
  moreover have "split_on CHR 0x00 (concat (map (\<lambda>x. x @ [CHR 0x00]) ?es)) = ?es @ [[]]"
    by (rule split_entries) (use assms(2) in fastforce)
  moreover have "filter (\<lambda>v. v \<noteq> []) (?es @ [[]]) = ?es" by (auto simp: filter_id_conv)
  moreover have "dupdate [] d = d" using assms(1) by (rule dupdate_Nil_id)
  ultimately show ?thesis using environ_fold [of d "[]"] assms(2) by (simp add: environ_of_def)
qed

section \<open>Properties\<close>

text \<open>
  C28: slurm runs when it has been started. When \<open>start_slurm\<close> returns, every \<open>slurmd\<close> and \<open>slurmctld\<close> of the node's
  specification is up: those that were not counted as running have been run until one of at most three
  attempts exits with 0, and none is lost on the way.
\<close>

theorem slurm_daemons_run:
  assumes "slurm_ok X conts (co_id (nd_cont N)) up" "start_slurm X conts cluster N w = Some (Inr (), w')"
    and "node_daemons (nd_spec N) = Inr ds" "d \<in> set ds" "is_slurm d = Inr True"
  shows "\<exists>t. type_of d = Inr t \<and> up w' t"
  by (rule slurm_up [OF assms])

text \<open>A container in which the first attempt to start a program fails.\<close>

definition demo_X :: "(string list \<times> bool, unit) cops" where
  "demo_X = \<lparr>x_exec = (\<lambda>_ cmd _ _ (ps, tried).
       if cmd = PStr ''pgrep -c slurmd'' then Some (Inr (0, if ''slurmd'' \<in> set ps then ''1'' else ''0''), (ps, tried))
       else if cmd = PStr ''pgrep -c slurmctld'' then Some (Inr (0, if ''slurmctld'' \<in> set ps then ''1'' else ''0''), (ps, tried))
       else if cmd = PStr ''slurmd -V'' then Some (Inr (0, ''slurm 20.11.9''), (ps, tried))
       else if cmd = PStr ''slurmd'' then (if tried then Some (Inr (0, []), (''slurmd'' # ps, False)) else Some (Inr (1, []), (ps, True)))
       else if cmd = PStr ''slurmctld'' then (if tried then Some (Inr (0, []), (''slurmctld'' # ps, False)) else Some (Inr (1, []), (ps, True)))
       else Some (Inr (0, []), (ps, tried))),
     x_write = (\<lambda>_ _ _ _ s. Some (Inr (), s)), x_read = (\<lambda>_ _ _ s. Some (Inr [], s))\<rparr>"

definition demo_spec :: pval where
  "demo_spec = PDict [(''hostname'', PStr ''n''), (''daemons'', PList [PDict [(''type'', PStr ''slurmd'')]])]"

definition demo_node :: "unit node" where
  "demo_node = \<lparr>nd_cont = \<lparr>co_id = (), co_hostname = ''n'', co_ip = None, co_ip6 = None, co_aliases = PNone\<rparr>, nd_spec = demo_spec, nd_munged = []\<rparr>"

lemma demo_slurm_ok: "slurm_ok demo_X [nd_cont demo_node] () (\<lambda>s t. t \<in> set (fst s))"
proof -
  have p: "parse_int ''0'' = Inr 0" "parse_int ''1'' = Inr 1" by code_simp+
  show ?thesis
    unfolding slurm_ok_def Let_def keeps_def
    by (auto simp: pgrepc_def run1_def demo_X_def bindS_Some io_simps p cluster_exec_def last_cont_def split: if_splits)
qed

lemma demo_start: "start_slurm demo_X [nd_cont demo_node] (PDict [(''nodes'', PList [demo_spec])]) demo_node ([], False) = Some (Inr (), ([''slurmd''], False))"
  by code_simp

theorem slurm_daemons_run_witness:
  "\<exists>t. type_of (PDict [(''type'', PStr ''slurmd'')]) = Inr t \<and> t \<in> set (fst ([''slurmd''], False))"
proof -
  have s: "start_slurm demo_X [nd_cont demo_node] (PDict [(''nodes'', PList [demo_spec])]) demo_node ([], False) = Some (Inr (), ([''slurmd''], False))"
    by (rule demo_start)
  have n: "node_daemons (nd_spec demo_node) = Inr [PDict [(''type'', PStr ''slurmd'')]]" by code_simp
  have i: "is_slurm (PDict [(''type'', PStr ''slurmd'')]) = Inr True" by code_simp
  have c: "co_id (nd_cont demo_node) = ()" by simp
  show ?thesis using slurm_daemons_run [OF demo_slurm_ok [folded c] s n _ i] by simp
qed

section \<open>Where the code goes wrong\<close>

text \<open>
  A munged that is asked for by its domain: a daemon without a name has the name that was not given, so the first
  daemon of the node is taken whatever it is, and the key is not that of the domain.
\<close>

lemma munged_of_another_daemon:
  "new_munged (PDict [(''daemons'', PList [PDict [(''type'', PStr ''sshd'')],
      PDict [(''type'', PStr ''munged''), (''dom'', PStr ''d1''), (''key'', PStr ''secret'')]])]) PNone (PStr ''d1'') PNone =
    Inr \<lparr>mu_dom = PStr ''d1'', mu_key = PNone\<rparr>"
  by code_simp

text \<open>A munged that is not running is killed as process \<open>None\<close>.\<close>

lemma kill_without_pid:
  "run1 X k (''cat '' @ mu_pid_file m) w = Some (Inr (1, out), w1) \<Longrightarrow> run1 X k ''kill None'' w1 = Some (Inr r, w2) \<Longrightarrow>
    mu_kill X k m w = Some (Inr (), w2)"
  by (simp add: mu_kill_def mu_get_pid_def bindS_Some io_simps)

end
